(* ===== verification/LifeOS_Prelude.thy ===== *)
theory LifeOS_Prelude
  imports Main "HOL-Library.Word" "HOL-Library.Monad_Syntax"
begin

text \<open>
  Shared vocabulary of the LifeOS development.

  A C function of the kernel becomes a function on an explicit state that returns an
  \<open>option\<close>: \<open>Some\<close> holds the state (and value) after the call, \<open>None\<close> means that the
  call has no defined result, because it reads or writes outside an array, uses an
  uninitialised value, or spins forever on a device. A theorem that concludes
  \<open>wp m Q\<close> therefore says that the call is memory safe, returns, and establishes \<open>Q\<close>.
  Arrays are lists whose every access goes through the bounds-checked \<open>rd\<close> and \<open>wr\<close>.
  The theory also fixes how C's integer conversions are written, and holds the generic
  lemmas on lists and rings that several components use.
\<close>

unbundle bit_operations_syntax

named_theorems wp_simps \<open>weakest preconditions of the primitive operations\<close>

section \<open>C integers and characters\<close>

type_synonym u8 = "8 word"
type_synonym u16 = "16 word"
type_synonym u32 = "32 word"
type_synonym u64 = "64 word"

text \<open>Conversion of an arithmetic value to \<open>uint8_t\<close> and \<open>unsigned int\<close>, where the code
  keeps the value in a counter; \<open>sub32\<close> is subtraction on \<open>unsigned int\<close>.\<close>

definition to_u8 :: "nat \<Rightarrow> nat" where
  "to_u8 n = n mod 256"

definition to_u32 :: "nat \<Rightarrow> nat" where
  "to_u32 n = n mod 4294967296"

definition sub32 :: "nat \<Rightarrow> nat \<Rightarrow> nat" where
  "sub32 a b = (a + (4294967296 - b mod 4294967296)) mod 4294967296"

text \<open>\<open>char\<close> is a signed byte on x86: \<open>schar\<close> is its value as an \<open>int\<close>, \<open>uchar\<close> its
  value after the cast to \<open>unsigned char\<close>, \<open>byte_of\<close> its eight bits.\<close>

definition byte_of :: "char \<Rightarrow> u8" where
  "byte_of c = word_of_nat (of_char c)"

definition uchar :: "char \<Rightarrow> int" where
  "uchar c = int (of_char c)"

definition schar :: "char \<Rightarrow> int" where
  "schar c = (if uchar c < 128 then uchar c else uchar c - 256)"

abbreviation NUL :: char where "NUL \<equiv> CHR 0x00"

lemma to_u8_id [simp]: "n < 256 \<Longrightarrow> to_u8 n = n"
  by (simp add: to_u8_def)

lemma to_u8_less [simp]: "to_u8 n < 256"
  by (simp add: to_u8_def)

lemma to_u32_id [simp]: "n < 4294967296 \<Longrightarrow> to_u32 n = n"
  by (simp add: to_u32_def)

lemma sub32_id: "b \<le> a \<Longrightarrow> a < 4294967296 \<Longrightarrow> sub32 a b = a - b"
proof -
  assume le: "b \<le> a" and lt: "a < 4294967296"
  then have "a + (4294967296 - b mod 4294967296) = (a - b) + 4294967296" by simp
  then have "sub32 a b = ((a - b) + 4294967296) mod 4294967296"
    unfolding sub32_def by presburger
  also have "\<dots> = (a - b) mod 4294967296" by (rule mod_add_self2)
  also have "\<dots> = a - b" using lt by simp
  finally show ?thesis .
qed

lemma sub32_Suc [simp]: "0 < a \<Longrightarrow> a < 4294967296 \<Longrightarrow> sub32 a (Suc 0) = a - 1"
  by (simp add: sub32_id)

text \<open>The masks and shifts the code uses to take a word apart.\<close>

lemma mask_take_bit:
  "(w :: 'a::len word) AND 15 = take_bit 4 w" "w AND 255 = take_bit 8 w"
  "w AND 65535 = take_bit 16 w" "w AND 4294967295 = take_bit 32 w"
  by (simp_all add: take_bit_eq_mask mask_eq_exp_minus_1)

lemma unat_take_drop:
  "unat (take_bit n (w :: 'a::len word)) = unat w mod 2 ^ n"
  "unat (drop_bit n w) = unat w div 2 ^ n"
  by (simp only: unsigned_take_bit_eq take_bit_nat_def)
    (simp only: unat_drop_bit_eq drop_bit_nat_def)

section \<open>Weakest preconditions of option-valued code\<close>

definition wp :: "'a option \<Rightarrow> ('a \<Rightarrow> bool) \<Rightarrow> bool" where
  "wp m Q = (case m of None \<Rightarrow> False | Some x \<Rightarrow> Q x)"

lemma wp_Some [simp, wp_simps]: "wp (Some x) Q = Q x"
  by (simp add: wp_def)

lemma wp_None [simp, wp_simps]: "wp None Q = False"
  by (simp add: wp_def)

lemma wp_bind [simp, wp_simps]: "wp (Option.bind m f) Q = wp m (\<lambda>x. wp (f x) Q)"
  by (cases m) simp_all

lemma wp_if [wp_simps]: "wp (if b then m else n) Q = (if b then wp m Q else wp n Q)"
  by simp

lemma wp_mono: "wp m P \<Longrightarrow> (\<And>x. P x \<Longrightarrow> Q x) \<Longrightarrow> wp m Q"
  by (cases m) simp_all

lemma wp_seq: "wp m P \<Longrightarrow> (\<And>x. P x \<Longrightarrow> wp (f x) Q) \<Longrightarrow> wp (Option.bind m f) Q"
  by (cases m) simp_all

lemma wp_conj: "wp m P \<Longrightarrow> wp m Q \<Longrightarrow> wp m (\<lambda>x. P x \<and> Q x)"
  by (cases m) simp_all

lemma wp_iff_Some: "wp m Q \<longleftrightarrow> (\<exists>x. m = Some x \<and> Q x)"
  by (cases m) simp_all

lemma wp_eq: "m = Some x \<Longrightarrow> Q x \<Longrightarrow> wp m Q"
  by simp

lemma wpE: "wp m Q \<Longrightarrow> (\<And>x. m = Some x \<Longrightarrow> Q x \<Longrightarrow> R) \<Longrightarrow> R"
  by (cases m) simp_all

section \<open>Bounds-checked arrays\<close>

definition rd :: "'a list \<Rightarrow> nat \<Rightarrow> 'a option" where
  "rd xs i = (if i < length xs then Some (xs ! i) else None)"

definition wr :: "'a list \<Rightarrow> nat \<Rightarrow> 'a \<Rightarrow> 'a list option" where
  "wr xs i v = (if i < length xs then Some (xs[i := v]) else None)"

definition rd2 :: "'a list list \<Rightarrow> nat \<Rightarrow> nat \<Rightarrow> 'a option" where
  "rd2 m y x = Option.bind (rd m y) (\<lambda>row. rd row x)"

definition wr2 :: "'a list list \<Rightarrow> nat \<Rightarrow> nat \<Rightarrow> 'a \<Rightarrow> 'a list list option" where
  "wr2 m y x v = Option.bind (rd m y) (\<lambda>row. Option.bind (wr row x v) (\<lambda>row'. wr m y row'))"

lemma rd_in [simp]: "i < length xs \<Longrightarrow> rd xs i = Some (xs ! i)"
  by (simp add: rd_def)

lemma rd_out [simp]: "length xs \<le> i \<Longrightarrow> rd xs i = None"
  by (simp add: rd_def)

lemma wr_in [simp]: "i < length xs \<Longrightarrow> wr xs i v = Some (xs[i := v])"
  by (simp add: wr_def)

lemma wr_out [simp]: "length xs \<le> i \<Longrightarrow> wr xs i v = None"
  by (simp add: wr_def)

text \<open>The shape of a two-dimensional array.\<close>

definition grid :: "nat \<Rightarrow> nat \<Rightarrow> 'a list list \<Rightarrow> bool" where
  "grid h w m \<longleftrightarrow> length m = h \<and> (\<forall>row \<in> set m. length row = w)"

lemma grid_length: "grid h w m \<Longrightarrow> length m = h"
  by (simp add: grid_def)

lemma grid_row: "grid h w m \<Longrightarrow> y < h \<Longrightarrow> length (m ! y) = w"
  by (simp add: grid_def)

lemma rd2_grid: "grid h w m \<Longrightarrow> y < h \<Longrightarrow> x < w \<Longrightarrow> rd2 m y x = Some (m ! y ! x)"
  by (simp add: rd2_def grid_length grid_row)

lemma wr2_grid:
  "grid h w m \<Longrightarrow> y < h \<Longrightarrow> x < w \<Longrightarrow> wr2 m y x v = Some (m[y := (m ! y)[x := v]])"
  by (simp add: wr2_def grid_length grid_row)

lemma grid_update: "grid h w m \<Longrightarrow> length row = w \<Longrightarrow> grid h w (m[y := row])"
  by (auto simp: grid_def dest: subsetD [OF set_update_subset_insert])

lemma grid_update2: "grid h w m \<Longrightarrow> y < h \<Longrightarrow> grid h w (m[y := (m ! y)[x := v]])"
  by (rule grid_update) (simp_all add: grid_row)

lemma grid_replicate [simp]: "grid h w (replicate h (replicate w v))"
  by (simp add: grid_def)

lemma grid_hd:
  assumes "grid h w m" and "0 < h"
  shows "m \<noteq> []" and "hd m = m ! 0" and "length (hd m) = w"
  using assms by (auto simp: grid_def hd_conv_nth)

lemma grid_shift: "grid h w m \<Longrightarrow> 0 < h \<Longrightarrow> length r = w \<Longrightarrow> grid h w (tl m @ [r])"
  by (cases m) (auto simp: grid_def)

lemma length_concat_grid: "grid h w m \<Longrightarrow> length (concat m) = h * w"
proof -
  assume g: "grid h w m"
  then have "map length m = replicate h w"
    by (intro nth_equalityI) (auto simp: grid_length grid_row)
  then show ?thesis by (simp add: length_concat sum_list_replicate)
qed

lemma concat_update:
  "grid h w m \<Longrightarrow> y < h \<Longrightarrow> x < w \<Longrightarrow> concat (m[y := (m ! y)[x := v]]) = (concat m)[y * w + x := v]"
proof (induction m arbitrary: h y)
  case Nil
  then show ?case by simp
next
  case (Cons r m)
  then have r: "length r = w" and h: "h = Suc (length m)" and g: "grid (length m) w m"
    by (auto simp: grid_def)
  show ?case
  proof (cases y)
    case 0
    with r Cons.prems(3) show ?thesis by (simp add: list_update_append)
  next
    case (Suc z)
    then have "concat (m[z := (m ! z)[x := v]]) = (concat m)[z * w + x := v]"
      using Cons.IH [OF g] Cons.prems h by simp
    with Suc r show ?thesis by (simp add: list_update_append algebra_simps)
  qed
qed

lemma grid_eqI:
  assumes "grid h w a" and "grid h w b"
    and "\<And>y x. y < h \<Longrightarrow> x < w \<Longrightarrow> a ! y ! x = b ! y ! x"
  shows "a = b"
  using assms by (intro nth_equalityI) (auto simp: grid_length grid_row intro!: nth_equalityI)

section \<open>Loops\<close>

text \<open>A counting \<open>for\<close> loop runs its body for each element of a list of counter values.\<close>

primrec for_each :: "'i list \<Rightarrow> ('i \<Rightarrow> 's \<Rightarrow> 's option) \<Rightarrow> 's \<Rightarrow> 's option" where
  "for_each [] f s = Some s"
| "for_each (i # is) f s = Option.bind (f i s) (\<lambda>s'. for_each is f s')"

lemma for_each_append [simp]:
  "for_each (xs @ ys) f s = Option.bind (for_each xs f s) (for_each ys f)"
  by (induction xs arbitrary: s) simp_all

lemma wp_for_upt:
  assumes "a \<le> b" and "I a s"
    and "\<And>i t. a \<le> i \<Longrightarrow> i < b \<Longrightarrow> I i t \<Longrightarrow> wp (f i t) (I (Suc i))"
  shows "wp (for_each [a..<b] f s) (I b)"
  using assms
proof (induction b)
  case 0
  then show ?case by simp
next
  case (Suc b)
  show ?case
  proof (cases "a = Suc b")
    case True
    with Suc.prems show ?thesis by simp
  next
    case False
    with Suc.prems have "wp (for_each [a..<b] f s) (I b)" by (intro Suc.IH) auto
    then have "wp (for_each [a..<b] f s) (\<lambda>t. wp (f b t) (I (Suc b)))"
      using False Suc.prems by (elim wp_mono) auto
    with False Suc.prems show ?thesis by simp
  qed
qed

lemma for_each_cong:
  "xs = ys \<Longrightarrow> (\<And>i s. i \<in> set ys \<Longrightarrow> f i s = g i s) \<Longrightarrow> for_each xs f s = for_each ys g s"
proof (induction ys arbitrary: xs s)
  case Nil
  then show ?case by simp
next
  case (Cons y ys)
  from Cons.prems(2) have "\<And>t. for_each ys f t = for_each ys g t"
    by (intro Cons.IH) auto
  with Cons.prems show ?case by simp
qed

lemma wp_for_each_inv:
  assumes "I s" and "\<And>i t. i \<in> set xs \<Longrightarrow> I t \<Longrightarrow> wp (f i t) I"
  shows "wp (for_each xs f s) I"
  using assms
proof (induction xs arbitrary: s)
  case Nil
  then show ?case by simp
next
  case (Cons x xs)
  then have "wp (f x s) I" by simp
  then have "wp (f x s) (\<lambda>t. wp (for_each xs f t) I)"
    using Cons.prems(2) by (elim wp_mono) (auto intro: Cons.IH)
  then show ?case by simp
qed

lemma for_each_map: "for_each (map g xs) f s = for_each xs (\<lambda>i. f (g i)) s"
  by (induction xs arbitrary: s) simp_all

text \<open>Total bodies: the loop is a fold.\<close>

lemma for_each_Some: "for_each xs (\<lambda>i s. Some (g i s)) s = Some (fold g xs s)"
  by (induction xs arbitrary: s) simp_all

text \<open>A loop whose state after \<open>i\<close> rounds has a closed form.\<close>

lemma for_upt_state:
  assumes "\<And>i. i < n \<Longrightarrow> body i (st i) = Some (st (Suc i))"
  shows "for_each [0..<n] body (st 0) = Some (st n)"
  using assms by (induction n) simp_all

text \<open>Writing a run of cells over part of an array.\<close>

definition overwrite :: "nat \<Rightarrow> 'a list \<Rightarrow> 'a list \<Rightarrow> 'a list" where
  "overwrite b xs v = take b v @ xs @ drop (b + length xs) v"

lemma overwrite_Nil [simp]: "overwrite b [] v = v"
  by (simp add: overwrite_def)

lemma take_overwrite: "take (length xs) (overwrite 0 xs v) = xs"
  by (simp add: overwrite_def)

lemma overwrite_all: "length xs = length v \<Longrightarrow> overwrite 0 xs v = xs"
  by (simp add: overwrite_def)

lemma length_overwrite [simp]: "b + length xs \<le> length v \<Longrightarrow> length (overwrite b xs v) = length v"
  by (simp add: overwrite_def)

lemma overwrite_snoc:
  assumes "b + length xs < length v"
  shows "(overwrite b xs v)[b + length xs := x] = overwrite b (xs @ [x]) v"
proof -
  have "drop (b + length xs) v = v ! (b + length xs) # drop (Suc (b + length xs)) v"
    using assms by (simp add: Cons_nth_drop_Suc)
  then show ?thesis using assms by (simp add: overwrite_def list_update_append)
qed

lemma overwrite_Cons: "c < length v \<Longrightarrow> overwrite (c + 1) xs (v[c := x]) = overwrite c (x # xs) v"
  by (simp add: overwrite_def take_Suc_conv_app_nth)

lemma overwrite_upt_step:
  assumes "b + i < length v"
  shows "(overwrite b (map f [0..<i]) v)[b + i := f i] = overwrite b (map f [0..<Suc i]) v"
  using overwrite_snoc [of b "map f [0..<i]" v "f i"] assms by simp

lemma overwrite_overwrite:
  "b = length ys \<Longrightarrow> b + length xs \<le> length v \<Longrightarrow>
    overwrite b xs (overwrite 0 ys v) = overwrite 0 (ys @ xs) v"
  by (simp add: overwrite_def add.commute)

section \<open>Strings\<close>

text \<open>A C string constant is its characters and a terminator; \<open>c_str\<close> reads the string an
  array holds.\<close>

definition c_lit :: "string \<Rightarrow> char list" where
  "c_lit s = s @ [NUL]"

definition c_str :: "char list \<Rightarrow> string" where
  "c_str a = takeWhile (\<lambda>c. c \<noteq> NUL) a"

definition terminated :: "char list \<Rightarrow> bool" where
  "terminated a \<longleftrightarrow> NUL \<in> set a"

lemma c_str_Nil [simp]: "c_str [] = []"
  by (simp add: c_str_def)

lemma c_str_Cons [simp]: "c_str (c # a) = (if c = NUL then [] else c # c_str a)"
  by (simp add: c_str_def)

lemma terminated_Nil [simp]: "\<not> terminated []"
  by (simp add: terminated_def)

lemma terminated_Cons [simp]: "terminated (c # a) \<longleftrightarrow> c = NUL \<or> terminated a"
  by (auto simp: terminated_def)

lemma terminated_lit [simp]: "terminated (c_lit s)"
  by (simp add: terminated_def c_lit_def)

lemma c_str_lit [simp]: "NUL \<notin> set s \<Longrightarrow> c_str (c_lit s) = s"
  by (induction s) (auto simp: c_lit_def)

lemma c_str_no_NUL [simp]: "NUL \<notin> set (c_str a)"
  by (auto simp: c_str_def dest: set_takeWhileD)

section \<open>Lists\<close>

text \<open>Positions of a ring.\<close>

lemma mod_add_neq:
  assumes "i < (j::nat)" and "j < N"
  shows "(a + i) mod N \<noteq> (a + j) mod N"
proof
  assume "(a + i) mod N = (a + j) mod N"
  then have "N dvd (a + j) - (a + i)" using assms by (intro mod_eq_dvd_iff_nat [THEN iffD1]) auto
  moreover have "0 < (a + j) - (a + i)" "(a + j) - (a + i) < N" using assms by auto
  ultimately show False by (auto dest: dvd_imp_le)
qed

lemma take_append_eq: "length xs = n \<Longrightarrow> take n (xs @ ys) = xs"
  by simp

text \<open>The last \<open>n\<close> elements, which is what a full ring buffer keeps.\<close>

definition lastn :: "nat \<Rightarrow> 'a list \<Rightarrow> 'a list" where
  "lastn n xs = drop (length xs - n) xs"

lemma length_lastn [simp]: "length (lastn n xs) = min n (length xs)"
  by (simp add: lastn_def)

lemma lastn_all [simp]: "length xs \<le> n \<Longrightarrow> lastn n xs = xs"
  by (simp add: lastn_def)

lemma lastn_snoc_lastn: "lastn n (lastn n xs @ [x]) = lastn n (xs @ [x])"
  by (cases "length xs \<le> n") (auto simp: lastn_def min_def not_le Suc_diff_le)

lemma lastn_lastn_append: "lastn n (lastn n xs @ ys) = lastn n (xs @ ys)"
  by (cases "length xs \<le> n") (auto simp: lastn_def add.commute)

lemma last_lastn_snoc: "0 < n \<Longrightarrow> lastn n (xs @ [x]) \<noteq> [] \<and> last (lastn n (xs @ [x])) = x"
  by (auto simp: lastn_def Suc_diff_le)

lemma lastn_snoc_full: "length xs = n \<Longrightarrow> 0 < n \<Longrightarrow> lastn n (xs @ [x]) = tl xs @ [x]"
  by (cases xs) (simp_all add: lastn_def)

end
