(* ===== verification/Port_IO.thy ===== *)
theory Port_IO
  imports LifeOS_Prelude
begin

text \<open>
  The hardware abstraction layer: \<open>src/hal/io.h\<close>, \<open>src/hal/pci.h\<close>, \<open>src/hal/cpu.h\<close> and
  \<open>src/hal/memory.h\<close>.

  The machine is a parameter: a record of what it answers. Its answer to a port read may
  depend on every port access made before, so the state carries the trace of port accesses
  (newest first), and \<open>port_in\<close> maps a trace and a port to the value the device returns.
  Every access of the code is one event of the trace, in program order.
\<close>

section \<open>The machine and the trace of port accesses\<close>

datatype io_event =
    InB u16 u8 | InW u16 u16 | InL u16 u32
  | OutB u16 u8 | OutW u16 u16 | OutL u16 u32

record hardware =
  port_in :: "io_event list \<Rightarrow> u16 \<Rightarrow> u32"
  cpuid_ebx :: "u32 \<Rightarrow> u32"            \<comment> \<open>EBX of CPUID for a leaf in EAX\<close>
  mem8 :: "nat \<Rightarrow> u8 option"           \<comment> \<open>physical memory; \<open>None\<close> where nothing is mapped\<close>
  image_end :: u64                      \<comment> \<open>the linker symbol \<open>end\<close>\<close>
  nmi_wakes :: nat                      \<comment> \<open>how often a non-maskable event resumes a \<open>hlt\<close>\<close>
  stack_word :: "nat \<Rightarrow> u32"            \<comment> \<open>what the slots of an uninitialised local array hold\<close>

record io =
  trace :: "io_event list"

section \<open>io.h\<close>

definition outb :: "u16 \<Rightarrow> u8 \<Rightarrow> 'a io_scheme \<Rightarrow> 'a io_scheme" where
  "outb port val s = s\<lparr>trace := OutB port val # trace s\<rparr>"

definition inb :: "hardware \<Rightarrow> u16 \<Rightarrow> 'a io_scheme \<Rightarrow> u8 \<times> 'a io_scheme" where
  "inb hw port s =
     (let ret = ucast (port_in hw (trace s) port)
      in (ret, s\<lparr>trace := InB port ret # trace s\<rparr>))"

definition outw :: "u16 \<Rightarrow> u16 \<Rightarrow> 'a io_scheme \<Rightarrow> 'a io_scheme" where
  "outw port val s = s\<lparr>trace := OutW port val # trace s\<rparr>"

definition inw :: "hardware \<Rightarrow> u16 \<Rightarrow> 'a io_scheme \<Rightarrow> u16 \<times> 'a io_scheme" where
  "inw hw port s =
     (let ret = ucast (port_in hw (trace s) port)
      in (ret, s\<lparr>trace := InW port ret # trace s\<rparr>))"

definition outl :: "u16 \<Rightarrow> u32 \<Rightarrow> 'a io_scheme \<Rightarrow> 'a io_scheme" where
  "outl port val s = s\<lparr>trace := OutL port val # trace s\<rparr>"

definition inl :: "hardware \<Rightarrow> u16 \<Rightarrow> 'a io_scheme \<Rightarrow> u32 \<times> 'a io_scheme" where
  "inl hw port s =
     (let ret = port_in hw (trace s) port
      in (ret, s\<lparr>trace := InL port ret # trace s\<rparr>))"

section \<open>pci.h\<close>

definition pci_address :: "u8 \<Rightarrow> u8 \<Rightarrow> u8 \<Rightarrow> u8 \<Rightarrow> u32" where
  "pci_address bus dev func offset =
     push_bit 31 1 OR push_bit 16 (ucast bus) OR push_bit 11 (ucast dev) OR
     push_bit 8 (ucast func) OR ucast (offset AND 0xFC)"

definition pci_config_read ::
    "hardware \<Rightarrow> u8 \<Rightarrow> u8 \<Rightarrow> u8 \<Rightarrow> u8 \<Rightarrow> 'a io_scheme \<Rightarrow> u32 \<times> 'a io_scheme" where
  "pci_config_read hw bus dev func offset s =
     (let s = outl 0xCF8 (pci_address bus dev func offset) s in inl hw 0xCFC s)"

definition hal_pci_class_code :: "hardware \<Rightarrow> u8 \<Rightarrow> u8 \<Rightarrow> u8 \<Rightarrow> 'a io_scheme \<Rightarrow> u8 \<times> 'a io_scheme" where
  "hal_pci_class_code hw bus dev func s =
     (let (data, s) = pci_config_read hw bus dev func 8 s
      in (ucast (drop_bit 24 data AND 0xFF), s))"

definition hal_pci_subclass_code :: "hardware \<Rightarrow> u8 \<Rightarrow> u8 \<Rightarrow> u8 \<Rightarrow> 'a io_scheme \<Rightarrow> u8 \<times> 'a io_scheme" where
  "hal_pci_subclass_code hw bus dev func s =
     (let (data, s) = pci_config_read hw bus dev func 8 s
      in (ucast (drop_bit 16 data AND 0xFF), s))"

definition hal_pci_vendor_id :: "hardware \<Rightarrow> u8 \<Rightarrow> u8 \<Rightarrow> u8 \<Rightarrow> 'a io_scheme \<Rightarrow> u16 \<times> 'a io_scheme" where
  "hal_pci_vendor_id hw bus dev func s =
     (let (data, s) = pci_config_read hw bus dev func 0 s
      in (ucast (data AND 0xFFFF), s))"

definition hal_pci_device_id :: "hardware \<Rightarrow> u8 \<Rightarrow> u8 \<Rightarrow> u8 \<Rightarrow> 'a io_scheme \<Rightarrow> u16 \<times> 'a io_scheme" where
  "hal_pci_device_id hw bus dev func s =
     (let (data, s) = pci_config_read hw bus dev func 0 s
      in (ucast (drop_bit 16 data AND 0xFFFF), s))"

text \<open>The order of the nested loops of every bus scan.\<close>

definition pci_functions :: "(nat \<times> nat \<times> nat) list" where
  "pci_functions = [(bus, dev, func). bus \<leftarrow> [0..<256], dev \<leftarrow> [0..<32], func \<leftarrow> [0..<8]]"

definition count_step :: "hardware \<Rightarrow> nat \<times> nat \<times> nat \<Rightarrow> nat \<times> 'a io_scheme \<Rightarrow> nat \<times> 'a io_scheme" where
  "count_step hw = (\<lambda>(bus, dev, func) (count, s).
     let (data, s) = pci_config_read hw (of_nat bus) (of_nat dev) (of_nat func) 0 s
     in (if data AND 0xFFFF \<noteq> 0xFFFF then to_u32 (count + 1) else count, s))"

definition hal_pci_device_count :: "hardware \<Rightarrow> 'a io_scheme \<Rightarrow> nat \<times> 'a io_scheme" where
  "hal_pci_device_count hw s = fold (count_step hw) pci_functions (0, s)"

section \<open>cpu.h and memory.h\<close>

definition hal_cpu_core_count :: "hardware \<Rightarrow> u32" where
  "hal_cpu_core_count hw =
     (let ebx = cpuid_ebx hw 0x0B
      in if ebx \<noteq> 0 then ebx AND 0xFFFF
         else let ebx = cpuid_ebx hw 1; cores = drop_bit 16 ebx AND 0xFF
              in if cores = 0 then 1 else cores)"

definition hal_memory_size :: u64 where
  "hal_memory_size = 64 * 1024 * 1024"

section \<open>Facts\<close>

lemma trace_outb [simp]: "trace (outb p v s) = OutB p v # trace s"
  by (simp add: outb_def)

lemma trace_outw [simp]: "trace (outw p v s) = OutW p v # trace s"
  by (simp add: outw_def)

lemma trace_outl [simp]: "trace (outl p v s) = OutL p v # trace s"
  by (simp add: outl_def)

text \<open>The fields of a configuration address are where the chipset looks for them.\<close>

lemma bit_above:
  assumes "unat (w :: 'a::len word) < 2 ^ k" and "k \<le> n"
  shows "\<not> bit w n"
proof -
  from assms have "unat w < 2 ^ n"
    by (meson less_le_trans one_le_numeral power_increasing)
  then have "\<not> bit (unat w) n" by (simp add: bit_iff_odd)
  then show ?thesis by (simp add: bit_unsigned_iff)
qed

lemma pci_bits:
  assumes "unat (dev :: u8) < 32" and "unat (func :: u8) < 8"
  shows "5 \<le> n \<Longrightarrow> \<not> bit dev n" and "3 \<le> m \<Longrightarrow> \<not> bit func m"
  using assms bit_above [of dev 5 n] bit_above [of func 3 m] by auto

lemma bit_enable:
  "bit (2147483648 :: 'a::semiring_bits) n \<longleftrightarrow> possible_bit TYPE('a) n \<and> n = 31"
  "bit (32768 :: 'a) n \<longleftrightarrow> possible_bit TYPE('a) n \<and> n = 15"
  "bit (128 :: 'a) n \<longleftrightarrow> possible_bit TYPE('a) n \<and> n = 7"
  using bit_exp_iff [where 'a = 'a, of 31 n] bit_exp_iff [where 'a = 'a, of 15 n]
    bit_exp_iff [where 'a = 'a, of 7 n] by auto

lemma pci_address_bus:
  assumes "unat dev < 32" and "unat func < 8"
  shows "ucast (drop_bit 16 (pci_address bus dev func off)) = bus"
  by (rule bit_word_eqI) (auto simp: pci_address_def bit_simps bit_enable pci_bits [OF assms])

lemma pci_address_dev:
  assumes "unat dev < 32" and "unat func < 8"
  shows "ucast (take_bit 5 (drop_bit 11 (pci_address bus dev func off))) = dev"
  by (rule bit_word_eqI) (auto simp: pci_address_def bit_simps bit_enable pci_bits [OF assms]) 

lemma pci_address_func:
  assumes "unat dev < 32" and "unat func < 8"
  shows "ucast (take_bit 3 (drop_bit 8 (pci_address bus dev func off))) = func"
  by (rule bit_word_eqI) (auto simp: pci_address_def bit_simps bit_enable pci_bits [OF assms])

lemma pci_address_offset: "ucast (pci_address bus dev func off) = off AND 0xFC"
  by (rule bit_word_eqI) (auto simp: pci_address_def bit_simps bit_enable)

section \<open>Properties\<close>

text \<open>The configuration address of \<open>pci_config_read\<close> is exact: for a device number below 32
  and a function number below 8 the chipset finds the enable bit and the bus, device, function
  and aligned register offset, each in its own field, so different functions have different
  addresses.\<close>

theorem pci_address_fields:
  assumes "unat dev < 32" and "unat func < 8"
  shows "bit (pci_address bus dev func off) 31 \<and>
    ucast (drop_bit 16 (pci_address bus dev func off)) = bus \<and>
    ucast (take_bit 5 (drop_bit 11 (pci_address bus dev func off))) = dev \<and>
    ucast (take_bit 3 (drop_bit 8 (pci_address bus dev func off))) = func \<and>
    ucast (pci_address bus dev func off) = off AND 0xFC"
  using pci_address_bus [OF assms] pci_address_dev [OF assms] pci_address_func [OF assms]
    pci_address_offset [of bus dev func off]
  by (simp_all add: pci_address_def bit_simps bit_enable)

theorem pci_address_fields_witness:
  "bit (pci_address 3 31 7 9) 31 \<and> ucast (drop_bit 16 (pci_address 3 31 7 9)) = (3 :: u8) \<and>
   ucast (take_bit 5 (drop_bit 11 (pci_address 3 31 7 9))) = (31 :: u8) \<and>
   ucast (take_bit 3 (drop_bit 8 (pci_address 3 31 7 9))) = (7 :: u8) \<and>
   ucast (pci_address 3 31 7 9) = (8 :: u8)"
  using pci_address_fields [of 31 7 3 9] by simp

end
