(* ===== verification/Keyboard.thy ===== *)
theory Keyboard
  imports Port_IO
begin

text \<open>
  \<open>src/drivers/keyboard/keyboard.c\<close>: the PS/2 keyboard driver. \<open>keyboard_read_char\<close> polls
  the controller and decodes at most one scancode; its only state is \<open>have_e0\<close>, the memory
  of an extended-code prefix. The lemmas describe it as a decoder of scancode streams, given by the
  places of the keys on the keyboard.
\<close>

record keyboard = io +
  have_e0 :: bool

abbreviation KEY_UP :: char where "KEY_UP \<equiv> CHR 0x80"
abbreviation KEY_DOWN :: char where "KEY_DOWN \<equiv> CHR 0x81"
abbreviation KEY_LEFT :: char where "KEY_LEFT \<equiv> CHR 0x82"
abbreviation KEY_RIGHT :: char where "KEY_RIGHT \<equiv> CHR 0x83"
abbreviation KEY_F1 :: char where "KEY_F1 \<equiv> CHR 0x84"
abbreviation KEY_F2 :: char where "KEY_F2 \<equiv> CHR 0x85"
abbreviation KEY_F3 :: char where "KEY_F3 \<equiv> CHR 0x86"
abbreviation KEY_F4 :: char where "KEY_F4 \<equiv> CHR 0x87"
abbreviation KEY_CTRL :: char where "KEY_CTRL \<equiv> CHR 0x88"
abbreviation KEY_ALT_R :: char where "KEY_ALT_R \<equiv> CHR 0x89"
abbreviation KEY_FN :: char where "KEY_FN \<equiv> CHR 0x8A"

definition scancode_ascii :: "char list" where
  "scancode_ascii = fold (\<lambda>(i, c) t. t[i := c])
    [(0x1e, CHR ''a''), (0x30, CHR ''b''), (0x2e, CHR ''c''), (0x20, CHR ''d''),
     (0x12, CHR ''e''), (0x21, CHR ''f''), (0x22, CHR ''g''), (0x23, CHR ''h''),
     (0x17, CHR ''i''), (0x24, CHR ''j''), (0x25, CHR ''k''), (0x26, CHR ''l''),
     (0x32, CHR ''m''), (0x31, CHR ''n''), (0x18, CHR ''o''), (0x19, CHR ''p''),
     (0x10, CHR ''q''), (0x13, CHR ''r''), (0x1f, CHR ''s''), (0x14, CHR ''t''),
     (0x16, CHR ''u''), (0x2f, CHR ''v''), (0x11, CHR ''w''), (0x2d, CHR ''x''),
     (0x15, CHR ''y''), (0x2c, CHR ''z''),
     (0x02, CHR ''1''), (0x03, CHR ''2''), (0x04, CHR ''3''), (0x05, CHR ''4''),
     (0x06, CHR ''5''), (0x07, CHR ''6''), (0x08, CHR ''7''), (0x09, CHR ''8''),
     (0x0a, CHR ''9''), (0x0b, CHR ''0''),
     (0x39, CHR '' ''), (0x1c, CHR 0x0A), (0x0f, CHR 0x09), (0x0e, CHR 0x08)]
    (replicate 128 NUL)"

definition handle_extended :: "u8 \<Rightarrow> char" where
  "handle_extended sc =
     (if sc = 0x48 then KEY_UP else if sc = 0x50 then KEY_DOWN
      else if sc = 0x4B then KEY_LEFT else if sc = 0x4D then KEY_RIGHT
      else if sc = 0x38 then KEY_ALT_R else if sc = 0x5D then KEY_FN
      else NUL)"

text \<open>The part of \<open>keyboard_read_char\<close> after the scancode has been read.\<close>

definition decode_plain :: "u8 \<Rightarrow> char option" where
  "decode_plain sc =
     (if sc AND 0x80 \<noteq> 0 then Some NUL
      else if sc = 0x3B then Some KEY_F1 else if sc = 0x3C then Some KEY_F2
      else if sc = 0x3D then Some KEY_F3 else if sc = 0x3E then Some KEY_F4
      else if sc = 0x1D then Some KEY_CTRL else if sc = 0x38 then Some KEY_ALT_R
      else if unat sc \<ge> 128 then Some NUL
      else rd scancode_ascii (unat sc))"

definition keyboard_read_char :: "hardware \<Rightarrow> 'a keyboard_scheme \<Rightarrow> (char \<times> 'a keyboard_scheme) option" where
  "keyboard_read_char hw s =
     (let (status, s) = inb hw 0x64 s in
      if status AND 1 = 0 then Some (NUL, s)
      else let (sc, s) = inb hw 0x60 s in
        if sc = 0xE0 then Some (NUL, s\<lparr>have_e0 := True\<rparr>)
        else if have_e0 s then Some (handle_extended sc, s\<lparr>have_e0 := False\<rparr>)
        else do { c \<leftarrow> decode_plain sc; Some (c, s) })"

section \<open>Facts\<close>

lemma scancode_ascii_length: "length scancode_ascii = 128"
  by (simp add: scancode_ascii_def)

text \<open>Every scancode decodes: the table is never read outside its bounds.\<close>

lemma decode_plain_Some: "\<exists>c. decode_plain sc = Some c"
  by (auto simp: decode_plain_def scancode_ascii_length)

lemma keyboard_read_char_wp:
  "wp (keyboard_read_char hw s)
    (\<lambda>(c, s'). s' = s\<lparr>trace := trace s', have_e0 := have_e0 s'\<rparr>)"
proof -
  obtain c where "decode_plain (fst (inb hw 0x60 (snd (inb hw 0x64 s)))) = Some c"
    using decode_plain_Some by blast
  then show ?thesis
    by (auto simp: keyboard_read_char_def inb_def Let_def)
qed

text \<open>The decoder as a function of one scancode and the prefix flag.\<close>

definition decode_step :: "u8 \<Rightarrow> bool \<Rightarrow> char \<times> bool" where
  "decode_step sc e0 =
     (if sc = 0xE0 then (NUL, True) else if e0 then (handle_extended sc, False)
      else (the (decode_plain sc), False))"

lemma keyboard_read_char_eq:
  "keyboard_read_char hw s =
     (let (status, s1) = inb hw 0x64 s; (sc, s2) = inb hw 0x60 s1; (c, e0) = decode_step sc (have_e0 s) in
      Some (if status AND 1 = 0 then (NUL, s1) else (c, s2\<lparr>have_e0 := e0\<rparr>)))"
proof -
  obtain c where "decode_plain (fst (inb hw 0x60 (snd (inb hw 0x64 s)))) = Some c"
    using decode_plain_Some by blast
  moreover have "have_e0 s = False \<Longrightarrow> s\<lparr>trace := t, have_e0 := False\<rparr> = s\<lparr>trace := t\<rparr>" for t
    by simp
  ultimately show ?thesis
    by (auto simp: keyboard_read_char_def inb_def Let_def decode_step_def)
qed

section \<open>Streams\<close>

text \<open>The scancodes the driver has received, oldest first, read off the trace of port accesses, and the
  characters that a stream of scancodes spells.\<close>

fun scancode_of :: "io_event \<Rightarrow> u8 list" where
  "scancode_of (InB p v) = (if p = 0x60 then [v] else [])"
| "scancode_of _ = []"

definition scancodes :: "io_event list \<Rightarrow> u8 list" where
  "scancodes tr = concat (map scancode_of (rev tr))"

fun spell :: "bool \<Rightarrow> u8 list \<Rightarrow> string \<times> bool" where
  "spell e [] = ([], e)"
| "spell e (sc # scs) =
     (let (c, e) = decode_step sc e; (cs, e) = spell e scs in (if c = NUL then cs else c # cs, e))"

lemma scancodes_append: "scancodes (new @ old) = scancodes old @ scancodes new"
  by (simp add: scancodes_def)

lemma spell_append:
  "spell e (xs @ ys) = (let (cs, e) = spell e xs; (ds, e) = spell e ys in (cs @ ds, e))"
  by (induction xs arbitrary: e) (auto simp: Let_def split: prod.splits)

text \<open>Whether the controller has a scancode. One call of the driver receives it, when there is one, and
  returns what it spells.\<close>

definition pending :: "hardware \<Rightarrow> 'a io_scheme \<Rightarrow> bool" where
  "pending hw s \<longleftrightarrow> fst (inb hw 0x64 s) AND 1 \<noteq> 0"

definition received :: "'a io_scheme \<Rightarrow> nat" where
  "received s = length (scancodes (trace s))"

lemma keyboard_read_char_spells:
  "wp (keyboard_read_char hw s) (\<lambda>(c, t). t = s\<lparr>trace := trace t, have_e0 := have_e0 t\<rparr> \<and>
    received t = received s + of_bool (pending hw s) \<and>
    (\<exists>new. trace t = new @ trace s \<and>
      spell (have_e0 s) (scancodes new) = (if c = NUL then [] else [c], have_e0 t)))"
    (is "wp _ ?Q")
proof -
  let ?st = "fst (inb hw 0x64 s)" and ?s1 = "snd (inb hw 0x64 s)"
  let ?sc = "fst (inb hw 0x60 ?s1)" and ?s2 = "snd (inb hw 0x60 ?s1)"
  define ev where "ev = (if pending hw s then [InB 0x60 ?sc] else []) @ [InB 0x64 ?st]"
  obtain c e where d: "decode_step ?sc (have_e0 s) = (c, e)" by force
  have s1: "?s1 = s\<lparr>trace := InB 0x64 ?st # trace s\<rparr>" by (simp add: inb_def Let_def)
  have s2: "?s2 = s\<lparr>trace := InB 0x60 ?sc # InB 0x64 ?st # trace s\<rparr>" by (simp add: inb_def Let_def)
  have n: "scancodes ev = (if pending hw s then [?sc] else [])"
    by (simp add: ev_def scancodes_def)
  have run: "keyboard_read_char hw s = Some (if pending hw s then (c, s\<lparr>trace := ev @ trace s, have_e0 := e\<rparr>)
      else (NUL, s\<lparr>trace := ev @ trace s\<rparr>))"
    unfolding keyboard_read_char_eq split_beta Let_def s2 d ev_def pending_def
    by (simp add: s1)
  have len: "length (scancodes (ev @ trace s)) = length (scancodes (trace s)) + of_bool (pending hw s)"
    by (simp add: scancodes_append n)
  show ?thesis
    unfolding run using len d n by (auto simp: received_def intro!: exI [of _ ev])
qed

section \<open>The keyboard\<close>

text \<open>The keys by their place: runs of neighbouring scan codes of set 1 and what the keys there give, for a
  plain code and for one after the prefix \<open>0xE0\<close>.\<close>

definition plain_rows :: "(nat \<times> string) list" where
  "plain_rows = [(0x02, ''1234567890''), (0x0E, [CHR 0x08, CHR 0x09]), (0x10, ''qwertyuiop''),
     (0x1C, [CHR 0x0A, KEY_CTRL]), (0x1E, ''asdfghjkl''), (0x2C, ''zxcvbnm''), (0x38, [KEY_ALT_R, CHR '' '']),
     (0x3B, [KEY_F1, KEY_F2, KEY_F3, KEY_F4])]"

definition extended_rows :: "(nat \<times> string) list" where
  "extended_rows = [(0x38, [KEY_ALT_R]), (0x48, [KEY_UP]), (0x4B, [KEY_LEFT]), (0x4D, [KEY_RIGHT]),
     (0x50, [KEY_DOWN]), (0x5D, [KEY_FN])]"

definition key_at :: "(nat \<times> string) list \<Rightarrow> nat \<Rightarrow> char" where
  "key_at rows k = (case find (\<lambda>(i, ks). i \<le> k \<and> k < i + length ks) rows of
     None \<Rightarrow> NUL | Some (i, ks) \<Rightarrow> ks ! (k - i))"

text \<open>What a stream of scan codes types, when \<open>e\<close> says whether it starts after a prefix.\<close>

primrec typed_keys :: "bool \<Rightarrow> u8 list \<Rightarrow> string" where
  "typed_keys e [] = []"
| "typed_keys e (sc # scs) =
     (if sc = 0xE0 then typed_keys True scs
      else filter (\<lambda>c. c \<noteq> NUL) [key_at (if e then extended_rows else plain_rows) (unat sc)] @ typed_keys False scs)"

lemma handle_extended_key: "handle_extended sc = key_at extended_rows (unat sc)"
  by (simp add: handle_extended_def key_at_def extended_rows_def word_unat_eq_iff)

lemma decode_plain_key: "decode_plain sc = Some (key_at plain_rows (unat sc))"
proof (cases "unat sc < 128")
  case True
  let ?f = "\<lambda>k. if k \<in> {0x1D, 0x38, 0x3B, 0x3C, 0x3D, 0x3E} then NUL else key_at plain_rows k"
  have "scancode_ascii = map ?f [0..<128]" by code_simp
  moreover have "map ?f [0..<128] ! unat sc = ?f (unat sc)" using True by (subst nth_map) simp_all
  ultimately have "scancode_ascii ! unat sc = ?f (unat sc)" by (simp only:)
  moreover have "key_at plain_rows 0x1D = KEY_CTRL" "key_at plain_rows 0x38 = KEY_ALT_R" "key_at plain_rows 0x3B = KEY_F1"
    "key_at plain_rows 0x3C = KEY_F2" "key_at plain_rows 0x3D = KEY_F3" "key_at plain_rows 0x3E = KEY_F4"
    by (simp_all add: key_at_def plain_rows_def)
  moreover have "\<not> bit sc 7" using bit_above [of sc 7 7] True by simp
  then have "sc AND 0x80 = 0" by (intro bit_word_eqI) (auto simp: bit_simps bit_enable)
  ultimately show ?thesis
    using True by (auto simp: decode_plain_def scancode_ascii_length word_unat_eq_iff)
next
  case False
  then have "key_at plain_rows (unat sc) = NUL" by (simp add: key_at_def plain_rows_def)
  then show ?thesis using False by (simp add: decode_plain_def word_unat_eq_iff)
qed

lemma spell_typed: "spell e scs = (typed_keys e scs, if scs = [] then e else last scs = 0xE0)"
proof (induction scs arbitrary: e)
  case (Cons sc scs)
  have "key_at plain_rows 0xE0 = NUL" by (simp add: key_at_def plain_rows_def)
  with Cons show ?case by (auto simp: decode_step_def decode_plain_key handle_extended_key Let_def)
qed simp

section \<open>Properties\<close>

text \<open>A number of calls of the driver.\<close>

primrec keyboard_reads :: "hardware \<Rightarrow> nat \<Rightarrow> 'a keyboard_scheme \<Rightarrow> (string \<times> 'a keyboard_scheme) option" where
  "keyboard_reads hw 0 s = Some ([], s)"
| "keyboard_reads hw (Suc n) s = do {
     (c, s) \<leftarrow> keyboard_read_char hw s;
     (cs, s) \<leftarrow> keyboard_reads hw n s;
     Some (c # cs, s) }"

text \<open>A keyboard on which the keys with the scan codes \<open>scs\<close> have been struck.\<close>

definition stroke_machine :: "u8 list \<Rightarrow> hardware" where
  "stroke_machine scs = \<lparr>port_in = \<lambda>t p. if p = 0x64 then 1
       else if length (scancodes t) < length scs then ucast (scs ! length (scancodes t)) else 0,
     cpuid_ebx = \<lambda>leaf. 0, mem8 = \<lambda>a. None, image_end = 0x200000, nmi_wakes = 0, stack_word = \<lambda>i. 0\<rparr>"

text \<open>C25. Decoding a stream: however often the driver is called and whatever the controller delivers,
  the characters it returns are, in order, those of the keys whose scan codes it received, by
  their places on the keyboard: the four rows of plain keys, the function, control and alt keys,
  and the six keys behind the prefix \<open>0xE0\<close>; key releases and all other codes give nothing. The
  prefix is remembered from call to call, exactly when it came last, a controller that always
  has a code is read once per call, and nothing else changes.\<close>

theorem keyboard_decodes:
  fixes s :: "'a keyboard_scheme"
  shows "wp (keyboard_reads hw n s) (\<lambda>(cs, t). \<exists>new. trace t = new @ trace s \<and> length cs = n \<and>
    filter (\<lambda>c. c \<noteq> NUL) cs = typed_keys (have_e0 s) (scancodes new) \<and>
    (have_e0 t \<longleftrightarrow> (if scancodes new = [] then have_e0 s else last (scancodes new) = 0xE0)) \<and>
    ((\<forall>u :: 'a keyboard_scheme. pending hw u) \<longrightarrow> length (scancodes new) = n) \<and>
    t = s\<lparr>trace := trace t, have_e0 := have_e0 t\<rparr>)"
proof (induction n arbitrary: s)
  case 0
  show ?case by (simp add: scancodes_def)
next
  case (Suc n)
  show ?case
    unfolding keyboard_reads.simps
  proof (rule wp_seq [OF keyboard_read_char_spells], clarify)
    fix c and u :: "'a keyboard_scheme" and a
    assume u: "u = s\<lparr>trace := trace u, have_e0 := have_e0 u\<rparr>" "received u = received s + of_bool (pending hw s)"
      and a: "trace u = a @ trace s" "spell (have_e0 s) (scancodes a) = (if c = NUL then [] else [c], have_e0 u)"
    have step: "\<exists>new. trace t = new @ trace s \<and> length (c # cs) = Suc n \<and>
        filter (\<lambda>c. c \<noteq> NUL) (c # cs) = typed_keys (have_e0 s) (scancodes new) \<and>
        (have_e0 t \<longleftrightarrow> (if scancodes new = [] then have_e0 s else last (scancodes new) = 0xE0)) \<and>
        ((\<forall>u :: 'a keyboard_scheme. pending hw u) \<longrightarrow> length (scancodes new) = Suc n) \<and>
        t = s\<lparr>trace := trace t, have_e0 := have_e0 t\<rparr>"
      if b: "trace t = b @ trace u" "length cs = n" "filter (\<lambda>c. c \<noteq> NUL) cs = typed_keys (have_e0 u) (scancodes b)"
        "have_e0 t \<longleftrightarrow> (if scancodes b = [] then have_e0 u else last (scancodes b) = 0xE0)"
        "(\<forall>u :: 'a keyboard_scheme. pending hw u) \<longrightarrow> length (scancodes b) = n"
        and t: "t = u\<lparr>trace := trace t, have_e0 := have_e0 t\<rparr>" for cs b and t :: "'a keyboard_scheme"
    proof -
      have "spell (have_e0 s) (scancodes (b @ a)) = (filter (\<lambda>c. c \<noteq> NUL) (c # cs), have_e0 t)"
        unfolding scancodes_append spell_append a(2) using b(3,4) by (simp add: spell_typed)
      moreover have "t = s\<lparr>trace := trace t, have_e0 := have_e0 t\<rparr>" by (subst t, subst u(1)) simp
      moreover have "length (scancodes (b @ a)) = length (scancodes b) + of_bool (pending hw s)"
        using u(2) a(1) by (simp add: received_def scancodes_append)
      ultimately show ?thesis using a(1) b(1,2,5) by (intro exI [of _ "b @ a"]) (simp add: spell_typed)
    qed
    show "wp (do { (cs, t) \<leftarrow> keyboard_reads hw n u; Some (c # cs, t) }) (\<lambda>(cs, t). \<exists>new. trace t = new @ trace s \<and>
      length cs = Suc n \<and> filter (\<lambda>c. c \<noteq> NUL) cs = typed_keys (have_e0 s) (scancodes new) \<and>
      (have_e0 t \<longleftrightarrow> (if scancodes new = [] then have_e0 s else last (scancodes new) = 0xE0)) \<and>
      ((\<forall>u :: 'a keyboard_scheme. pending hw u) \<longrightarrow> length (scancodes new) = Suc n) \<and>
      t = s\<lparr>trace := trace t, have_e0 := have_e0 t\<rparr>)"
      by (rule wp_seq [OF Suc.IH]) (unfold split_beta wp_Some fst_conv snd_conv, elim exE conjE, rule step)
  qed
qed

theorem keyboard_decodes_witness:
  "wp (keyboard_reads (stroke_machine [0xE0, 0x48, 0x3B]) 3 \<lparr>trace = [], have_e0 = False\<rparr>) (\<lambda>(cs, t).
    filter (\<lambda>c. c \<noteq> NUL) cs = [KEY_UP, KEY_F1] \<and> \<not> have_e0 t)"
proof -
  let ?hw = "stroke_machine [0xE0, 0x48, 0x3B]"
  have "\<exists>cs t. keyboard_reads ?hw 3 \<lparr>trace = [], have_e0 = False\<rparr> = Some (cs, t) \<and> scancodes (trace t) = [0xE0, 0x48, 0x3B]"
    by (simp add: numeral_3_eq_3 keyboard_read_char_eq decode_step_def inb_def Let_def stroke_machine_def scancodes_def
        split: prod.split)
  then show ?thesis
    using keyboard_decodes [where hw = ?hw and n = 3 and s = "\<lparr>trace = [], have_e0 = False\<rparr>"]
    by (auto simp: key_at_def plain_rows_def extended_rows_def simp del: keyboard_reads.simps)
qed


end
