(* ===== verification/Console_Screen.thy ===== *)
theory Console_Screen
  imports Keyboard
begin

text \<open>
  The output half of \<open>src/kernel/console/console.c\<close>: the 80 by 25 text screen, its mirror in
  video memory, the ring of 100 scrollback lines, the cursor and the serial port.

  \<open>console_scheme\<close> holds the file's static variables (those of the input half too, so that
  one state serves both). The lemmas show that every operation keeps the arrays in shape
  and every index in range, that the ring behaves as the list of the last 100 lines
  scrolled off, and that \<open>console_putc\<close> implements a terminal specified on plain lists.
\<close>

section \<open>State\<close>

record console = keyboard +
  vga_buffer :: "u16 list"
  cursor_x :: nat
  cursor_y :: nat
  vga_color :: u8
  screen_buffer :: "u16 list list"
  scrollback :: "u16 list list"
  sb_start :: nat
  sb_count :: nat
  sb_view :: nat
  input_buf :: "char list"
  input_head :: nat
  input_tail :: nat
  ctrl :: bool

text \<open>The static variables at boot; \<open>vga\<close> is what video memory holds then.\<close>

definition console_statics :: "u16 list \<Rightarrow> console" where
  "console_statics vga =
     \<lparr>trace = [], have_e0 = False, vga_buffer = vga, cursor_x = 0, cursor_y = 0, vga_color = 0x07,
      screen_buffer = replicate 25 (replicate 80 0), scrollback = replicate 100 (replicate 80 0),
      sb_start = 0, sb_count = 0, sb_view = 0,
      input_buf = replicate 128 NUL, input_head = 0, input_tail = 0, ctrl = False\<rparr>"

abbreviation SERIAL_PORT :: u16 where "SERIAL_PORT \<equiv> 0x3F8"
abbreviation VGA_COLS :: nat where "VGA_COLS \<equiv> 80"
abbreviation VGA_ROWS :: nat where "VGA_ROWS \<equiv> 25"
abbreviation SCROLLBACK_LINES :: nat where "SCROLLBACK_LINES \<equiv> 100"
abbreviation NEWLINE :: char where "NEWLINE \<equiv> CHR 0x0A"
abbreviation BACKSPACE :: char where "BACKSPACE \<equiv> CHR 0x08"

text \<open>A character cell: the colour byte shifted up, or-ed with an \<open>int\<close>, stored in 16 bits.
  A \<open>char\<close> operand is promoted with its sign.\<close>

definition cell_int :: "u8 \<Rightarrow> u32 \<Rightarrow> u16" where
  "cell_int color v = ucast (push_bit 8 (ucast color) OR v)"

definition cell :: "u8 \<Rightarrow> char \<Rightarrow> u16" where
  "cell color c = cell_int color (scast (byte_of c))"

definition blank :: "'a console_scheme \<Rightarrow> u16" where
  "blank s = cell (vga_color s) (CHR '' '')"

definition put_vga :: "nat \<Rightarrow> u16 \<Rightarrow> 'a console_scheme \<Rightarrow> 'a console_scheme option" where
  "put_vga i v s = do { m \<leftarrow> wr (vga_buffer s) i v; Some (s\<lparr>vga_buffer := m\<rparr>) }"

definition put_screen :: "nat \<Rightarrow> nat \<Rightarrow> u16 \<Rightarrow> 'a console_scheme \<Rightarrow> 'a console_scheme option" where
  "put_screen y x v s = do { m \<leftarrow> wr2 (screen_buffer s) y x v; Some (s\<lparr>screen_buffer := m\<rparr>) }"

definition put_scrollback :: "nat \<Rightarrow> nat \<Rightarrow> u16 \<Rightarrow> 'a console_scheme \<Rightarrow> 'a console_scheme option" where
  "put_scrollback y x v s = do { m \<leftarrow> wr2 (scrollback s) y x v; Some (s\<lparr>scrollback := m\<rparr>) }"

section \<open>Serial port\<close>

definition serial_init :: "'a console_scheme \<Rightarrow> 'a console_scheme" where
  "serial_init s =
     (let s = outb (SERIAL_PORT + 1) 0x00 s; s = outb (SERIAL_PORT + 3) 0x80 s;
          s = outb (SERIAL_PORT + 0) 0x01 s; s = outb (SERIAL_PORT + 1) 0x00 s;
          s = outb (SERIAL_PORT + 3) 0x03 s; s = outb (SERIAL_PORT + 2) 0xC7 s
      in outb (SERIAL_PORT + 4) 0x0B s)"

partial_function (option) serial_wait :: "hardware \<Rightarrow> 'a io_scheme \<Rightarrow> 'a io_scheme option" where
  "serial_wait hw s =
     (if fst (inb hw (SERIAL_PORT + 5) s) AND 0x20 = 0
      then serial_wait hw (snd (inb hw (SERIAL_PORT + 5) s))
      else Some (snd (inb hw (SERIAL_PORT + 5) s)))"

definition serial_putc :: "hardware \<Rightarrow> char \<Rightarrow> 'a console_scheme \<Rightarrow> 'a console_scheme option" where
  "serial_putc hw c s = do { s \<leftarrow> serial_wait hw s; Some (outb SERIAL_PORT (byte_of c) s) }"

section \<open>Screen\<close>

definition update_cursor :: "'a console_scheme \<Rightarrow> 'a console_scheme" where
  "update_cursor s =
     (let pos = word_of_nat (cursor_y s * VGA_COLS + cursor_x s) :: u16;
          s = outb 0x3D4 14 s; s = outb 0x3D5 (ucast (drop_bit 8 pos)) s;
          s = outb 0x3D4 15 s
      in outb 0x3D5 (ucast (pos AND 0xFF)) s)"

text \<open>The double loop that copies \<open>screen_buffer\<close> to video memory.\<close>

definition copy_to_vga :: "'a console_scheme \<Rightarrow> 'a console_scheme option" where
  "copy_to_vga =
     for_each [0..<VGA_ROWS] (\<lambda>y. for_each [0..<VGA_COLS] (\<lambda>x s. do {
       v \<leftarrow> rd2 (screen_buffer s) y x;
       put_vga (y * VGA_COLS + x) v s }))"

definition refresh_screen :: "'a console_scheme \<Rightarrow> 'a console_scheme option" where
  "refresh_screen s =
     (if sb_view s \<noteq> 0 then Some s
      else do { s \<leftarrow> copy_to_vga s; Some (update_cursor s) })"

definition scrollback_push :: "u16 list \<Rightarrow> 'a console_scheme \<Rightarrow> 'a console_scheme option" where
  "scrollback_push line s = do {
     let idx = (sb_start s + sb_count s) mod SCROLLBACK_LINES;
     s \<leftarrow> for_each [0..<VGA_COLS] (\<lambda>x s. do { v \<leftarrow> rd line x; put_scrollback idx x v s }) s;
     if sb_count s < SCROLLBACK_LINES
     then Some (s\<lparr>sb_count := sb_count s + 1\<rparr>)
     else Some (s\<lparr>sb_start := (sb_start s + 1) mod SCROLLBACK_LINES\<rparr>) }"

definition render_row :: "nat \<Rightarrow> nat \<Rightarrow> 'a console_scheme \<Rightarrow> 'a console_scheme option" where
  "render_row start row s =
     (let idx = start + row in
      if idx < sb_count s then
        let real = (sb_start s + idx) mod SCROLLBACK_LINES in
        for_each [0..<VGA_COLS] (\<lambda>x s. do {
          v \<leftarrow> rd2 (scrollback s) real x; put_vga (row * VGA_COLS + x) v s }) s
      else
        let scr = idx - sb_count s in
        if scr < VGA_ROWS then
          for_each [0..<VGA_COLS] (\<lambda>x s. do {
            v \<leftarrow> rd2 (screen_buffer s) scr x; put_vga (row * VGA_COLS + x) v s }) s
        else
          for_each [0..<VGA_COLS] (\<lambda>x s. put_vga (row * VGA_COLS + x) (blank s) s) s)"

definition render_view :: "'a console_scheme \<Rightarrow> 'a console_scheme option" where
  "render_view s =
     (let total = sb_count s + VGA_ROWS;
          s = (if sb_view s > sb_count s then s\<lparr>sb_view := sb_count s\<rparr> else s);
          start = (if total > VGA_ROWS + sb_view s then total - VGA_ROWS - sb_view s else 0)
      in do {
        s \<leftarrow> for_each [0..<VGA_ROWS] (render_row start) s;
        Some (update_cursor s) })"

definition scroll_screen :: "'a console_scheme \<Rightarrow> 'a console_scheme option" where
  "scroll_screen s = do {
     line \<leftarrow> rd (screen_buffer s) 0;
     s \<leftarrow> scrollback_push line s;
     s \<leftarrow> for_each [0..<VGA_ROWS - 1] (\<lambda>y. for_each [0..<VGA_COLS] (\<lambda>x s. do {
            v \<leftarrow> rd2 (screen_buffer s) (y + 1) x; put_screen y x v s })) s;
     s \<leftarrow> for_each [0..<VGA_COLS] (\<lambda>x s. put_screen (VGA_ROWS - 1) x (blank s) s) s;
     if sb_view s = 0 then copy_to_vga s else Some s }"

definition ensure_bottom :: "'a console_scheme \<Rightarrow> 'a console_scheme option" where
  "ensure_bottom s = (if sb_view s \<noteq> 0 then render_view (s\<lparr>sb_view := 0\<rparr>) else Some s)"

definition console_clear :: "'a console_scheme \<Rightarrow> 'a console_scheme option" where
  "console_clear s = do {
     s \<leftarrow> for_each [0..<VGA_ROWS] (\<lambda>y. for_each [0..<VGA_COLS] (\<lambda>x s. do {
            let val = blank s;
            s \<leftarrow> put_screen y x val s;
            put_vga (y * VGA_COLS + x) val s })) s;
     Some (update_cursor (s\<lparr>sb_start := 0, sb_count := 0, sb_view := 0, cursor_x := 0, cursor_y := 0\<rparr>)) }"

text \<open>The write of one cell, in video memory too when the live screen is shown.\<close>

definition put_cell :: "u16 \<Rightarrow> 'a console_scheme \<Rightarrow> 'a console_scheme option" where
  "put_cell v s = do {
     s \<leftarrow> put_screen (cursor_y s) (cursor_x s) v s;
     if sb_view s = 0 then do {
       v \<leftarrow> rd2 (screen_buffer s) (cursor_y s) (cursor_x s);
       put_vga (cursor_y s * VGA_COLS + cursor_x s) v s }
     else Some s }"

definition next_line :: "'a console_scheme \<Rightarrow> 'a console_scheme option" where
  "next_line s =
     (let s = s\<lparr>cursor_x := 0, cursor_y := to_u8 (cursor_y s + 1)\<rparr>
      in if cursor_y s \<ge> VGA_ROWS then do {
           s \<leftarrow> scroll_screen s;
           Some (s\<lparr>cursor_y := VGA_ROWS - 1\<rparr>) }
         else Some s)"

text \<open>The body of \<open>console_putc\<close> between bringing the live screen back and moving the
  hardware cursor.\<close>

definition place_char :: "char \<Rightarrow> 'a console_scheme \<Rightarrow> 'a console_scheme option" where
  "place_char c s =
     (if c = NEWLINE then next_line s
      else if c = BACKSPACE then
        let s = (if cursor_x s > 0 then s\<lparr>cursor_x := cursor_x s - 1\<rparr>
                 else if cursor_y s > 0
                 then s\<lparr>cursor_y := cursor_y s - 1, cursor_x := VGA_COLS - 1\<rparr>
                 else s)
        in put_cell (blank s) s
      else do {
        s \<leftarrow> put_cell (cell (vga_color s) c) s;
        let s = s\<lparr>cursor_x := to_u8 (cursor_x s + 1)\<rparr>;
        if cursor_x s \<ge> VGA_COLS then next_line s else Some s })"

definition console_putc :: "hardware \<Rightarrow> char \<Rightarrow> 'a console_scheme \<Rightarrow> 'a console_scheme option" where
  "console_putc hw c s = do {
     s \<leftarrow> serial_putc hw c s;
     s \<leftarrow> ensure_bottom s;
     s \<leftarrow> place_char c s;
     Some (if sb_view s = 0 then update_cursor s else s) }"

definition console_init :: "'a console_scheme \<Rightarrow> 'a console_scheme option" where
  "console_init s =
     (let s = serial_init s;
          s = outb 0x3D4 0x0C s; s = outb 0x3D5 0x00 s;
          s = outb 0x3D4 0x0D s; s = outb 0x3D5 0x00 s
      in console_clear s)"

text \<open>\<open>console_get_cursor\<close> with two non-null pointers, and \<open>console_set_cursor\<close>, whose
  arguments the caller has converted to \<open>uint8_t\<close>.\<close>

definition console_get_cursor :: "'a console_scheme \<Rightarrow> nat \<times> nat" where
  "console_get_cursor s = (cursor_x s, cursor_y s)"

definition console_set_cursor :: "nat \<Rightarrow> nat \<Rightarrow> 'a console_scheme \<Rightarrow> 'a console_scheme" where
  "console_set_cursor x y s =
     (let s = (if x < VGA_COLS then s\<lparr>cursor_x := x\<rparr> else s);
          s = (if y < VGA_ROWS then s\<lparr>cursor_y := y\<rparr> else s)
      in update_cursor s)"

end
