(* ===== verification/Ring.thy ===== *)
theory Ring
  imports LifeOS_Prelude
begin

text \<open>
  Ring buffers. LifeOS has three: the console's scrollback, its keyboard queue, and the
  shell's command history. \<open>ring buf start n\<close> is the list of the \<open>n\<close> entries from index
  \<open>start\<close> on, wrapping around; the lemmas say what a store at either end does to that list.
  Two interfaces build on it: a log that forgets its oldest entry when full
  (\<open>bounded_log\<close>, scrollback and history) and a queue that refuses an entry when full
  (\<open>bounded_queue\<close>, keyboard input).
\<close>

definition ring :: "'a list \<Rightarrow> nat \<Rightarrow> nat \<Rightarrow> 'a list" where
  "ring buf start n = map (\<lambda>i. buf ! ((start + i) mod length buf)) [0..<n]"

lemma length_ring [simp]: "length (ring buf start n) = n"
  by (simp add: ring_def)

lemma ring_0 [simp]: "ring buf start 0 = []"
  by (simp add: ring_def)

lemma ring_nth [simp]: "i < n \<Longrightarrow> ring buf start n ! i = buf ! ((start + i) mod length buf)"
  by (simp add: ring_def)

lemma ring_push:
  assumes "n < length buf"
  shows "ring (buf[(start + n) mod length buf := x]) start (Suc n) = ring buf start n @ [x]"
proof (rule nth_equalityI)
  fix i assume "i < length (ring (buf[(start + n) mod length buf := x]) start (Suc n))"
  then have i: "i \<le> n" by simp
  have len: "0 < length buf" using assms by linarith
  show "ring (buf[(start + n) mod length buf := x]) start (Suc n) ! i = (ring buf start n @ [x]) ! i"
  proof (cases "i = n")
    case True
    with len show ?thesis by (simp add: nth_append)
  next
    case False
    with i have "(start + n) mod length buf \<noteq> (start + i) mod length buf"
      using mod_add_neq [of i n "length buf" start] assms by auto
    with i False show ?thesis by (simp add: nth_append)
  qed
qed simp

lemma ring_pop:
  "0 < n \<Longrightarrow> ring buf start n = buf ! (start mod length buf) # ring buf ((start + 1) mod length buf) (n - 1)"
  by (rule nth_equalityI) (auto simp: nth_Cons mod_simps split: nat.splits)

lemma ring_upd_other:
  "n < length buf \<Longrightarrow> ring (buf[(start + n) mod length buf := x]) start n = ring buf start n"
  using ring_push [of n buf start x] by (auto simp: ring_def)

text \<open>A full ring: the store replaces the oldest entry.\<close>

lemma ring_rotate:
  assumes "length buf = N" and "0 < N" and "start < N"
  shows "ring (buf[(start + N) mod N := x]) ((start + 1) mod N) N = tl (ring buf start N) @ [x]"
proof -
  let ?s = "(start + 1) mod N"
  have pos: "(start + N) mod N = (?s + (N - 1)) mod N"
  proof (cases "start + 1 = N")
    case False
    with assms have "?s + (N - 1) = start + N" by simp
    then show ?thesis by simp
  qed (use assms in auto)
  have "ring (buf[(start + N) mod N := x]) ?s (Suc (N - 1)) = ring buf ?s (N - 1) @ [x]"
    unfolding pos using ring_push [of "N - 1" buf ?s x] assms by simp
  moreover have "tl (ring buf start N) = ring buf ?s (N - 1)"
    using ring_pop [of N buf start] assms by simp
  ultimately show ?thesis using assms by simp
qed

text \<open>Both cases at once: the list after a push is the last \<open>N\<close> entries.\<close>

definition ring_next :: "nat \<Rightarrow> nat \<Rightarrow> nat \<Rightarrow> nat \<times> nat" where
  "ring_next N start n = (if n < N then (start, n + 1) else ((start + 1) mod N, n))"

lemma ring_push_lastn:
  assumes "length buf = N" and "0 < N" and "start < N" and "n \<le> N"
  shows "(case ring_next N start n of (start', n') \<Rightarrow>
      ring (buf[(start + n) mod N := x]) start' n') = lastn N (ring buf start n @ [x])"
proof (cases "n < N")
  case True
  with assms show ?thesis using ring_push [of n buf start x] by (simp add: ring_next_def)
next
  case False
  with assms have "n = N" by simp
  with assms show ?thesis
    using ring_rotate [of buf N start x]
    by (simp add: ring_next_def lastn_snoc_full [of "ring buf start N" N])
qed

section \<open>A log that keeps the most recent entries\<close>

locale bounded_log =
  fixes push :: "'a \<Rightarrow> 's \<Rightarrow> 's option"
    and entries :: "'s \<Rightarrow> 'b list"
    and inv :: "'s \<Rightarrow> bool"
    and valid :: "'a \<Rightarrow> bool"
    and val :: "'a \<Rightarrow> 'b"
    and cap :: nat
  assumes push_wp: "inv s \<Longrightarrow> valid x \<Longrightarrow>
      wp (push x s) (\<lambda>s'. inv s' \<and> entries s' = lastn cap (entries s @ [val x]))"
    and bound: "inv s \<Longrightarrow> length (entries s) \<le> cap"
begin

lemma push_all:
  assumes "inv s" and "list_all valid xs"
  shows "wp (for_each xs push s)
    (\<lambda>s'. inv s' \<and> entries s' = lastn cap (entries s @ map val xs))"
  using assms
proof (induction xs arbitrary: s)
  case Nil
  then show ?case using bound by simp
next
  case (Cons x xs)
  then have "wp (push x s) (\<lambda>t. inv t \<and> entries t = lastn cap (entries s @ [val x]))"
    by (simp add: push_wp)
  then have "wp (push x s) (\<lambda>t. wp (for_each xs push t)
    (\<lambda>s'. inv s' \<and> entries s' = lastn cap (entries s @ val x # map val xs)))"
  proof (rule wp_mono)
    fix t assume t: "inv t \<and> entries t = lastn cap (entries s @ [val x])"
    then have "wp (for_each xs push t)
      (\<lambda>s'. inv s' \<and> entries s' = lastn cap (entries t @ map val xs))"
      using Cons.IH [of t] Cons.prems by (simp del: wp_bind)
    moreover have "lastn cap (entries t @ map val xs) = lastn cap (entries s @ val x # map val xs)"
      using t lastn_lastn_append [of cap "entries s @ [val x]" "map val xs"] by simp
    ultimately show "wp (for_each xs push t)
      (\<lambda>s'. inv s' \<and> entries s' = lastn cap (entries s @ val x # map val xs))" by simp
  qed
  then show ?case by simp
qed

text \<open>The most recent entry is the one just pushed.\<close>

lemma push_last:
  assumes "inv s" and "valid x" and "0 < cap"
  shows "wp (push x s) (\<lambda>s'. entries s' \<noteq> [] \<and> last (entries s') = val x)"
  using push_wp [OF assms(1,2)] by (rule wp_mono) (simp add: last_lastn_snoc assms(3))

end

section \<open>A queue that refuses when full\<close>

locale bounded_queue =
  fixes enq :: "'a \<Rightarrow> 's \<Rightarrow> 's option"
    and deq :: "'s \<Rightarrow> ('a \<times> 's) option"
    and entries :: "'s \<Rightarrow> 'a list"
    and inv :: "'s \<Rightarrow> bool"
    and cap :: nat
    and none :: 'a
  assumes enq_wp: "inv s \<Longrightarrow> wp (enq x s) (\<lambda>s'. inv s' \<and>
      entries s' = (if length (entries s) < cap then entries s @ [x] else entries s))"
    and deq_empty: "inv s \<Longrightarrow> entries s = [] \<Longrightarrow> deq s = Some (none, s)"
    and deq_wp: "inv s \<Longrightarrow> entries s = x # xs \<Longrightarrow>
      wp (deq s) (\<lambda>(y, s'). y = x \<and> inv s' \<and> entries s' = xs)"
    and bound: "inv s \<Longrightarrow> length (entries s) \<le> cap"
begin

lemma enq_all:
  assumes "inv s"
  shows "wp (for_each xs enq s) (\<lambda>s'. inv s' \<and> entries s' = take cap (entries s @ xs))"
  using assms
proof (induction xs arbitrary: s)
  case Nil
  then show ?case using bound by simp
next
  case (Cons x xs)
  let ?e = "if length (entries s) < cap then entries s @ [x] else entries s"
  have e: "take cap (?e @ xs) = take cap (entries s @ x # xs)"
    using bound [OF Cons.prems] by (auto dest!: less_imp_Suc_add)
  from enq_wp [OF Cons.prems, of x]
  have "wp (enq x s) (\<lambda>t. wp (for_each xs enq t)
      (\<lambda>s'. inv s' \<and> entries s' = take cap (entries s @ x # xs)))"
  proof (rule wp_mono)
    fix t assume t: "inv t \<and> entries t = ?e"
    show "wp (for_each xs enq t) (\<lambda>s'. inv s' \<and> entries s' = take cap (entries s @ x # xs))"
      using Cons.IH [of t] t e by (simp only: simp_thms)
  qed
  then show ?case by simp
qed

primrec deq_n :: "nat \<Rightarrow> 's \<Rightarrow> ('a list \<times> 's) option" where
  "deq_n 0 s = Some ([], s)"
| "deq_n (Suc n) s = Option.bind (deq s) (\<lambda>(x, s).
     Option.bind (deq_n n s) (\<lambda>(xs, s). Some (x # xs, s)))"

lemma deq_n_all:
  assumes "inv s" and "entries s = xs @ ys"
  shows "wp (deq_n (length xs) s) (\<lambda>(zs, s'). zs = xs \<and> inv s' \<and> entries s' = ys)"
  using assms
proof (induction xs arbitrary: s)
  case Nil
  then show ?case by simp
next
  case (Cons x xs)
  then have "wp (deq s) (\<lambda>(y, s'). y = x \<and> inv s' \<and> entries s' = xs @ ys)"
    using deq_wp by simp
  then obtain s1 where s1: "deq s = Some (x, s1)" "inv s1" "entries s1 = xs @ ys"
    by (auto simp: wp_iff_Some)
  then have "wp (deq_n (length xs) s1) (\<lambda>(zs, s'). zs = xs \<and> inv s' \<and> entries s' = ys)"
    by (intro Cons.IH)
  then show ?case using s1 by (auto simp: wp_iff_Some)
qed

end

end
