(* ===== verification/Terminal.thy ===== *)
theory Terminal
  imports Console_Screen Ring
begin

text \<open>
  What the console promises: a terminal on plain lists, and the proof that the code of
  \<open>Console_Screen\<close> implements it, with the invariant on the console's arrays and indices.
\<close>

section \<open>Loops over screen rows\<close>

lemma row_to_vga:
  assumes "b + n \<le> length (vga_buffer s)"
    and "\<And>x m. x < n \<Longrightarrow> g x (s\<lparr>vga_buffer := m\<rparr>) = Some (f x)"
  shows "for_each [0..<n] (\<lambda>x s. Option.bind (g x s) (\<lambda>v. put_vga (b + x) v s)) s
    = Some (s\<lparr>vga_buffer := overwrite b (map f [0..<n]) (vga_buffer s)\<rparr>)"
  using for_upt_state [where st = "\<lambda>i. s\<lparr>vga_buffer := overwrite b (map f [0..<i]) (vga_buffer s)\<rparr>"
      and n = n and body = "\<lambda>x s. Option.bind (g x s) (\<lambda>v. put_vga (b + x) v s)"]
    assms by (simp add: put_vga_def overwrite_upt_step del: upt_Suc)

lemma rows_to_vga:
  assumes "h * 80 \<le> length (vga_buffer s)"
    and "\<And>y m. y < h \<Longrightarrow> length m = length (vga_buffer s) \<Longrightarrow>
      body y (s\<lparr>vga_buffer := m\<rparr>) = Some (s\<lparr>vga_buffer := overwrite (y * 80) (row y) m\<rparr>)"
    and "\<And>y. y < h \<Longrightarrow> length (row y) = 80"
  shows "for_each [0..<h] body s
    = Some (s\<lparr>vga_buffer := overwrite 0 (concat (map row [0..<h])) (vga_buffer s)\<rparr>)"
proof -
  have len: "length (concat (map row [0..<i])) = i * 80" if "i \<le> h" for i
    using that assms(3) by (induction i) simp_all
  have "for_each [0..<h] body (s\<lparr>vga_buffer := overwrite 0 (concat (map row [0..<0])) (vga_buffer s)\<rparr>)
    = Some (s\<lparr>vga_buffer := overwrite 0 (concat (map row [0..<h])) (vga_buffer s)\<rparr>)"
  proof (rule for_upt_state [where st = "\<lambda>i. s\<lparr>vga_buffer := overwrite 0 (concat (map row [0..<i])) (vga_buffer s)\<rparr>"])
    fix i assume i: "i < h"
    have "overwrite (i * 80) (row i) (overwrite 0 (concat (map row [0..<i])) (vga_buffer s))
      = overwrite 0 (concat (map row [0..<Suc i])) (vga_buffer s)"
      using i assms(1,3) len [of i] by (subst overwrite_overwrite) auto
    then show "body i (s\<lparr>vga_buffer := overwrite 0 (concat (map row [0..<i])) (vga_buffer s)\<rparr>)
      = Some (s\<lparr>vga_buffer := overwrite 0 (concat (map row [0..<Suc i])) (vga_buffer s)\<rparr>)"
      using i assms(1) len [of i] by (subst assms(2)) auto
  qed
  then show ?thesis by simp
qed

lemma map_nth_row: "length r = n \<Longrightarrow> map (\<lambda>x. r ! x) [0..<n] = r"
  by (auto intro: nth_equalityI)

text \<open>Copying the screen to video memory.\<close>

lemma copy_to_vga_eq:
  assumes "grid 25 80 (screen_buffer s)" and "length (vga_buffer s) = 2000"
  shows "copy_to_vga s = Some (s\<lparr>vga_buffer := concat (screen_buffer s)\<rparr>)"
proof -
  let ?body = "\<lambda>y. for_each [0..<80] (\<lambda>x s. Option.bind (rd2 (screen_buffer s) y x)
    (\<lambda>v. put_vga (y * 80 + x) v s))"
  have row: "?body y (s\<lparr>vga_buffer := m\<rparr>)
      = Some (s\<lparr>vga_buffer := overwrite (y * 80) (screen_buffer s ! y) m\<rparr>)"
    if "y < 25" "length m = length (vga_buffer s)" for y m
    using that assms
    by (subst row_to_vga [where f = "\<lambda>x. screen_buffer s ! y ! x"])
      (auto simp: rd2_grid grid_row map_nth_row)
  have "for_each [0..<25] ?body s
    = Some (s\<lparr>vga_buffer := overwrite 0 (concat (map (\<lambda>y. screen_buffer s ! y) [0..<25])) (vga_buffer s)\<rparr>)"
    by (rule rows_to_vga) (use assms row in \<open>auto simp: grid_row\<close>)
  moreover have "map (\<lambda>y. screen_buffer s ! y) [0..<25] = screen_buffer s"
    using assms by (intro map_nth_row) (simp add: grid_length)
  moreover have "length (concat (screen_buffer s)) = 2000"
  proof -
    have "map length (screen_buffer s) = replicate 25 80"
      using assms(1) by (intro nth_equalityI) (auto simp: grid_length grid_row)
    then show ?thesis by (simp add: length_concat sum_list_replicate)
  qed
  ultimately show ?thesis
    using assms by (simp add: copy_to_vga_def overwrite_all)
qed

text \<open>Filling a row of the screen and of the scrollback.\<close>

lemma row_to_screen:
  assumes "grid h n (screen_buffer s)" and "y < h"
    and "\<And>x r. x < n \<Longrightarrow> g x (s\<lparr>screen_buffer := (screen_buffer s)[y := r]\<rparr>) = Some (f x)"
  shows "for_each [0..<n] (\<lambda>x s. Option.bind (g x s) (\<lambda>v. put_screen y x v s)) s
    = Some (s\<lparr>screen_buffer := (screen_buffer s)[y := map f [0..<n]]\<rparr>)"
proof -
  let ?st = "\<lambda>i. s\<lparr>screen_buffer := (screen_buffer s)[y := overwrite 0 (map f [0..<i]) (screen_buffer s ! y)]\<rparr>"
  have len: "length (screen_buffer s) = h" "length (screen_buffer s ! y) = n"
    using assms(1,2) by (simp_all add: grid_length grid_row)
  have "for_each [0..<n] (\<lambda>x s. Option.bind (g x s) (\<lambda>v. put_screen y x v s)) (?st 0) = Some (?st n)"
    by (rule for_upt_state [where st = ?st])
      (use len assms(2,3) overwrite_upt_step [of 0 _ "screen_buffer s ! y" f]
        in \<open>simp add: put_screen_def wr2_def del: upt_Suc\<close>)
  then show ?thesis using len by (simp add: overwrite_all)
qed

lemma row_to_scrollback:
  assumes "grid h n (scrollback s)" and "y < h"
    and "\<And>x r. x < n \<Longrightarrow> g x (s\<lparr>scrollback := (scrollback s)[y := r]\<rparr>) = Some (f x)"
  shows "for_each [0..<n] (\<lambda>x s. Option.bind (g x s) (\<lambda>v. put_scrollback y x v s)) s
    = Some (s\<lparr>scrollback := (scrollback s)[y := map f [0..<n]]\<rparr>)"
proof -
  let ?st = "\<lambda>i. s\<lparr>scrollback := (scrollback s)[y := overwrite 0 (map f [0..<i]) (scrollback s ! y)]\<rparr>"
  have len: "length (scrollback s) = h" "length (scrollback s ! y) = n"
    using assms(1,2) by (simp_all add: grid_length grid_row)
  have "for_each [0..<n] (\<lambda>x s. Option.bind (g x s) (\<lambda>v. put_scrollback y x v s)) (?st 0) = Some (?st n)"
    by (rule for_upt_state [where st = ?st])
      (use len assms(2,3) overwrite_upt_step [of 0 _ "scrollback s ! y" f]
        in \<open>simp add: put_scrollback_def wr2_def del: upt_Suc\<close>)
  then show ?thesis using len by (simp add: overwrite_all)
qed

text \<open>Moving every row up by one.\<close>

lemma shift_rows_eq:
  assumes "grid 25 80 (screen_buffer s)"
  shows "for_each [0..<24] (\<lambda>y. for_each [0..<80] (\<lambda>x s.
      Option.bind (rd2 (screen_buffer s) (y + 1) x) (\<lambda>v. put_screen y x v s))) s
    = Some (s\<lparr>screen_buffer := tl (screen_buffer s) @ [last (screen_buffer s)]\<rparr>)"
proof -
  let ?scr = "screen_buffer s"
  let ?rows = "\<lambda>i. overwrite 0 (map (\<lambda>y. ?scr ! (y + 1)) [0..<i]) ?scr"
  let ?st = "\<lambda>i. s\<lparr>screen_buffer := ?rows i\<rparr>"
  have len: "length ?scr = 25" using assms by (rule grid_length)
  have grid: "grid 25 80 (?rows i)" if "i \<le> 24" for i
    using that assms len by (auto simp: grid_def overwrite_def dest: in_set_takeD in_set_dropD)
  have next_row: "?rows i ! (i + 1) = ?scr ! (i + 1)" if "i < 24" for i
    using that len by (simp add: overwrite_def nth_append)
  have "for_each [0..<24] (\<lambda>y. for_each [0..<80] (\<lambda>x s.
      Option.bind (rd2 (screen_buffer s) (y + 1) x) (\<lambda>v. put_screen y x v s))) (?st 0) = Some (?st 24)"
  proof (rule for_upt_state [where st = ?st])
    fix i assume i: "i < (24 :: nat)"
    have val: "rd2 ((?rows i)[i := r]) (i + 1) x = Some (?scr ! (i + 1) ! x)" if "x < 80" for x r
      using that i len next_row [OF i] by (simp add: rd2_def grid_row [OF assms])
    have "map (\<lambda>x. ?scr ! (i + 1) ! x) [0..<80] = ?scr ! (i + 1)"
      using i by (intro map_nth_row) (simp add: grid_row [OF assms])
    then have "for_each [0..<80] (\<lambda>x s. Option.bind (rd2 (screen_buffer s) (i + 1) x)
        (\<lambda>v. put_screen i x v s)) (?st i) = Some (s\<lparr>screen_buffer := (?rows i)[i := ?scr ! (i + 1)]\<rparr>)"
      using i grid [of i] val
      by (subst row_to_screen [where h = 25 and f = "\<lambda>x. ?scr ! (i + 1) ! x"]) (simp_all del: upt_Suc)
    also have "(?rows i)[i := ?scr ! (i + 1)] = ?rows (Suc i)"
      using overwrite_upt_step [of 0 i ?scr "\<lambda>y. ?scr ! (y + 1)"] i len by simp
    finally show "for_each [0..<80] (\<lambda>x s. Option.bind (rd2 (screen_buffer s) (i + 1) x)
        (\<lambda>v. put_screen i x v s)) (?st i) = Some (?st (Suc i))" .
  qed
  moreover have "last ?scr = ?scr ! 24" using len by (subst last_conv_nth) auto
  then have "?rows 24 = tl ?scr @ [last ?scr]"
    using len by (intro nth_equalityI) (auto simp: overwrite_def nth_append nth_tl not_less le_Suc_eq)
  ultimately show ?thesis by simp
qed

section \<open>Invariant and contents\<close>

text \<open>The lines in the scrollback ring, oldest first, and the whole document above which
  the live screen sits.\<close>

definition sb_lines :: "'a console_scheme \<Rightarrow> u16 list list" where
  "sb_lines s = ring (scrollback s) (sb_start s) (sb_count s)"

definition document :: "'a console_scheme \<Rightarrow> u16 list list" where
  "document s = sb_lines s @ screen_buffer s"

definition con_shape :: "'a console_scheme \<Rightarrow> bool" where
  "con_shape s \<longleftrightarrow> length (vga_buffer s) = 2000 \<and> grid 25 80 (screen_buffer s) \<and>
     grid 100 80 (scrollback s) \<and> sb_start s < 100 \<and> sb_count s \<le> 100 \<and> sb_view s \<le> sb_count s"

definition mirrored :: "'a console_scheme \<Rightarrow> bool" where
  "mirrored s \<longleftrightarrow> (sb_view s = 0 \<longrightarrow> vga_buffer s = concat (screen_buffer s))"

definition con_inv :: "'a console_scheme \<Rightarrow> bool" where
  "con_inv s \<longleftrightarrow> con_shape s \<and> mirrored s \<and> cursor_x s < 80 \<and> cursor_y s < 25"

lemma con_shapeD:
  assumes "con_shape s"
  shows "length (vga_buffer s) = 2000" "grid 25 80 (screen_buffer s)" "grid 100 80 (scrollback s)"
    "sb_start s < 100" "sb_count s \<le> 100" "sb_view s \<le> sb_count s"
    "length (screen_buffer s) = 25" "length (scrollback s) = 100"
  using assms by (auto simp: con_shape_def dest: grid_length)

text \<open>The scrollback ring after a push.\<close>

definition after_push :: "u16 list \<Rightarrow> 'a console_scheme \<Rightarrow> 'a console_scheme" where
  "after_push line s =
     (let (start, n) = ring_next 100 (sb_start s) (sb_count s)
      in s\<lparr>scrollback := (scrollback s)[(sb_start s + sb_count s) mod 100 := line],
           sb_start := start, sb_count := n\<rparr>)"

lemma scrollback_push_eq:
  assumes "con_shape s" and "length line = 80"
  shows "scrollback_push line s = Some (after_push line s)"
proof -
  note d = con_shapeD [OF assms(1)]
  let ?idx = "(sb_start s + sb_count s) mod 100"
  have "map (\<lambda>x. line ! x) [0..<80] = line" using assms(2) by (rule map_nth_row)
  then have "for_each [0..<80] (\<lambda>x s. Option.bind (rd line x) (\<lambda>v. put_scrollback ?idx x v s)) s
    = Some (s\<lparr>scrollback := (scrollback s)[?idx := line]\<rparr>)"
    using assms(2) d(3) by (subst row_to_scrollback [where h = 100 and f = "\<lambda>x. line ! x"]) simp_all
  then show ?thesis
    using d(5) by (simp add: scrollback_push_def after_push_def ring_next_def Let_def)
qed

lemma after_push_lines:
  assumes "con_shape s"
  shows "sb_lines (after_push line s) = lastn 100 (sb_lines s @ [line])"
  using ring_push_lastn [of "scrollback s" 100 "sb_start s" "sb_count s" line] con_shapeD [OF assms]
  by (simp add: sb_lines_def after_push_def split: prod.splits)

lemma after_push_shape:
  assumes "con_shape s" and "length line = 80"
  shows "con_shape (after_push line s)"
  using assms con_shapeD(6) [OF assms(1)]
  by (auto simp: con_shape_def after_push_def ring_next_def grid_update)

lemma after_push_simps [simp]:
  "screen_buffer (after_push line s) = screen_buffer s"
  "vga_buffer (after_push line s) = vga_buffer s"
  "sb_view (after_push line s) = sb_view s" "vga_color (after_push line s) = vga_color s"
  "cursor_x (after_push line s) = cursor_x s" "cursor_y (after_push line s) = cursor_y s"
  by (simp_all add: after_push_def split: prod.splits)

text \<open>Scrolling the live screen: the top line goes to the ring, a blank line comes in.\<close>

definition blank_row :: "'a console_scheme \<Rightarrow> u16 list" where
  "blank_row s = replicate 80 (blank s)"

definition after_scroll :: "'a console_scheme \<Rightarrow> 'a console_scheme" where
  "after_scroll s =
     (let rows = tl (screen_buffer s) @ [blank_row s];
          s' = (after_push (hd (screen_buffer s)) s)\<lparr>screen_buffer := rows\<rparr>
      in if sb_view s = 0 then s'\<lparr>vga_buffer := concat rows\<rparr> else s')"

lemma blank_update [simp]:
  "blank (s\<lparr>screen_buffer := m\<rparr>) = blank s" "blank (s\<lparr>vga_buffer := v\<rparr>) = blank s"
  "blank (s\<lparr>cursor_x := x\<rparr>) = blank s" "blank (s\<lparr>cursor_y := y\<rparr>) = blank s"
  "blank (s\<lparr>trace := t\<rparr>) = blank s" "blank (s\<lparr>sb_view := n\<rparr>) = blank s"
  by (simp_all add: blank_def)

lemma scroll_screen_eq:
  assumes "con_shape s"
  shows "scroll_screen s = Some (after_scroll s)"
proof -
  note d = con_shapeD [OF assms]
  let ?scr = "screen_buffer s"
  let ?rows = "tl ?scr @ [blank_row s]"
  let ?s1 = "after_push (hd ?scr) s"
  have hd: "rd ?scr 0 = Some (hd ?scr)" "length (hd ?scr) = 80"
    using d(7) grid_hd [OF d(2)] by auto
  have g: "grid 25 80 (tl ?scr @ [last ?scr])"
    using d(2) grid_hd(1) [OF d(2)] by (intro grid_shift) (auto simp: grid_def)
  have fill: "for_each [0..<80] (\<lambda>x s. put_screen 24 x (blank s) s) (?s1\<lparr>screen_buffer := tl ?scr @ [last ?scr]\<rparr>)
    = Some (?s1\<lparr>screen_buffer := ?rows\<rparr>)"
    using row_to_screen [of 25 80 "?s1\<lparr>screen_buffer := tl ?scr @ [last ?scr]\<rparr>" 24
        "\<lambda>x s. Some (blank s)" "\<lambda>x. blank s"] g d(7)
    by (simp add: blank_row_def map_replicate_const blank_def list_update_append)
  have copy: "copy_to_vga (?s1\<lparr>screen_buffer := ?rows\<rparr>)
    = Some (?s1\<lparr>screen_buffer := ?rows, vga_buffer := concat ?rows\<rparr>)"
    using d by (subst copy_to_vga_eq) (auto intro!: grid_shift simp: blank_row_def)
  show ?thesis
    using shift_rows_eq [of ?s1] fill copy hd scrollback_push_eq [OF assms hd(2)] d(2)
    by (simp add: scroll_screen_def after_scroll_def Let_def)
qed

lemma after_scroll_shape:
  assumes "con_shape s"
  shows "con_shape (after_scroll s)"
proof -
  note d = con_shapeD [OF assms]
  have "con_shape (after_push (hd (screen_buffer s)) s)"
    using assms grid_hd [OF d(2)] by (intro after_push_shape) auto
  moreover have "grid 25 80 (tl (screen_buffer s) @ [blank_row s])"
    using d by (intro grid_shift) (auto simp: blank_row_def)
  ultimately show ?thesis
    by (auto simp: con_shape_def after_scroll_def Let_def dest: length_concat_grid)
qed

lemma after_scroll_simps [simp]:
  "screen_buffer (after_scroll s) = tl (screen_buffer s) @ [blank_row s]"
  "sb_view (after_scroll s) = sb_view s" "vga_color (after_scroll s) = vga_color s"
  "cursor_x (after_scroll s) = cursor_x s" "cursor_y (after_scroll s) = cursor_y s"
  by (simp_all add: after_scroll_def Let_def)

lemma after_scroll_lines:
  assumes "con_shape s"
  shows "sb_lines (after_scroll s) = lastn 100 (sb_lines s @ [hd (screen_buffer s)])"
  using after_push_lines [OF assms] by (simp add: after_scroll_def Let_def sb_lines_def)

lemma after_scroll_mirrored: "mirrored (after_scroll s)"
  by (simp add: mirrored_def after_scroll_def Let_def)

text \<open>What \<open>render_view\<close> shows: 25 lines of the document, \<open>sb_view\<close> lines above the bottom.\<close>

definition window :: "'a console_scheme \<Rightarrow> u16 list list" where
  "window s = take 25 (drop (sb_count s - sb_view s) (document s))"

lemma document_nth:
  assumes "con_shape s"
  shows "i < sb_count s \<Longrightarrow> document s ! i = scrollback s ! ((sb_start s + i) mod 100)"
    and "j < 25 \<Longrightarrow> document s ! (sb_count s + j) = screen_buffer s ! j"
    and "length (document s) = sb_count s + 25"
  using con_shapeD [OF assms] by (simp_all add: document_def sb_lines_def nth_append)

lemma render_row_eq:
  assumes "con_shape s" and "row < 25" and "start + row < sb_count s + 25" and "length m = 2000"
  shows "render_row start row (s\<lparr>vga_buffer := m\<rparr>)
    = Some (s\<lparr>vga_buffer := overwrite (row * 80) (document s ! (start + row)) m\<rparr>)"
proof -
  note d = con_shapeD [OF assms(1)]
  let ?i = "start + row"
  show ?thesis
  proof (cases "?i < sb_count s")
    case True
    let ?r = "(sb_start s + ?i) mod 100"
    have "?r < 100" by simp
    then have "map (\<lambda>x. scrollback s ! ?r ! x) [0..<80] = scrollback s ! ?r"
      using d(3) by (intro map_nth_row) (simp add: grid_row)
    with True show ?thesis
      using assms d(3) document_nth(1) [OF assms(1) True]
      by (simp add: render_row_def Let_def,
          subst row_to_vga [where f = "\<lambda>x. scrollback s ! ?r ! x"]) (simp_all add: rd2_grid)
  next
    case False
    let ?j = "?i - sb_count s"
    have j: "?j < 25" using assms(3) False by simp
    then have "map (\<lambda>x. screen_buffer s ! ?j ! x) [0..<80] = screen_buffer s ! ?j"
      using d(2) by (intro map_nth_row) (simp add: grid_row)
    with False j show ?thesis
      using assms d(2) document_nth(2) [OF assms(1) j]
      by (simp add: render_row_def Let_def,
          subst row_to_vga [where f = "\<lambda>x. screen_buffer s ! ?j ! x"]) (simp_all add: rd2_grid)
  qed
qed

lemma document_row_length:
  assumes "con_shape s" and "i < sb_count s + 25"
  shows "length (document s ! i) = 80"
proof (cases "i < sb_count s")
  case True
  with document_nth(1) [OF assms(1)] con_shapeD(3) [OF assms(1)] show ?thesis
    by (simp add: grid_row)
next
  case False
  with assms(2) have "i - sb_count s < 25" by simp
  with False document_nth(2) [OF assms(1), of "i - sb_count s"] con_shapeD(2) [OF assms(1)]
  show ?thesis by (simp add: grid_row)
qed

lemma window_length:
  assumes "con_shape s"
  shows "length (concat (window s)) = 2000"
proof -
  have "grid 25 80 (window s)"
    using document_row_length [OF assms] document_nth(3) [OF assms] con_shapeD(6) [OF assms]
    by (auto simp: grid_def window_def in_set_conv_nth)
  then show ?thesis using length_concat_grid by fastforce
qed

lemma render_rows_eq:
  assumes "con_shape s"
  shows "for_each [0..<25] (render_row (sb_count s - sb_view s)) s = Some (s\<lparr>vga_buffer := concat (window s)\<rparr>)"
proof -
  note d = con_shapeD [OF assms]
  let ?st = "sb_count s - sb_view s"
  have rows: "map (\<lambda>r. document s ! (?st + r)) [0..<25] = window s"
    using document_nth(3) [OF assms] d(6) by (auto intro!: nth_equalityI simp: window_def)
  have "for_each [0..<25] (render_row ?st) s
    = Some (s\<lparr>vga_buffer := overwrite 0 (concat (map (\<lambda>r. document s ! (?st + r)) [0..<25])) (vga_buffer s)\<rparr>)"
    by (rule rows_to_vga) (use d assms in \<open>auto simp: render_row_eq document_row_length\<close>)
  then show ?thesis unfolding rows using d(1) window_length [OF assms] by (simp add: overwrite_all)
qed

lemma render_view_eq:
  assumes "con_shape s"
  shows "render_view s = Some (update_cursor (s\<lparr>vga_buffer := concat (window s)\<rparr>))"
proof -
  have "\<not> sb_count s < sb_view s" using con_shapeD(6) [OF assms] by simp
  then show ?thesis
    using render_rows_eq [OF assms] con_shapeD(6) [OF assms]
    by (auto simp: render_view_def Let_def)
qed

section \<open>The abstract terminal\<close>

text \<open>A terminal is the lines scrolled off (the last 100), the 25 visible rows and a cursor.\<close>

record terminal =
  t_hist :: "u16 list list"
  t_rows :: "u16 list list"
  t_x :: nat
  t_y :: nat

definition term_newline :: "u16 \<Rightarrow> terminal \<Rightarrow> terminal" where
  "term_newline bl t =
     (if t_y t + 1 < 25 then t\<lparr>t_x := 0, t_y := t_y t + 1\<rparr>
      else t\<lparr>t_hist := lastn 100 (t_hist t @ [hd (t_rows t)]),
             t_rows := tl (t_rows t) @ [replicate 80 bl], t_x := 0, t_y := 24\<rparr>)"

definition term_set :: "u16 \<Rightarrow> terminal \<Rightarrow> terminal" where
  "term_set v t = t\<lparr>t_rows := (t_rows t)[t_y t := (t_rows t ! t_y t)[t_x t := v]]\<rparr>"

definition term_left :: "terminal \<Rightarrow> terminal" where
  "term_left t =
     (if 0 < t_x t then t\<lparr>t_x := t_x t - 1\<rparr>
      else if 0 < t_y t then t\<lparr>t_x := 79, t_y := t_y t - 1\<rparr> else t)"

definition term_put :: "u8 \<Rightarrow> char \<Rightarrow> terminal \<Rightarrow> terminal" where
  "term_put color c t =
     (let bl = cell color (CHR '' '') in
      if c = NEWLINE then term_newline bl t
      else if c = BACKSPACE then term_set bl (term_left t)
      else let t = term_set (cell color c) t in
        if t_x t + 1 < 80 then t\<lparr>t_x := t_x t + 1\<rparr> else term_newline bl t)"

definition con_term :: "'a console_scheme \<Rightarrow> terminal" where
  "con_term s = \<lparr>t_hist = sb_lines s, t_rows = screen_buffer s, t_x = cursor_x s, t_y = cursor_y s\<rparr>"

text \<open>What an output operation leaves alone.\<close>

definition con_frame :: "'a console_scheme \<Rightarrow> bool \<times> u8 \<times> char list \<times> nat \<times> nat \<times> bool \<times> 'a" where
  "con_frame s = (have_e0 s, vga_color s, input_buf s, input_head s, input_tail s, ctrl s, console.more s)"

lemma put_cell_wp:
  assumes "con_inv s"
  shows "wp (put_cell v s) (\<lambda>s'. con_inv s' \<and> con_term s' = term_set v (con_term s) \<and>
    con_frame s' = con_frame s \<and> sb_view s' = sb_view s \<and> trace s' = trace s)"
proof -
  have sh: "con_shape s" and m: "mirrored s" and c: "cursor_x s < 80" "cursor_y s < 25"
    using assms by (auto simp: con_inv_def)
  note d = con_shapeD [OF sh]
  let ?m = "(screen_buffer s)[cursor_y s := (screen_buffer s ! cursor_y s)[cursor_x s := v]]"
  have g: "grid 25 80 ?m" using d(2) c(2) by (rule grid_update2)
  have pos: "cursor_y s * 80 + cursor_x s < 2000" using c by linarith
  have cc: "concat ?m = (concat (screen_buffer s))[cursor_y s * 80 + cursor_x s := v]"
    using d(2) c by (intro concat_update)
  have row: "rd2 ?m (cursor_y s) (cursor_x s) = Some v"
    using d c by (simp add: rd2_def grid_row)
  show ?thesis
    using sh m c d g cc pos row
    by (auto simp: put_cell_def put_screen_def put_vga_def wr2_grid con_inv_def con_shape_def
        mirrored_def con_term_def term_set_def con_frame_def sb_lines_def)
qed

lemma next_line_wp:
  assumes "con_shape s" and "mirrored s" and "cursor_y s < 25"
  shows "wp (next_line s) (\<lambda>s'. con_inv s' \<and> con_term s' = term_newline (blank s) (con_term s) \<and>
    con_frame s' = con_frame s \<and> sb_view s' = sb_view s \<and> trace s' = trace s)"
proof (cases "cursor_y s + 1 < 25")
  case True
  with assms show ?thesis
    by (auto simp: next_line_def Let_def con_inv_def con_shape_def mirrored_def con_term_def
        term_newline_def con_frame_def sb_lines_def)
next
  case False
  let ?s = "s\<lparr>cursor_x := 0, cursor_y := 25\<rparr>"
  have y: "cursor_y s = 24" using assms(3) False by simp
  have sh: "con_shape ?s" using assms(1) by (simp add: con_shape_def)
  have lines: "sb_lines (after_scroll ?s) = lastn 100 (sb_lines s @ [hd (screen_buffer s)])"
    using after_scroll_lines [OF sh] by (simp add: sb_lines_def)
  have fr: "con_frame (after_scroll ?s) = con_frame s" "trace (after_scroll ?s) = trace s"
    by (simp_all add: after_scroll_def after_push_def con_frame_def Let_def split: prod.splits)
  show ?thesis
    using y scroll_screen_eq [OF sh] after_scroll_shape [OF sh] after_scroll_mirrored [of ?s] lines fr
    by (auto simp: next_line_def Let_def con_inv_def con_shape_def mirrored_def con_term_def
        term_newline_def con_frame_def sb_lines_def blank_row_def)
qed

section \<open>The serial port\<close>

text \<open>The trace after \<open>n\<close> polls of a port, and the documented behaviour of the UART: wherever
  it stands, polling its line status register long enough finds the transmitter empty.\<close>

primrec polls :: "hardware \<Rightarrow> u16 \<Rightarrow> nat \<Rightarrow> io_event list \<Rightarrow> io_event list" where
  "polls hw p 0 t = t"
| "polls hw p (Suc n) t = polls hw p n (InB p (ucast (port_in hw t p)) # t)"

definition ready_after :: "hardware \<Rightarrow> nat \<Rightarrow> io_event list \<Rightarrow> bool" where
  "ready_after hw n t \<longleftrightarrow>
     (ucast (port_in hw (polls hw 0x3FD n t) 0x3FD) :: u8) AND 0x20 \<noteq> 0"

definition uart_ready :: "hardware \<Rightarrow> bool" where
  "uart_ready hw \<longleftrightarrow> (\<forall>t. \<exists>n. ready_after hw n t)"

text \<open>The bytes handed to the serial data port, in order.\<close>

fun serial_out :: "io_event list \<Rightarrow> u8 list" where
  "serial_out [] = []"
| "serial_out (OutB p v # t) = (if p = SERIAL_PORT then serial_out t @ [v] else serial_out t)"
| "serial_out (_ # t) = serial_out t"

lemma serial_out_polls [simp]: "serial_out (polls hw p n t) = serial_out t"
  by (induction n arbitrary: t) simp_all

lemma serial_out_cursor [simp]: "serial_out (trace (update_cursor s)) = serial_out (trace s)"
  by (simp add: update_cursor_def Let_def)

lemma serial_wait_ready:
  assumes "ready_after hw n (trace s)" and "\<And>k. k < n \<Longrightarrow> \<not> ready_after hw k (trace s)"
  shows "serial_wait hw s = Some (s\<lparr>trace := polls hw 0x3FD (Suc n) (trace s)\<rparr>)"
  using assms
proof (induction n arbitrary: s)
  case 0
  then show ?case
    by (subst serial_wait.simps) (simp add: inb_def Let_def ready_after_def)
next
  case (Suc n)
  let ?s = "snd (inb hw 0x3FD s)"
  have step: "ready_after hw k (trace ?s) = ready_after hw (Suc k) (trace s)" for k
    by (simp add: inb_def Let_def ready_after_def)
  have busy: "fst (inb hw 0x3FD s) AND 0x20 = 0"
    using Suc.prems(2) [of 0] by (simp add: inb_def Let_def ready_after_def)
  have "serial_wait hw ?s = Some (?s\<lparr>trace := polls hw 0x3FD (Suc n) (trace ?s)\<rparr>)"
    using Suc.prems by (intro Suc.IH) (auto simp: step)
  with busy show ?case
    by (subst serial_wait.simps) (simp add: inb_def Let_def)
qed

lemma serial_wait_wp:
  assumes "\<exists>n. ready_after hw n (trace s)"
  shows "\<exists>n. serial_wait hw s = Some (s\<lparr>trace := polls hw 0x3FD n (trace s)\<rparr>)"
  using serial_wait_ready [of hw "LEAST n. ready_after hw n (trace s)" s]
    LeastI_ex [OF assms] not_less_Least by blast

text \<open>The wait returns only if the transmitter becomes empty.\<close>

lemma serial_wait_returns:
  assumes "serial_wait hw (s :: 'a io_scheme) = Some s'"
  shows "\<exists>n. ready_after hw n (trace s)"
proof (rule serial_wait.raw_induct [where P = "\<lambda>hw s r. \<exists>n. ready_after hw n (trace s)", OF _ assms])
  fix f :: "hardware \<Rightarrow> 'a io_scheme \<Rightarrow> 'a io_scheme option" and hw and s r :: "'a io_scheme"
  let ?io = "inb hw (SERIAL_PORT + 5) s"
  assume IH: "\<And>hw s r. f hw s = Some r \<Longrightarrow> \<exists>n. ready_after hw n (trace s)"
    and eq: "(if fst ?io AND 0x20 = 0 then f hw (snd ?io) else Some (snd ?io)) = Some r"
  show "\<exists>n. ready_after hw n (trace s)"
  proof (cases "fst ?io AND 0x20 = 0")
    case True
    with eq have "f hw (snd ?io) = Some r" by simp
    then obtain n where "ready_after hw n (trace (snd ?io))" using IH by blast
    then have "ready_after hw (Suc n) (trace s)" by (simp add: inb_def Let_def ready_after_def)
    then show ?thesis ..
  next
    case False
    then have "ready_after hw 0 (trace s)" by (simp add: inb_def Let_def ready_after_def)
    then show ?thesis ..
  qed
qed

lemma serial_putc_wp:
  assumes "uart_ready hw"
  shows "wp (serial_putc hw c s) (\<lambda>s'. \<exists>n. s' = s\<lparr>trace :=
    OutB SERIAL_PORT (byte_of c) # polls hw 0x3FD n (trace s)\<rparr>)"
proof -
  obtain n where "serial_wait hw s = Some (s\<lparr>trace := polls hw 0x3FD n (trace s)\<rparr>)"
    using serial_wait_wp [of hw s] assms unfolding uart_ready_def by blast
  then show ?thesis by (auto simp: serial_putc_def outb_def)
qed

section \<open>Writing characters\<close>

text \<open>The effect of an output operation: it maps the terminal by \<open>f\<close>, sends \<open>bs\<close> to the serial
  port, keeps the invariant and touches nothing else; after it the live screen is shown.\<close>

definition prints :: "(terminal \<Rightarrow> terminal) \<Rightarrow> u8 list \<Rightarrow> 'a console_scheme \<Rightarrow> 'a console_scheme \<Rightarrow> bool" where
  "prints f bs s s' \<longleftrightarrow> con_inv s' \<and> con_term s' = f (con_term s) \<and> con_frame s' = con_frame s \<and>
     serial_out (trace s') = serial_out (trace s) @ bs \<and> (bs \<noteq> [] \<longrightarrow> sb_view s' = 0)"

lemma con_frame_color: "con_frame s' = con_frame s \<Longrightarrow> vga_color s' = vga_color s"
  by (simp add: con_frame_def)

lemma prints_id: "con_inv s \<Longrightarrow> prints (\<lambda>t. t) [] s s"
  by (simp add: prints_def)

lemma prints_trans:
  "prints f bs s s1 \<Longrightarrow> prints g cs s1 s2 \<Longrightarrow> bs = [] \<or> cs \<noteq> [] \<Longrightarrow>
    prints (\<lambda>t. g (f t)) (bs @ cs) s s2"
  by (auto simp: prints_def)

lemma con_update_cursor [simp]:
  "con_inv (update_cursor s) = con_inv s" "con_term (update_cursor s) = con_term s"
  "con_frame (update_cursor s) = con_frame s" "sb_view (update_cursor s) = sb_view s"
  by (simp_all add: update_cursor_def Let_def outb_def con_inv_def con_shape_def mirrored_def
      con_term_def sb_lines_def con_frame_def)

lemma con_trace [simp]:
  "con_inv (s\<lparr>trace := t\<rparr>) = con_inv s" "con_term (s\<lparr>trace := t\<rparr>) = con_term s"
  "con_frame (s\<lparr>trace := t\<rparr>) = con_frame s"
  by (simp_all add: con_inv_def con_shape_def mirrored_def con_term_def sb_lines_def con_frame_def)

lemma ensure_bottom_wp:
  assumes "con_inv s"
  shows "wp (ensure_bottom s) (\<lambda>s'. con_inv s' \<and> con_term s' = con_term s \<and>
    con_frame s' = con_frame s \<and> sb_view s' = 0 \<and> serial_out (trace s') = serial_out (trace s))"
proof (cases "sb_view s = 0")
  case True
  with assms show ?thesis by (simp add: ensure_bottom_def)
next
  case False
  let ?s = "s\<lparr>sb_view := 0\<rparr>"
  have sh: "con_shape ?s" and cs: "con_shape s" and c: "cursor_x s < 80" "cursor_y s < 25"
    using assms by (simp_all add: con_inv_def con_shape_def)
  have "window ?s = screen_buffer s"
    using con_shapeD [OF cs] by (simp add: window_def document_def sb_lines_def)
  then have "render_view ?s = Some (update_cursor (?s\<lparr>vga_buffer := concat (screen_buffer s)\<rparr>))"
    using render_view_eq [OF sh] by simp
  moreover have "con_inv (?s\<lparr>vga_buffer := concat (screen_buffer s)\<rparr>)"
    using c con_shapeD [OF cs] length_concat_grid [of 25 80 "screen_buffer s"]
    by (simp add: con_inv_def con_shape_def mirrored_def)
  moreover have "con_term (?s\<lparr>vga_buffer := concat (screen_buffer s)\<rparr>) = con_term s"
    "con_frame (?s\<lparr>vga_buffer := concat (screen_buffer s)\<rparr>) = con_frame s"
    by (simp_all add: con_term_def sb_lines_def con_frame_def)
  ultimately show ?thesis
    using False by (simp add: ensure_bottom_def)
qed

lemma blank_term: "blank s = cell (vga_color s) (CHR '' '')"
  by (simp add: blank_def)

lemma con_invD:
  assumes "con_inv s"
  shows "con_shape s" "mirrored s" "cursor_x s < 80" "cursor_y s < 25"
  using assms by (simp_all add: con_inv_def)

lemma con_inv_cursor: "con_inv s \<Longrightarrow> x < 80 \<Longrightarrow> y < 25 \<Longrightarrow> con_inv (s\<lparr>cursor_x := x, cursor_y := y\<rparr>)"
  by (simp add: con_inv_def con_shape_def mirrored_def)

lemma con_term_cursor [simp]:
  "con_term (s\<lparr>cursor_x := x\<rparr>) = (con_term s)\<lparr>t_x := x\<rparr>"
  "con_term (s\<lparr>cursor_y := y\<rparr>) = (con_term s)\<lparr>t_y := y\<rparr>"
  "con_frame (s\<lparr>cursor_x := x\<rparr>) = con_frame s" "con_frame (s\<lparr>cursor_y := y\<rparr>) = con_frame s"
  by (simp_all add: con_term_def sb_lines_def con_frame_def)

lemma con_term_sel [simp]:
  "t_x (con_term s) = cursor_x s" "t_y (con_term s) = cursor_y s"
  "t_rows (con_term s) = screen_buffer s" "t_hist (con_term s) = sb_lines s"
  by (simp_all add: con_term_def)

lemma term_set_sel [simp]:
  "t_x (term_set v t) = t_x t" "t_y (term_set v t) = t_y t" "t_hist (term_set v t) = t_hist t"
  by (simp_all add: term_set_def)

text \<open>The three branches of \<open>console_putc\<close> on a state that shows the live screen.\<close>

lemma putc_back_wp:
  assumes "con_inv s"
  shows "wp (let s = (if cursor_x s > 0 then s\<lparr>cursor_x := cursor_x s - 1\<rparr>
                     else if cursor_y s > 0
                     then s\<lparr>cursor_y := cursor_y s - 1, cursor_x := 79\<rparr>
                     else s)
            in put_cell (blank s) s)
    (\<lambda>s'. con_inv s' \<and> con_term s' = term_set (blank s) (term_left (con_term s)) \<and>
      con_frame s' = con_frame s \<and> sb_view s' = sb_view s \<and> trace s' = trace s)"
proof -
  let ?t = "if cursor_x s > 0 then s\<lparr>cursor_x := cursor_x s - 1\<rparr>
     else if cursor_y s > 0 then s\<lparr>cursor_y := cursor_y s - 1, cursor_x := 79\<rparr> else s"
  note c = con_invD(3,4) [OF assms]
  have t: "con_inv ?t"
    using assms c by (auto simp: con_inv_def con_shape_def mirrored_def)
  have eqs: "con_term ?t = term_left (con_term s)" "con_frame ?t = con_frame s"
    "sb_view ?t = sb_view s" "trace ?t = trace s" "blank ?t = blank s"
    by (auto simp: term_left_def)
  show ?thesis
    using put_cell_wp [OF t, of "blank ?t"] unfolding eqs Let_def by simp
qed

lemma putc_char_wp:
  assumes "con_inv s"
  shows "wp (do { s \<leftarrow> put_cell (cell (vga_color s) c) s;
            let s = s\<lparr>cursor_x := to_u8 (cursor_x s + 1)\<rparr>;
            if cursor_x s \<ge> 80 then next_line s else Some s })
    (\<lambda>s'. con_inv s' \<and> con_term s' =
      (let t = term_set (cell (vga_color s) c) (con_term s) in
        if t_x t + 1 < 80 then t\<lparr>t_x := t_x t + 1\<rparr> else term_newline (blank s) t) \<and>
      con_frame s' = con_frame s \<and> sb_view s' = sb_view s \<and> trace s' = trace s)"
proof -
  note c = con_invD(3,4) [OF assms]
  show ?thesis
  proof (rule wp_seq [OF put_cell_wp [OF assms]])
    fix u
    assume u: "con_inv u \<and> con_term u = term_set (cell (vga_color s) c) (con_term s) \<and>
      con_frame u = con_frame s \<and> sb_view u = sb_view s \<and> trace u = trace s"
    then have "t_x (con_term u) = t_x (term_set (cell (vga_color s) c) (con_term s))" by metis
    then have x: "cursor_x u = cursor_x s" unfolding con_term_sel term_set_sel .
    have y: "cursor_y u < 25" using u con_invD(4) [of u] by blast
    have bl: "blank u = blank s" using u con_frame_color [of u s] by (simp add: blank_def)
    let ?u = "u\<lparr>cursor_x := to_u8 (cursor_x u + 1)\<rparr>"
    have sh: "con_shape ?u" "mirrored ?u" "cursor_y ?u < 25"
      using u y by (auto simp: con_inv_def con_shape_def mirrored_def)
    show "wp (let s = ?u in if cursor_x s \<ge> 80 then next_line s else Some s)
      (\<lambda>s'. con_inv s' \<and> con_term s' =
      (let t = term_set (cell (vga_color s) c) (con_term s) in
        if t_x t + 1 < 80 then t\<lparr>t_x := t_x t + 1\<rparr> else term_newline (blank s) t) \<and>
      con_frame s' = con_frame s \<and> sb_view s' = sb_view s \<and> trace s' = trace s)"
    proof (cases "cursor_x s + 1 < 80")
      case True
      with u x sh c show ?thesis by (simp add: Let_def con_inv_def)
    next
      case False
      with next_line_wp [OF sh] u x c bl show ?thesis
        by (simp add: Let_def) (auto elim!: wp_mono simp: term_newline_def)
    qed
  qed
qed

lemma place_char_wp:
  assumes "con_inv s"
  shows "wp (place_char c s) (\<lambda>s'. con_inv s' \<and> con_term s' = term_put (vga_color s) c (con_term s) \<and>
    con_frame s' = con_frame s \<and> sb_view s' = sb_view s \<and> trace s' = trace s)"
proof -
  consider "c = NEWLINE" | "c = BACKSPACE" | "c \<noteq> NEWLINE" "c \<noteq> BACKSPACE" by blast
  then show ?thesis
  proof cases
    case 1
    then show ?thesis
      using next_line_wp [OF con_invD(1,2,4) [OF assms]]
      by (simp add: place_char_def term_put_def blank_term)
  next
    case 2
    then have "place_char c s = (let s = (if cursor_x s > 0 then s\<lparr>cursor_x := cursor_x s - 1\<rparr>
                 else if cursor_y s > 0
                 then s\<lparr>cursor_y := cursor_y s - 1, cursor_x := 79\<rparr>
                 else s)
        in put_cell (blank s) s)" by (simp add: place_char_def)
    then show ?thesis using putc_back_wp [OF assms] 2 by (simp only: term_put_def blank_term) simp
  next
    case 3
    then show ?thesis using putc_char_wp [OF assms, of c]
      by (simp only: place_char_def term_put_def blank_term if_False Let_def simp_thms)
  qed
qed

lemma putc_wp:
  assumes "con_inv s" and "uart_ready hw"
  shows "wp (console_putc hw c s) (prints (term_put (vga_color s) c) [byte_of c] s)"
  unfolding console_putc_def
proof (rule wp_seq [OF serial_putc_wp [OF assms(2)]])
  fix u
  assume "\<exists>n. u = s\<lparr>trace := OutB SERIAL_PORT (byte_of c) # polls hw 0x3FD n (trace s)\<rparr>"
  then have u: "con_inv u" "con_term u = con_term s" "con_frame u = con_frame s"
    "serial_out (trace u) = serial_out (trace s) @ [byte_of c]"
    using assms(1) by auto
  show "wp (do { s \<leftarrow> ensure_bottom u; s \<leftarrow> place_char c s;
      Some (if sb_view s = 0 then update_cursor s else s) })
    (prints (term_put (vga_color s) c) [byte_of c] s)"
  proof (rule wp_seq [OF ensure_bottom_wp [OF u(1)]])
    fix v
    assume v: "con_inv v \<and> con_term v = con_term u \<and> con_frame v = con_frame u \<and>
      sb_view v = 0 \<and> serial_out (trace v) = serial_out (trace u)"
    then have col: "vga_color v = vga_color s" and iv: "con_inv v"
      using u con_frame_color [of v s] by simp_all
    show "wp (do { s \<leftarrow> place_char c v; Some (if sb_view s = 0 then update_cursor s else s) })
      (prints (term_put (vga_color s) c) [byte_of c] s)"
    proof (rule wp_seq [OF place_char_wp [OF iv]])
      fix w
      assume w: "con_inv w \<and> con_term w = term_put (vga_color v) c (con_term v) \<and>
        con_frame w = con_frame v \<and> sb_view w = sb_view v \<and> trace w = trace v"
      have "prints (term_put (vga_color s) c) [byte_of c] s (update_cursor w)"
        unfolding prints_def con_update_cursor serial_out_cursor using u v w col by simp
      then show "wp (Some (if sb_view w = 0 then update_cursor w else w))
        (prints (term_put (vga_color s) c) [byte_of c] s)" using v w by simp
    qed
  qed
qed

section \<open>Clearing the screen and moving the cursor\<close>

definition term_blank :: "u8 \<Rightarrow> terminal \<Rightarrow> terminal" where
  "term_blank color t =
     \<lparr>t_hist = [], t_rows = replicate 25 (replicate 80 (cell color (CHR '' ''))), t_x = 0, t_y = 0\<rparr>"

definition term_goto :: "nat \<Rightarrow> nat \<Rightarrow> terminal \<Rightarrow> terminal" where
  "term_goto x y t = t\<lparr>t_x := if x < 80 then x else t_x t, t_y := if y < 25 then y else t_y t\<rparr>"

lemma clear_row:
  assumes "grid 25 80 (screen_buffer s)" and "length (vga_buffer s) = 2000" and "y < 25"
  shows "for_each [0..<80] (\<lambda>x s. do {
            let val = blank s; s \<leftarrow> put_screen y x val s; put_vga (y * 80 + x) val s }) s
    = Some (s\<lparr>screen_buffer := (screen_buffer s)[y := blank_row s],
               vga_buffer := overwrite (y * 80) (blank_row s) (vga_buffer s)\<rparr>)"
proof -
  let ?b = "\<lambda>i. map (\<lambda>_. blank s) [0..<i]"
  let ?st = "\<lambda>i. s\<lparr>screen_buffer := (screen_buffer s)[y := overwrite 0 (?b i) (screen_buffer s ! y)],
     vga_buffer := overwrite (y * 80) (?b i) (vga_buffer s)\<rparr>"
  have len: "length (screen_buffer s) = 25" "length (screen_buffer s ! y) = 80"
    using assms by (simp_all add: grid_length grid_row)
  have "for_each [0..<80] (\<lambda>x s. do {
      let val = blank s; s \<leftarrow> put_screen y x val s; put_vga (y * 80 + x) val s }) (?st 0) = Some (?st 80)"
  proof (rule for_upt_state [where st = ?st])
    fix i assume i: "i < (80::nat)"
    have "y * 80 + i < 2000" using i assms(3) by linarith
    then show "(let val = blank (?st i) in do { s \<leftarrow> put_screen y i val (?st i);
        put_vga (y * 80 + i) val s }) = Some (?st (Suc i))"
      using i len assms overwrite_upt_step [of 0 i "screen_buffer s ! y" "\<lambda>_. blank s"]
        overwrite_upt_step [of "y * 80" i "vga_buffer s" "\<lambda>_. blank s"]
      by (simp add: put_screen_def put_vga_def wr2_def Let_def del: upt_Suc)
  qed
  then show ?thesis using len by (simp add: overwrite_all map_replicate_const blank_row_def)
qed

lemma console_clear_eq:
  assumes "con_shape s"
  shows "console_clear s = Some (update_cursor (s\<lparr>screen_buffer := replicate 25 (blank_row s),
    vga_buffer := replicate 2000 (blank s), sb_start := 0, sb_count := 0, sb_view := 0,
    cursor_x := 0, cursor_y := 0\<rparr>))"
proof -
  note d = con_shapeD [OF assms]
  let ?row = "blank_row s"
  let ?scr = "\<lambda>i. overwrite 0 (map (\<lambda>_. ?row) [0..<i]) (screen_buffer s)"
  let ?vga = "\<lambda>i. overwrite 0 (replicate (i * 80) (blank s)) (vga_buffer s)"
  let ?st = "\<lambda>i. s\<lparr>screen_buffer := ?scr i, vga_buffer := ?vga i\<rparr>"
  let ?body = "\<lambda>y. for_each [0..<80] (\<lambda>x s. do {
            let val = blank s; s \<leftarrow> put_screen y x val s; put_vga (y * 80 + x) val s })"
  have row: "length ?row = 80" by (simp add: blank_row_def)
  have "for_each [0..<25] ?body (?st 0) = Some (?st 25)"
  proof (rule for_upt_state [where st = ?st])
    fix i assume i: "i < (25::nat)"
    have g: "grid 25 80 (?scr i)"
      using i d(2,7) row by (auto simp: grid_def overwrite_def dest: in_set_dropD)
    have v: "overwrite (i * 80) ?row (?vga i) = ?vga (Suc i)"
      using i d(1) by (subst overwrite_overwrite)
        (auto simp: blank_row_def replicate_add [symmetric] add.commute)
    have r: "(?scr i)[i := ?row] = ?scr (Suc i)"
      using overwrite_upt_step [of 0 i "screen_buffer s" "\<lambda>_. ?row"] i d(7) by simp
    show "?body i (?st i) = Some (?st (Suc i))"
      using clear_row [of "?st i" i] g i d(1) v r by (simp add: blank_row_def del: upt_Suc)
  qed
  moreover have "?st 25 = s\<lparr>screen_buffer := replicate 25 ?row, vga_buffer := replicate 2000 (blank s)\<rparr>"
    using d(1,7) by (simp add: overwrite_all map_replicate_const)
  ultimately show ?thesis
    by (simp add: console_clear_def)
qed

lemma concat_replicate_rows: "concat (replicate h (replicate w v)) = replicate (h * w) v"
  by (induction h) (simp_all add: replicate_add)

lemma console_clear_wp:
  assumes "con_shape s"
  shows "wp (console_clear s) (\<lambda>s'. prints (term_blank (vga_color s)) [] s s' \<and> sb_view s' = 0)"
  using con_shapeD [OF assms] concat_replicate_rows [of 25 80 "blank s"]
  by (simp add: console_clear_eq [OF assms] prints_def)
    (simp add: con_inv_def con_shape_def mirrored_def con_term_def sb_lines_def con_frame_def
      blank_row_def term_blank_def blank_def)

lemma console_set_cursor_prints:
  assumes "con_inv s"
  shows "prints (term_goto x y) [] s (console_set_cursor x y s)"
    and "sb_view (console_set_cursor x y s) = sb_view s"
  using assms
  by (auto simp: prints_def console_set_cursor_def Let_def term_goto_def)
    (auto simp: con_inv_def con_shape_def mirrored_def con_term_def sb_lines_def con_frame_def)

lemma console_init_wp:
  assumes "con_shape s"
  shows "wp (console_init s) (\<lambda>s'. con_inv s' \<and> con_term s' = term_blank (vga_color s) (con_term s) \<and>
    con_frame s' = con_frame s \<and> sb_view s' = 0)"
proof -
  let ?s = "outb 0x3D5 0 (outb 0x3D4 0x0D (outb 0x3D5 0 (outb 0x3D4 0x0C (serial_init s))))"
  have t: "\<exists>t. ?s = s\<lparr>trace := t\<rparr>"
    by (simp add: serial_init_def Let_def outb_def, rule exI, rule refl)
  then obtain t where t: "?s = s\<lparr>trace := t\<rparr>" ..
  have "con_shape (s\<lparr>trace := t\<rparr>)" using assms by (simp add: con_shape_def)
  from console_clear_wp [OF this] show ?thesis
    by (auto simp: console_init_def Let_def t prints_def elim!: wp_mono)
qed

section \<open>The interface of a character device\<close>

text \<open>What the callers of \<open>console_putc\<close> rely on: each character is drawn, sent and nothing else
  changes. Text routines need only this.\<close>

locale char_device =
  fixes put :: "'h \<Rightarrow> char \<Rightarrow> 's \<Rightarrow> 's option"
    and live :: "'h \<Rightarrow> bool"
    and inv :: "'s \<Rightarrow> bool"
    and shown :: "'s \<Rightarrow> bool"
    and view :: "'s \<Rightarrow> 'v"
    and draw :: "'f \<Rightarrow> char \<Rightarrow> 'v \<Rightarrow> 'v"
    and sent :: "'s \<Rightarrow> 'b list"
    and enc :: "char \<Rightarrow> 'b"
    and frame :: "'s \<Rightarrow> 'f"
  assumes put_wp: "live h \<Longrightarrow> inv s \<Longrightarrow> wp (put h c s) (\<lambda>s'. inv s' \<and> shown s' \<and>
      view s' = draw (frame s) c (view s) \<and> sent s' = sent s @ [enc c] \<and> frame s' = frame s)"
begin

lemma puts_wp:
  assumes "live h" and "inv s"
  shows "wp (for_each cs (put h) s) (\<lambda>s'. inv s' \<and> (cs \<noteq> [] \<longrightarrow> shown s') \<and>
      view s' = fold (draw (frame s)) cs (view s) \<and> sent s' = sent s @ map enc cs \<and> frame s' = frame s)"
  using assms(2)
proof (induction cs arbitrary: s)
  case Nil
  then show ?case by simp
next
  case (Cons c cs)
  show ?case unfolding for_each.simps
  proof (rule wp_seq [OF put_wp [OF assms(1) Cons.prems]])
    fix t
    assume t: "inv t \<and> shown t \<and> view t = draw (frame s) c (view s) \<and>
      sent t = sent s @ [enc c] \<and> frame t = frame s"
    then have "inv t" by simp
    from Cons.IH [OF this] show "wp (for_each cs (put h) t) (\<lambda>s'. inv s' \<and> (c # cs \<noteq> [] \<longrightarrow> shown s') \<and>
      view s' = fold (draw (frame s)) (c # cs) (view s) \<and> sent s' = sent s @ map enc (c # cs) \<and>
      frame s' = frame s)"
      using t by (cases "cs = []") (simp, auto elim: wp_mono)
  qed
qed

end

definition frame_color :: "bool \<times> u8 \<times> char list \<times> nat \<times> nat \<times> bool \<times> 'a \<Rightarrow> u8" where
  "frame_color f = fst (snd f)"

lemma frame_color [simp]: "frame_color (con_frame s) = vga_color s"
  by (simp add: frame_color_def con_frame_def)

interpretation console_out: char_device console_putc uart_ready con_inv "\<lambda>s. sb_view s = 0"
  con_term "\<lambda>f. term_put (frame_color f)" "\<lambda>s. serial_out (trace s)" byte_of con_frame
proof unfold_locales
  fix h :: hardware and s :: "'a console_scheme" and c
  assume "uart_ready h" and "con_inv s"
  from putc_wp [OF this(2,1), of c] show "wp (console_putc h c s) (\<lambda>s'. con_inv s' \<and> sb_view s' = 0 \<and>
      con_term s' = term_put (frame_color (con_frame s)) c (con_term s) \<and>
      serial_out (trace s') = serial_out (trace s) @ [byte_of c] \<and> con_frame s' = con_frame s)"
    by (rule wp_mono) (simp add: prints_def)
qed

text \<open>Drawing a string.\<close>

definition term_write :: "u8 \<Rightarrow> string \<Rightarrow> terminal \<Rightarrow> terminal" where
  "term_write color str t = fold (term_put color) str t"

lemma term_write_simps [simp]:
  "term_write color [] t = t"
  "term_write color (c # cs) t = term_write color cs (term_put color c t)"
  "term_write color (as @ bs) t = term_write color bs (term_write color as t)"
  by (simp_all add: term_write_def)

lemma puts_prints:
  assumes "con_inv s" and "uart_ready hw"
  shows "wp (for_each str (console_putc hw) s) (prints (term_write (vga_color s) str) (map byte_of str) s)"
  using console_out.puts_wp [OF assms(2,1), of str]
  by (rule wp_mono) (auto simp: prints_def term_write_def)

lemma render_view_wp:
  assumes "con_shape s"
  shows "wp (render_view s) (\<lambda>s'. con_shape s' \<and>
    vga_buffer s' = concat (take 25 (drop (sb_count s - sb_view s) (document s))) \<and>
    con_term s' = con_term s \<and> con_frame s' = con_frame s \<and> sb_view s' = sb_view s)"
  using assms window_length [OF assms]
  by (simp add: render_view_eq [OF assms])
    (simp add: window_def update_cursor_def Let_def outb_def con_shape_def con_term_def sb_lines_def con_frame_def)


section \<open>The scrollback as a log\<close>

interpretation scrollback_log: bounded_log scrollback_push sb_lines con_shape
  "\<lambda>line. length line = 80" "\<lambda>line. line" 100
proof unfold_locales
  fix s :: "'a console_scheme" and line :: "u16 list"
  assume "con_shape s" and "length line = 80"
  then show "wp (scrollback_push line s) (\<lambda>s'. con_shape s' \<and> sb_lines s' = lastn 100 (sb_lines s @ [line]))"
    by (simp add: scrollback_push_eq after_push_shape after_push_lines)
next
  fix s :: "'a console_scheme"
  assume "con_shape s"
  then show "length (sb_lines s) \<le> 100" by (simp add: sb_lines_def con_shape_def)
qed

section \<open>Properties\<close>

text \<open>A machine whose serial line is always free, and the console of a machine that has just been
  switched on with a cleared video memory.\<close>

definition quiet_machine :: hardware where
  "quiet_machine = \<lparr>port_in = \<lambda>t p. 0x20, cpuid_ebx = \<lambda>leaf. 0, mem8 = \<lambda>a. None, image_end = 0x200000,
     nmi_wakes = 0, stack_word = \<lambda>i. 0xCCCCCCCC\<rparr>"

lemma quiet_machine_ready [simp]: "uart_ready quiet_machine"
  by (auto simp: uart_ready_def ready_after_def quiet_machine_def)

definition blank_console :: console where
  "blank_console = console_statics (replicate 2000 0)"

lemma blank_console_inv [simp]: "con_inv blank_console"
  using concat_replicate_rows [of 25 80 "0::u16"]
  by (simp add: blank_console_def console_statics_def con_inv_def con_shape_def mirrored_def)

text \<open>C4. \<open>console_putc\<close> implements the abstract terminal: on every well-formed console and every
  character (newline, backspace, wrap-around at the right edge and scrolling at the bottom
  included) it returns, sends exactly that character to the serial port, changes the screen,
  scrollback and cursor as the terminal specification says, shows the live screen in video
  memory, keeps all arrays and indices in range, and touches nothing else.\<close>

theorem console_putc_refines:
  assumes "con_inv s" and "uart_ready hw"
  shows "wp (console_putc hw c s) (\<lambda>s'. con_inv s' \<and> con_term s' = term_put (vga_color s) c (con_term s) \<and>
    vga_buffer s' = concat (screen_buffer s') \<and>
    serial_out (trace s') = serial_out (trace s) @ [byte_of c] \<and> con_frame s' = con_frame s)"
  by (rule wp_mono [OF putc_wp [OF assms]]) (auto simp: prints_def con_inv_def mirrored_def)

theorem console_putc_refines_witness:
  "wp (console_putc quiet_machine (CHR ''A'') blank_console) (\<lambda>s'. con_inv s' \<and>
    con_term s' = term_put (vga_color blank_console) (CHR ''A'') (con_term blank_console) \<and>
    vga_buffer s' = concat (screen_buffer s') \<and>
    serial_out (trace s') = serial_out (trace blank_console) @ [0x41] \<and> con_frame s' = con_frame blank_console)"
  using console_putc_refines [OF blank_console_inv quiet_machine_ready, of "CHR ''A''"]
  by (simp add: byte_of_def)

text \<open>C35. The busy-wait of \<open>serial_putc\<close>: the call returns exactly on machines whose line
  status register reports an empty transmitter after finitely many polls; on all others the
  kernel hangs there. When it returns the last port access is the write of the character.\<close>

theorem serial_putc_returns:
  "(\<exists>s'. serial_putc hw c s = Some s' \<and> hd (trace s') = OutB SERIAL_PORT (byte_of c))
    \<longleftrightarrow> (\<exists>n. ready_after hw n (trace s))"
proof
  assume "\<exists>s'. serial_putc hw c s = Some s' \<and> hd (trace s') = OutB SERIAL_PORT (byte_of c)"
  then obtain t where "serial_wait hw s = Some t"
    by (auto simp: serial_putc_def split: Option.bind_splits)
  then show "\<exists>n. ready_after hw n (trace s)" by (rule serial_wait_returns)
next
  assume "\<exists>n. ready_after hw n (trace s)"
  from serial_wait_wp [OF this]
  show "\<exists>s'. serial_putc hw c s = Some s' \<and> hd (trace s') = OutB SERIAL_PORT (byte_of c)"
    by (auto simp: serial_putc_def)
qed

text \<open>The scrollback ring keeps the most recent 100 lines, in order, whatever
  number of lines is pushed and wherever the ring starts.\<close>

theorem scrollback_keeps_last:
  assumes "con_shape s" and "list_all (\<lambda>line. length line = 80) ls"
  shows "wp (for_each ls scrollback_push s)
    (\<lambda>s'. con_shape s' \<and> sb_lines s' = lastn 100 (sb_lines s @ ls))"
  using scrollback_log.push_all [OF assms] by simp

theorem scrollback_keeps_last_witness:
  "wp (for_each [replicate 80 1, replicate 80 2] scrollback_push blank_console)
    (\<lambda>s'. con_shape s' \<and> sb_lines s' = [replicate 80 1, replicate 80 2])"
proof -
  have "con_shape blank_console" using con_invD(1) [OF blank_console_inv] .
  moreover have "sb_lines blank_console = []"
    by (simp add: sb_lines_def blank_console_def console_statics_def)
  ultimately show ?thesis
    using scrollback_keeps_last [of blank_console "[replicate 80 1, replicate 80 2]"]
    by (simp del: wp_bind for_each.simps)
qed

text \<open>C36. \<open>render_view\<close> shows the document of scrollback and live screen through a window of 25
  lines that ends \<open>sb_view\<close> lines above the bottom, and changes nothing but video memory and
  the hardware cursor.\<close>

theorem render_view_shows_window:
  assumes "con_shape s"
  shows "wp (render_view s) (\<lambda>s'. con_shape s' \<and>
    vga_buffer s' = concat (take 25 (drop (sb_count s - sb_view s) (document s))) \<and>
    con_term s' = con_term s \<and> con_frame s' = con_frame s \<and> sb_view s' = sb_view s)"
  by (rule render_view_wp [OF assms])

theorem render_view_shows_window_witness:
  "wp (render_view blank_console) (\<lambda>s'. con_shape s' \<and>
    vga_buffer s' = concat (take 25 (drop 0 (document blank_console))) \<and>
    con_term s' = con_term blank_console \<and> con_frame s' = con_frame blank_console \<and> sb_view s' = 0)"
  using render_view_shows_window [OF con_invD(1) [OF blank_console_inv]]
  by (simp add: blank_console_def console_statics_def)

text \<open>\<open>console_init\<close> puts the console of a freshly booted machine, whatever video memory holds,
  into the cleared state: a blank light-grey screen shown in video memory, an empty
  scrollback, the cursor in the corner.\<close>

theorem console_init_clears:
  assumes "length vga = 2000"
  shows "wp (console_init (console_statics vga)) (\<lambda>s'. con_inv s' \<and>
    con_term s' = \<lparr>t_hist = [], t_rows = replicate 25 (replicate 80 0x0720), t_x = 0, t_y = 0\<rparr> \<and>
    vga_buffer s' = concat (screen_buffer s') \<and> sb_view s' = 0 \<and>
    con_frame s' = con_frame (console_statics vga))"
proof -
  have "con_shape (console_statics vga)"
    using assms by (simp add: con_shape_def console_statics_def)
  moreover have "cell 0x07 (CHR '' '') = 0x0720" by (simp add: cell_def cell_int_def byte_of_def)
  ultimately show ?thesis
    using console_init_wp [of "console_statics vga"]
    by (auto elim!: wp_mono simp: term_blank_def console_statics_def con_inv_def mirrored_def)
qed

theorem console_init_clears_witness:
  "wp (console_init (console_statics (replicate 2000 0x1234))) (\<lambda>s'. con_inv s' \<and>
    con_term s' = \<lparr>t_hist = [], t_rows = replicate 25 (replicate 80 0x0720), t_x = 0, t_y = 0\<rparr> \<and>
    vga_buffer s' = concat (screen_buffer s') \<and> sb_view s' = 0 \<and>
    con_frame s' = con_frame (console_statics (replicate 2000 0x1234)))"
  by (rule console_init_clears) simp

text \<open>The colour of a character cell: \<open>console_putc\<close> ors the colour with a \<open>char\<close>, which is
  signed, so a character from 128 on (the box-drawing characters of the panes) overwrites the
  colour byte with \<open>0xFF\<close>, bright white on blinking grey, instead of the console's colour.\<close>

theorem cell_colour:
  "cell col c = (if of_char c < (128 :: nat) then push_bit 8 (ucast col) OR ucast (byte_of c)
     else 0xFF00 OR ucast (byte_of c))"
proof -
  have n: "of_char c < (256 :: nat)" by simp
  then have u: "unat (byte_of c) = of_char c" by (simp add: byte_of_def unat_of_nat)
  have "bit (of_char c :: nat) 7 \<longleftrightarrow> odd ((of_char c :: nat) div 128)" by (simp add: bit_iff_odd)
  also have "\<dots> \<longleftrightarrow> 128 \<le> (of_char c :: nat)"
  proof (cases "128 \<le> (of_char c :: nat)")
    case True
    with n have "(of_char c :: nat) div 128 = 1" by (intro div_nat_eqI) simp_all
    with True show ?thesis by simp
  qed simp
  finally have b7: "bit (byte_of c) 7 \<longleftrightarrow> 128 \<le> (of_char c :: nat)"
    unfolding u [symmetric] by (simp add: bit_unsigned_iff)
  have high: "bit (0xFF00 :: int) k \<longleftrightarrow> 8 \<le> k \<and> k < 16" for k
  proof -
    have "(0xFF00 :: int) = push_bit 8 (mask 8)" by (simp add: mask_eq_exp_minus_1)
    then show ?thesis unfolding \<open>(0xFF00 :: int) = push_bit 8 (mask 8)\<close> by (auto simp: bit_push_bit_iff bit_mask_iff)
  qed
  show ?thesis
  proof (cases "of_char c < (128 :: nat)")
    case True
    then have "\<not> bit (byte_of c) k" if "7 \<le> k" for k
      using bit_above [of "byte_of c" 7 k] that u by simp
    with True show ?thesis
      by (intro bit_word_eqI) (auto simp: cell_def cell_int_def bit_simps min_def)
  next
    case False
    then have "bit (byte_of c) 7" using b7 by simp
    with False show ?thesis
      by (intro bit_word_eqI) (auto simp: cell_def cell_int_def bit_simps min_def high le_less)
  qed
qed

end
