(* ===== verification/C_String.thy ===== *)
theory C_String
  imports LifeOS_Prelude
begin

text \<open>
  \<open>src/lib/string.c\<close>: the kernel's only string routine. The two pointers walk two arrays in
  step; reading past the end of either array is \<open>None\<close>. The lemmas show that on terminated
  arrays it always returns, that it returns 0 exactly on equal strings, and that its sign
  is the byte-wise lexicographic order.
\<close>

fun strcmp :: "char list \<Rightarrow> char list \<Rightarrow> int option" where
  "strcmp (a # s1) (b # s2) =
     (if a \<noteq> NUL \<and> a = b then strcmp s1 s2 else Some (uchar a - uchar b))"
| "strcmp _ _ = None"

lemma uchar_inject [simp]: "uchar a = uchar b \<longleftrightarrow> a = b"
  by (simp add: uchar_def)

lemma uchar_NUL [simp]: "uchar NUL = 0"
  by (simp add: uchar_def)

lemma uchar_nonneg [simp]: "0 \<le> uchar c"
  by (simp add: uchar_def)

lemma uchar_pos: "c \<noteq> NUL \<Longrightarrow> 0 < uchar c"
  using uchar_nonneg [of c] uchar_inject [of c NUL] by (simp add: less_le)

text \<open>The byte-wise order of strings.\<close>

definition str_less :: "string \<Rightarrow> string \<Rightarrow> bool" where
  "str_less s t \<longleftrightarrow> (s, t) \<in> lexord {(a, b). uchar a < uchar b}"

lemma str_less_simps [simp]:
  "str_less [] t \<longleftrightarrow> t \<noteq> []"
  "\<not> str_less s []"
  "str_less (a # s) (b # t) \<longleftrightarrow> uchar a < uchar b \<or> a = b \<and> str_less s t"
  by (cases t; simp add: str_less_def) (simp_all add: str_less_def)

lemma strcmp_wp:
  assumes "terminated a" and "terminated b"
  shows "wp (strcmp a b)
    (\<lambda>r. (r = 0 \<longleftrightarrow> c_str a = c_str b) \<and> (r < 0 \<longleftrightarrow> str_less (c_str a) (c_str b)))"
  using assms
proof (induction a b rule: strcmp.induct)
  case (1 a s1 b s2)
  then show ?case
    using uchar_pos [of a] uchar_pos [of b] by auto
qed auto

lemma strcmp_eq_0:
  assumes "terminated a" and "terminated b"
  shows "strcmp a b = Some 0 \<longleftrightarrow> c_str a = c_str b"
  using strcmp_wp [OF assms] by (auto simp: wp_iff_Some)

lemma strcmp_Some: "terminated a \<Longrightarrow> terminated b \<Longrightarrow> \<exists>r. strcmp a b = Some r"
  using strcmp_wp [of a b] by (auto simp: wp_iff_Some)

text \<open>The comparison \<open>strcmp(a, b) == 0\<close> as the code uses it.\<close>

definition str_eq :: "char list \<Rightarrow> char list \<Rightarrow> bool option" where
  "str_eq a b = map_option (\<lambda>r. r = 0) (strcmp a b)"

lemma str_eq_terminated [simp]:
  assumes "terminated a" and "terminated b"
  shows "str_eq a b = Some (c_str a = c_str b)"
proof -
  obtain r where r: "strcmp a b = Some r" using strcmp_Some [OF assms] by blast
  then show ?thesis using strcmp_eq_0 [OF assms] by (auto simp: str_eq_def)
qed

section \<open>The bounded copy loop\<close>

text \<open>The loop \<open>while (src[i] && i < n) { dst[i] = src[i]; i++; }\<close>, which the file system and the
  shell both use to store strings. It yields the final \<open>i\<close> and \<open>dst\<close>.\<close>

function copy_until :: "nat \<Rightarrow> char list \<Rightarrow> nat \<Rightarrow> char list \<Rightarrow> (nat \<times> char list) option" where
  "copy_until n src i dst =
     (case rd src i of None \<Rightarrow> None | Some c \<Rightarrow>
       if c \<noteq> NUL \<and> i < n
       then (case wr dst i c of None \<Rightarrow> None | Some dst' \<Rightarrow> copy_until n src (i + 1) dst')
       else Some (i, dst))"
  by pat_completeness auto
termination
  by (relation "measure (\<lambda>(n, src, i, dst). n - i)") auto

declare copy_until.simps [simp del]

lemma terminated_length: "terminated src \<Longrightarrow> length (c_str src) < length src"
  by (induction src) auto

lemma nth_c_str_end: "terminated src \<Longrightarrow> src ! length (c_str src) = NUL"
  by (induction src) auto

lemma nth_c_str: "i < length (c_str src) \<Longrightarrow> src ! i = c_str src ! i \<and> src ! i \<noteq> NUL"
proof -
  assume i: "i < length (c_str src)"
  have eq: "c_str src ! i = src ! i" using i unfolding c_str_def by (rule takeWhile_nth)
  have "c_str src ! i \<in> set (c_str src)" using i by (rule nth_mem)
  then have "c_str src ! i \<noteq> NUL" using c_str_no_NUL [of src] by auto
  with eq show ?thesis by simp
qed

lemma copy_until_from:
  assumes "terminated src" and "i \<le> length (take n (c_str src))"
    and "length (take n (c_str src)) \<le> length dst"
  shows "copy_until n src i (overwrite 0 (take i (c_str src)) dst)
    = Some (length (take n (c_str src)), overwrite 0 (take n (c_str src)) dst)"
  using assms(2)
proof (induction "n - i" arbitrary: i rule: less_induct)
  case less
  let ?s = "c_str src"
  have len: "length ?s < length src" using assms(1) by (rule terminated_length)
  have i: "i < length src" "i \<le> n" "i \<le> length ?s" using less.prems len by auto
  show ?case
  proof (cases "i < n \<and> i < length ?s")
    case True
    then have "src ! i = ?s ! i" "src ! i \<noteq> NUL" using nth_c_str [of i src] by auto
    moreover have "(overwrite 0 (take i ?s) dst)[i := ?s ! i] = overwrite 0 (take (Suc i) ?s) dst"
      using overwrite_snoc [of 0 "take i ?s" dst "?s ! i"] True assms(3)
      by (simp add: take_Suc_conv_app_nth min_def split: if_splits)
    moreover have "i < length (overwrite 0 (take i ?s) dst)"
      using True assms(3) by (simp add: min_def split: if_splits)
    moreover have "n - Suc i < n - i" using True by (intro diff_less_mono2) auto
    ultimately show ?thesis
      using less.hyps [of "Suc i"] True i by (subst copy_until.simps) simp
  next
    case False
    then have end_i: "i = length (take n ?s)" and t: "take i ?s = take n ?s" using i by auto
    have "src ! i = NUL \<or> \<not> i < n"
      using False i nth_c_str_end [OF assms(1)] by (cases "i < length ?s") auto
    then show ?thesis using i end_i t by (subst copy_until.simps) auto
  qed
qed

lemma copy_until_eq:
  assumes "terminated src" and "length (take n (c_str src)) \<le> length dst"
  shows "copy_until n src 0 dst
    = Some (length (take n (c_str src)), overwrite 0 (take n (c_str src)) dst)"
  using copy_until_from [of src 0 n dst] assms by simp

text \<open>The string a destination holds once the terminator is stored behind the copied part.\<close>

lemma c_str_append_NUL: "NUL \<notin> set xs \<Longrightarrow> c_str (xs @ NUL # ys) = xs"
  by (induction xs) auto

lemma c_str_overwrite_NUL:
  assumes "NUL \<notin> set xs" and "length xs < length dst"
  shows "c_str ((overwrite 0 xs dst)[length xs := NUL]) = xs"
    and "terminated ((overwrite 0 xs dst)[length xs := NUL])"
proof -
  have eq: "(overwrite 0 xs dst)[length xs := NUL] = xs @ NUL # drop (Suc (length xs)) dst"
    using overwrite_snoc [of 0 xs dst NUL] assms(2) by (simp add: overwrite_def)
  show "c_str ((overwrite 0 xs dst)[length xs := NUL]) = xs"
    unfolding eq using assms(1) by (rule c_str_append_NUL)
  show "terminated ((overwrite 0 xs dst)[length xs := NUL])"
    unfolding eq by (simp add: terminated_def)
qed

section \<open>Properties\<close>

text \<open>C37. \<open>strcmp\<close> on two terminated arrays returns, reads inside both arrays only, is 0 exactly
  when the arrays hold the same string, and is negative exactly when the first string comes
  first in the byte-wise (unsigned) lexicographic order.\<close>

theorem strcmp_orders:
  assumes "terminated a" and "terminated b"
  shows "wp (strcmp a b) (\<lambda>r. (r = 0 \<longleftrightarrow> c_str a = c_str b) \<and>
    (r < 0 \<longleftrightarrow> (c_str a, c_str b) \<in> lexord {(x, y). uchar x < uchar y}))"
  using strcmp_wp [OF assms] by (simp add: str_less_def)

theorem strcmp_orders_witness:
  "wp (strcmp (c_lit ''info'') (c_lit ''init'')) (\<lambda>r. (r = 0 \<longleftrightarrow> ''info'' = ''init'') \<and>
    (r < 0 \<longleftrightarrow> (''info'', ''init'') \<in> lexord {(x, y). uchar x < uchar y}))"
  using strcmp_orders [of "c_lit ''info''" "c_lit ''init''"] by simp

end
