(* ===== verification/Console_Text.thy ===== *)
theory Console_Text
  imports Terminal C_String
begin

text \<open>
  The text routines of \<open>src/kernel/console/console.c\<close> built on \<open>console_putc\<close>: strings, decimal
  and hexadecimal numbers. Each is shown to write exactly the string it should, through the
  character-device interface; the decimal and hexadecimal strings read back as the number.
\<close>

section \<open>Routines\<close>

fun console_write :: "hardware \<Rightarrow> char list \<Rightarrow> 'a console_scheme \<Rightarrow> 'a console_scheme option" where
  "console_write hw [] s = None"
| "console_write hw (c # cs) s =
     (if c = NUL then Some s
      else do { s \<leftarrow> console_putc hw c s; console_write hw cs s })"

text \<open>The first loop of \<open>console_write_dec\<close> fills an uninitialised buffer of 21 characters
  (\<open>None\<close> marks a character not written yet) from the lowest digit up.\<close>

fun dec_fill :: "nat \<Rightarrow> nat \<Rightarrow> char option list \<Rightarrow> (nat \<times> char option list) option" where
  "dec_fill value i buf =
     (if value > 0 \<and> i < 20 then do {
        buf \<leftarrow> wr buf i (Some (char_of (48 + value mod 10)));
        dec_fill (value div 10) (i + 1) buf }
      else Some (i, buf))"

declare dec_fill.simps [simp del]

definition console_write_dec :: "hardware \<Rightarrow> nat \<Rightarrow> 'a console_scheme \<Rightarrow> 'a console_scheme option" where
  "console_write_dec hw value s =
     (if value = 0 then console_putc hw (CHR ''0'') s
      else do {
        (i, buf) \<leftarrow> dec_fill value 0 (replicate 21 None);
        for_each (rev [0..<i]) (\<lambda>i s. do {
          x \<leftarrow> rd buf i; c \<leftarrow> x; console_putc hw c s }) s })"

definition hex_table :: "char list" where
  "hex_table = c_lit ''0123456789ABCDEF''"

definition console_write_hex8 :: "hardware \<Rightarrow> u8 \<Rightarrow> 'a console_scheme \<Rightarrow> 'a console_scheme option" where
  "console_write_hex8 hw value s = do {
     c \<leftarrow> rd hex_table (unat (drop_bit 4 value AND 0xF));
     s \<leftarrow> console_putc hw c s;
     c \<leftarrow> rd hex_table (unat (value AND 0xF));
     console_putc hw c s }"

definition console_write_hex16 :: "hardware \<Rightarrow> u16 \<Rightarrow> 'a console_scheme \<Rightarrow> 'a console_scheme option" where
  "console_write_hex16 hw value s = do {
     s \<leftarrow> console_write_hex8 hw (ucast (drop_bit 8 value AND 0xFF)) s;
     console_write_hex8 hw (ucast (value AND 0xFF)) s }"

definition console_write_hex32 :: "hardware \<Rightarrow> u32 \<Rightarrow> 'a console_scheme \<Rightarrow> 'a console_scheme option" where
  "console_write_hex32 hw value s = do {
     s \<leftarrow> console_write_hex16 hw (ucast (drop_bit 16 value AND 0xFFFF)) s;
     console_write_hex16 hw (ucast (value AND 0xFFFF)) s }"

definition console_write_hex64 :: "hardware \<Rightarrow> u64 \<Rightarrow> 'a console_scheme \<Rightarrow> 'a console_scheme option" where
  "console_write_hex64 hw value s = do {
     s \<leftarrow> console_write_hex32 hw (ucast (drop_bit 32 value)) s;
     console_write_hex32 hw (ucast (value AND 0xFFFFFFFF)) s }"

section \<open>Strings\<close>

lemma console_write_eq:
  "terminated a \<Longrightarrow> console_write hw a s = for_each (c_str a) (console_putc hw) s"
proof (induction a arbitrary: s)
  case (Cons c a)
  show ?case
  proof (cases "c = NUL")
    case False
    with Cons.prems have t: "terminated a" by simp
    with False show ?thesis
      by (cases "console_putc hw c s") (simp_all add: Cons.IH [OF t])
  qed simp
qed simp

text \<open>\<open>writes str\<close>: the effect of writing a string.\<close>

definition writes :: "string \<Rightarrow> 'a console_scheme \<Rightarrow> 'a console_scheme \<Rightarrow> bool" where
  "writes str s = prints (term_write (vga_color s) str) (map byte_of str) s"

lemma writesD:
  assumes "writes str s s'"
  shows "con_inv s'" "con_term s' = term_write (vga_color s) str (con_term s)" "con_frame s' = con_frame s"
    "serial_out (trace s') = serial_out (trace s) @ map byte_of str" "vga_color s' = vga_color s"
    "str \<noteq> [] \<Longrightarrow> sb_view s' = 0"
  using assms con_frame_color [of s' s] by (auto simp: writes_def prints_def)

lemma writes_Nil: "con_inv s \<Longrightarrow> writes [] s s"
  by (simp add: writes_def prints_def)

lemma writes_trans:
  assumes "writes as s t" and "writes bs t u" and "as = [] \<or> bs \<noteq> []"
  shows "writes (as @ bs) s u"
proof -
  have c: "vga_color t = vga_color s" by (rule writesD(5) [OF assms(1)])
  have "prints (\<lambda>x. term_write (vga_color s) bs (term_write (vga_color s) as x))
      (map byte_of as @ map byte_of bs) s u"
    using assms c by (intro prints_trans [of _ _ s t]) (simp_all add: writes_def)
  then show ?thesis by (simp add: writes_def prints_def)
qed

lemma putc_writes: "con_inv s \<Longrightarrow> uart_ready hw \<Longrightarrow> wp (console_putc hw c s) (writes [c] s)"
  using puts_prints [of s hw "[c]"] by (simp add: writes_def)

lemma console_write_wp:
  assumes "con_inv s" and "uart_ready hw" and "terminated a"
  shows "wp (console_write hw a s) (writes (c_str a) s)"
  using puts_prints [OF assms(1,2), of "c_str a"] console_write_eq [OF assms(3), of hw s]
  by (simp add: writes_def)

lemma writes_seq:
  assumes "wp m (writes as s)" and "\<And>t. con_inv t \<Longrightarrow> vga_color t = vga_color s \<Longrightarrow> wp (f t) (writes bs t)"
    and "as = [] \<or> bs \<noteq> []"
  shows "wp (Option.bind m f) (writes (as @ bs) s)"
proof (rule wp_seq [OF assms(1)])
  fix t assume t: "writes as s t"
  from assms(2) [OF writesD(1,5) [OF t]] show "wp (f t) (writes (as @ bs) s)"
    by (rule wp_mono) (rule writes_trans [OF t _ assms(3)])
qed

section \<open>Decimal numbers\<close>

definition digit :: "nat \<Rightarrow> char" where
  "digit d = char_of (48 + d)"

fun rev_digits :: "nat \<Rightarrow> string" where
  "rev_digits n = (if n = 0 then [] else digit (n mod 10) # rev_digits (n div 10))"

declare rev_digits.simps [simp del]

definition decimal :: "nat \<Rightarrow> string" where
  "decimal n = (if n = 0 then ''0'' else rev (rev_digits n))"

definition read_decimal :: "string \<Rightarrow> nat" where
  "read_decimal str = foldl (\<lambda>a c. 10 * a + (of_char c - 48)) 0 str"

lemma digit_value: "d < 10 \<Longrightarrow> (of_char (digit d) :: nat) - 48 = d"
  by (simp add: digit_def)

lemma rev_digits_length: "n < 10 ^ k \<Longrightarrow> length (rev_digits n) \<le> k"
proof (induction k arbitrary: n)
  case 0
  then show ?case by (simp add: rev_digits.simps)
next
  case (Suc k)
  then have "n div 10 < 10 ^ k" by (simp add: less_mult_imp_div_less mult.commute)
  with Suc.IH show ?case by (simp add: rev_digits.simps [of n])
qed

lemma read_rev_digits: "read_decimal (rev (rev_digits n)) = n"
proof (induction n rule: rev_digits.induct)
  case (1 n)
  show ?case
  proof (cases "n = 0")
    case True
    then show ?thesis by (simp add: rev_digits.simps read_decimal_def)
  next
    case False
    with 1 show ?thesis
      by (simp add: rev_digits.simps [of n] read_decimal_def digit_value)
  qed
qed

lemma read_decimal: "read_decimal (decimal n) = n"
  using read_rev_digits [of n] by (auto simp: decimal_def read_decimal_def)

text \<open>The fill loop stops with the digits in the buffer, below the buffer's end.\<close>

lemma dec_fill_eq:
  assumes "i + length (rev_digits v) \<le> 20" and "length ds = i"
  shows "dec_fill v i (map Some ds @ replicate (21 - i) None) = Some (i + length (rev_digits v),
    map Some (ds @ rev_digits v) @ replicate (21 - i - length (rev_digits v)) None)"
  using assms
proof (induction v arbitrary: i ds rule: rev_digits.induct)
  case (1 n)
  show ?case
  proof (cases "n = 0")
    case True
    then show ?thesis by (simp add: dec_fill.simps rev_digits.simps)
  next
    case False
    let ?c = "digit (n mod 10)"
    have len: "length (rev_digits n) = Suc (length (rev_digits (n div 10)))"
      using False by (simp add: rev_digits.simps [of n])
    have i: "i < 20" using 1 len by simp
    then have "replicate (21 - i) (None :: char option) = None # replicate (21 - Suc i) None"
      by (simp add: Suc_diff_Suc [symmetric] del: replicate_Suc) (simp add: Suc_diff_le)
    then have "(map Some ds @ replicate (21 - i) None)[i := Some ?c]
        = map Some (ds @ [?c]) @ replicate (21 - Suc i) None"
      using 1 by (simp add: list_update_append)
    with 1 "1.IH" [OF False, of "Suc i" "ds @ [?c]"] False i len show ?thesis
      by (subst dec_fill.simps) (simp add: rev_digits.simps [of n] digit_def [symmetric])
  qed
qed

lemma for_each_rev_upt:
  "for_each (rev [0..<length xs]) (\<lambda>i. f (xs ! i)) s = for_each (rev xs) f s"
proof -
  have "for_each (rev [0..<length xs]) (\<lambda>i. f (xs ! i)) s
    = for_each (map (\<lambda>i. xs ! i) (rev [0..<length xs])) f s"
    by (simp add: for_each_map)
  also have "map (\<lambda>i. xs ! i) (rev [0..<length xs]) = rev xs"
    by (metis map_nth rev_map)
  finally show ?thesis .
qed

lemma console_write_dec_eq:
  assumes "v < 2 ^ 64"
  shows "console_write_dec hw v s = for_each (decimal v) (console_putc hw) s"
proof (cases "v = 0")
  case True
  then show ?thesis by (simp add: console_write_dec_def decimal_def)
next
  case False
  let ?ds = "rev_digits v"
  have len: "length ?ds \<le> 20" by (rule rev_digits_length) (use assms in simp)
  have "dec_fill v 0 (replicate 21 None) = Some (length ?ds, map Some ?ds @ replicate (21 - length ?ds) None)"
    using dec_fill_eq [of 0 v "[]"] len by simp
  moreover have "for_each (rev [0..<length ?ds]) (\<lambda>i s. do {
      x \<leftarrow> rd (map Some ?ds @ replicate (21 - length ?ds) None) i; c \<leftarrow> x; console_putc hw c s }) s
    = for_each (rev [0..<length ?ds]) (\<lambda>i. console_putc hw (?ds ! i)) s"
    using len by (intro for_each_cong) (auto simp: nth_append)
  ultimately show ?thesis
    using False by (simp add: console_write_dec_def decimal_def for_each_rev_upt)
qed

lemma console_write_dec_wp:
  assumes "con_inv s" and "uart_ready hw" and "v < 2 ^ 64"
  shows "wp (console_write_dec hw v s) (writes (decimal v) s)"
  using puts_prints [OF assms(1,2), of "decimal v"]
  by (simp add: console_write_dec_eq [OF assms(3)] writes_def)

section \<open>Hexadecimal numbers\<close>

definition hex_digit :: "nat \<Rightarrow> char" where
  "hex_digit d = ''0123456789ABCDEF'' ! (d mod 16)"

primrec hex_string :: "nat \<Rightarrow> nat \<Rightarrow> string" where
  "hex_string 0 n = []"
| "hex_string (Suc k) n = hex_string k (n div 16) @ [hex_digit n]"

definition hex_value :: "char \<Rightarrow> nat" where
  "hex_value c = (let n = of_char c in if n < 58 then n - 48 else n - 55)"

definition read_hex :: "string \<Rightarrow> nat" where
  "read_hex str = foldl (\<lambda>a c. 16 * a + hex_value c) 0 str"

lemma length_hex_string [simp]: "length (hex_string k n) = k"
  by (induction k arbitrary: n) simp_all

lemma hex_digit_value: "hex_value (hex_digit d) = d mod 16"
proof -
  have "\<forall>k \<in> set [0..<16]. hex_value (''0123456789ABCDEF'' ! k) = k" by code_simp
  then show ?thesis by (simp add: hex_digit_def)
qed

lemma read_hex_string: "read_hex (hex_string k n) = n mod 16 ^ k"
proof (induction k arbitrary: n)
  case 0
  then show ?case by (simp add: read_hex_def)
next
  case (Suc k)
  have "read_hex (hex_string (Suc k) n) = 16 * read_hex (hex_string k (n div 16)) + n mod 16"
    by (simp add: read_hex_def hex_digit_value)
  also have "\<dots> = n mod 16 ^ Suc k"
    by (simp add: Suc mod_mult2_eq)
  finally show ?case .
qed

lemma hex_string_add: "hex_string (j + k) n = hex_string j (n div 16 ^ k) @ hex_string k n"
  by (induction k arbitrary: n) (simp_all add: div_mult2_eq)

lemma hex_string_mod: "hex_string k (n mod 16 ^ k) = hex_string k n"
proof (induction k arbitrary: n)
  case 0
  then show ?case by simp
next
  case (Suc k)
  have "n mod 16 ^ Suc k div 16 = n div 16 mod 16 ^ k"
    by (simp add: mod_mult2_eq)
  moreover have "hex_digit (n mod 16 ^ Suc k) = hex_digit n"
    by (simp add: hex_digit_def mod_mod_cancel)
  ultimately show ?case using Suc [of "n div 16"] by simp
qed

lemma rd_hex_table: "d < 16 \<Longrightarrow> rd hex_table d = Some (hex_digit d)"
proof -
  assume d: "d < 16"
  have "\<forall>k \<in> set [0..<16]. rd hex_table k = Some (''0123456789ABCDEF'' ! k)" by code_simp
  then show ?thesis using d by (simp add: hex_digit_def)
qed

lemma write_hex8_wp:
  assumes "con_inv s" and "uart_ready hw"
  shows "wp (console_write_hex8 hw v s) (writes (hex_string 2 (unat v)) s)"
proof -
  have hi: "unat (drop_bit 4 v AND 0xF) = unat v div 16 mod 16"
    and lo: "unat (v AND 0xF) = unat v mod 16"
    by (simp_all add: mask_take_bit unat_take_drop)
  have "wp (do { s \<leftarrow> console_putc hw (hex_digit (unat v div 16)) s; console_putc hw (hex_digit (unat v)) s })
    (writes ([hex_digit (unat v div 16)] @ [hex_digit (unat v)]) s)"
    by (rule writes_seq) (use putc_writes [OF _ assms(2)] assms(1) in auto)
  then show ?thesis
    by (simp add: console_write_hex8_def hi lo rd_hex_table numeral_2_eq_2 hex_digit_def)
qed

text \<open>Wider values are written as their two halves.\<close>

lemma hex_halves:
  assumes "wp m (writes (hex_string k (n div 16 ^ k mod 16 ^ k)) s)"
    and "\<And>t. con_inv t \<Longrightarrow> wp (f t) (writes (hex_string k (n mod 16 ^ k)) t)"
    and "0 < k"
  shows "wp (Option.bind m f) (writes (hex_string (k + k) n) s)"
proof -
  have "hex_string k x \<noteq> []" for x using assms(3) by (metis length_hex_string length_0_conv less_irrefl)
  then have "wp (Option.bind m f) (writes (hex_string k (n div 16 ^ k mod 16 ^ k) @ hex_string k (n mod 16 ^ k)) s)"
    using assms(1,2) by (intro writes_seq) auto
  then show ?thesis by (simp add: hex_string_add hex_string_mod)
qed

lemma unat_ucast: "unat (ucast (w :: 'a::len word) :: 'b::len word) = unat w mod 2 ^ LENGTH('b)"
  by (simp only: unsigned_ucast_eq take_bit_nat_def)

lemma write_hex16_wp:
  assumes "con_inv s" and "uart_ready hw"
  shows "wp (console_write_hex16 hw v s) (writes (hex_string 4 (unat v)) s)"
proof -
  have "wp (console_write_hex16 hw v s) (writes (hex_string (2 + 2) (unat v)) s)"
    unfolding console_write_hex16_def
    using write_hex8_wp [OF _ assms(2), of _ "ucast (drop_bit 8 v AND 0xFF)"]
      write_hex8_wp [OF _ assms(2), of _ "ucast (v AND 0xFF)"] assms(1)
    by (intro hex_halves) (simp_all add: unat_ucast mask_take_bit unat_take_drop)
  then show ?thesis by simp
qed

lemma write_hex32_wp:
  assumes "con_inv s" and "uart_ready hw"
  shows "wp (console_write_hex32 hw v s) (writes (hex_string 8 (unat v)) s)"
proof -
  have "wp (console_write_hex32 hw v s) (writes (hex_string (4 + 4) (unat v)) s)"
    unfolding console_write_hex32_def
    using write_hex16_wp [OF _ assms(2), of _ "ucast (drop_bit 16 v AND 0xFFFF)"]
      write_hex16_wp [OF _ assms(2), of _ "ucast (v AND 0xFFFF)"] assms(1)
    by (intro hex_halves) (simp_all add: unat_ucast mask_take_bit unat_take_drop)
  then show ?thesis by simp
qed

lemma write_hex64_wp:
  assumes "con_inv s" and "uart_ready hw"
  shows "wp (console_write_hex64 hw v s) (writes (hex_string 16 (unat v)) s)"
proof -
  have "unat v < 2 ^ LENGTH(64)" by (rule unsigned_less)
  then have hi: "unat v div 4294967296 mod 4294967296 = unat v div 4294967296" by simp
  have "wp (console_write_hex64 hw v s) (writes (hex_string (8 + 8) (unat v)) s)"
    unfolding console_write_hex64_def
    using write_hex32_wp [OF _ assms(2), of _ "ucast (drop_bit 32 v)"]
      write_hex32_wp [OF _ assms(2), of _ "ucast (v AND 0xFFFFFFFF)"] assms(1) hi
    by (intro hex_halves) (simp_all add: unat_ucast mask_take_bit unat_take_drop)
  then show ?thesis by simp
qed

section \<open>Properties\<close>

text \<open>\<open>console_write\<close> writes exactly the characters of a terminated string: it sends
  them to the serial port in order and draws each as the terminal specification says.\<close>

theorem console_write_draws:
  assumes "con_inv s" and "uart_ready hw" and "terminated a"
  shows "wp (console_write hw a s) (\<lambda>s'. con_inv s' \<and>
    con_term s' = fold (term_put (vga_color s)) (c_str a) (con_term s) \<and>
    serial_out (trace s') = serial_out (trace s) @ map byte_of (c_str a) \<and> con_frame s' = con_frame s)"
  by (rule wp_mono [OF console_write_wp [OF assms]]) (simp add: writes_def prints_def term_write_def)

theorem console_write_draws_witness:
  "wp (console_write quiet_machine (c_lit ''ok'') blank_console) (\<lambda>s'. con_inv s' \<and>
    con_term s' = fold (term_put (vga_color blank_console)) ''ok'' (con_term blank_console) \<and>
    serial_out (trace s') = serial_out (trace blank_console) @ [0x6F, 0x6B] \<and>
    con_frame s' = con_frame blank_console)"
  using console_write_draws [OF blank_console_inv quiet_machine_ready, of "c_lit ''ok''"]
  by (simp add: byte_of_def)

text \<open>C26. \<open>console_write_dec\<close> prints every 64-bit number in full: it never reads an
  uninitialised or out-of-range place of its 21-character buffer, and the digits it sends
  read back, base ten, as the number.\<close>

theorem console_write_dec_roundtrip:
  assumes "con_inv s" and "uart_ready hw" and "v < 2 ^ 64"
  shows "wp (console_write_dec hw v s) (\<lambda>s'. \<exists>ds. con_inv s' \<and>
    con_term s' = fold (term_put (vga_color s)) ds (con_term s) \<and>
    serial_out (trace s') = serial_out (trace s) @ map byte_of ds \<and> read_decimal ds = v)"
  by (rule wp_mono [OF console_write_dec_wp [OF assms]])
    (intro exI [where x = "decimal v"], simp add: writes_def prints_def term_write_def read_decimal)

theorem console_write_dec_roundtrip_witness:
  "wp (console_write_dec quiet_machine 18446744073709551615 blank_console) (\<lambda>s'. \<exists>ds. con_inv s' \<and>
    con_term s' = fold (term_put (vga_color blank_console)) ds (con_term blank_console) \<and>
    serial_out (trace s') = serial_out (trace blank_console) @ map byte_of ds \<and>
    read_decimal ds = 18446744073709551615)"
  by (rule console_write_dec_roundtrip [OF blank_console_inv quiet_machine_ready]) simp

text \<open>\<open>console_write_hex64\<close> prints the sixteen hexadecimal digits of every 64-bit value: they
  read back, base sixteen, as the value.\<close>

theorem console_write_hex64_roundtrip:
  assumes "con_inv s" and "uart_ready hw"
  shows "wp (console_write_hex64 hw v s) (\<lambda>s'. \<exists>ds. con_inv s' \<and> length ds = 16 \<and>
    con_term s' = fold (term_put (vga_color s)) ds (con_term s) \<and>
    serial_out (trace s') = serial_out (trace s) @ map byte_of ds \<and> read_hex ds = unat v)"
proof -
  have "unat v < 2 ^ LENGTH(64)" by (rule unsigned_less)
  then have "read_hex (hex_string 16 (unat v)) = unat v" by (simp add: read_hex_string)
  then show ?thesis
    by (intro wp_mono [OF write_hex64_wp [OF assms]] exI [where x = "hex_string 16 (unat v)"])
      (simp add: writes_def prints_def term_write_def)
qed

theorem console_write_hex64_roundtrip_witness:
  "wp (console_write_hex64 quiet_machine 0xDEADBEEF blank_console) (\<lambda>s'. \<exists>ds. con_inv s' \<and> length ds = 16 \<and>
    con_term s' = fold (term_put (vga_color blank_console)) ds (con_term blank_console) \<and>
    serial_out (trace s') = serial_out (trace blank_console) @ map byte_of ds \<and> read_hex ds = 3735928559)"
  using console_write_hex64_roundtrip [OF blank_console_inv quiet_machine_ready, where v = "0xDEADBEEF"] by simp

end
