(* ===== verification/Shell_Line.thy ===== *)
theory Shell_Line
  imports Console_Text
begin

text \<open>
  The line editor of \<open>src/kernel/console/shell.c\<close>: the command buffer with its cursor, the
  ring of eight remembered commands. \<open>Shell_Display\<close> holds the redisplay and the prompt,
  \<open>Shell_Task\<close> the loop that dispatches keys to these operations.
\<close>

section \<open>State\<close>

record shell = console +
  history :: "char list list"
  history_count :: nat
  history_index :: nat
  history_nav :: int
  cmd_buf :: "char list"
  cmd_len :: nat
  cmd_pos :: nat
  disp_len :: nat
  prompt_x :: nat
  prompt_y :: nat

abbreviation CMD_BUF_SIZE :: nat where "CMD_BUF_SIZE \<equiv> 128"
abbreviation HISTORY_LEN :: nat where "HISTORY_LEN \<equiv> 8"

section \<open>History\<close>

definition history_add :: "char list \<Rightarrow> 'a shell_scheme \<Rightarrow> 'a shell_scheme option" where
  "history_add cmd s = do {
     row \<leftarrow> rd (history s) (history_index s);
     (i, row) \<leftarrow> copy_until (CMD_BUF_SIZE - 1) cmd 0 row;
     row \<leftarrow> wr row i NUL;
     h \<leftarrow> wr (history s) (history_index s) row;
     let s = s\<lparr>history := h, history_index := (history_index s + 1) mod HISTORY_LEN\<rparr>;
     Some (if history_count s < HISTORY_LEN then s\<lparr>history_count := history_count s + 1\<rparr> else s) }"

definition history_get :: "int \<Rightarrow> 'a shell_scheme \<Rightarrow> char list option" where
  "history_get offset s =
     (if offset < 0 \<or> offset \<ge> int (history_count s) then Some (c_lit '''')
      else let idx = int (history_index s) - 1 - offset;
               idx = (if idx < 0 then idx + int HISTORY_LEN else idx)
           in if idx < 0 then None else rd (history s) (nat idx))"

section \<open>The command buffer\<close>

definition put_cmd :: "nat \<Rightarrow> char \<Rightarrow> 'a shell_scheme \<Rightarrow> 'a shell_scheme option" where
  "put_cmd i c s = do { b \<leftarrow> wr (cmd_buf s) i c; Some (s\<lparr>cmd_buf := b\<rparr>) }"

text \<open>The editing branches of \<open>shell_task\<close>, without the redisplay that follows them.\<close>

definition line_insert :: "char \<Rightarrow> 'a shell_scheme \<Rightarrow> 'a shell_scheme option" where
  "line_insert c s = do {
     s \<leftarrow> for_each (rev [cmd_pos s + 1..<cmd_len s + 1]) (\<lambda>i s. do {
            x \<leftarrow> rd (cmd_buf s) (i - 1); put_cmd i x s }) s;
     s \<leftarrow> put_cmd (cmd_pos s) c s;
     Some (s\<lparr>cmd_pos := cmd_pos s + 1, cmd_len := cmd_len s + 1\<rparr>) }"

definition line_backspace :: "'a shell_scheme \<Rightarrow> 'a shell_scheme option" where
  "line_backspace s = do {
     s \<leftarrow> for_each [sub32 (cmd_pos s) 1..<sub32 (cmd_len s) 1] (\<lambda>i s. do {
            x \<leftarrow> rd (cmd_buf s) (i + 1); put_cmd i x s }) s;
     Some (s\<lparr>cmd_len := sub32 (cmd_len s) 1, cmd_pos := sub32 (cmd_pos s) 1\<rparr>) }"

definition line_load :: "char list \<Rightarrow> 'a shell_scheme \<Rightarrow> 'a shell_scheme option" where
  "line_load h s = do {
     (n, b) \<leftarrow> copy_until (CMD_BUF_SIZE - 1) h 0 (cmd_buf s);
     Some (s\<lparr>cmd_buf := b, cmd_len := n, cmd_pos := n\<rparr>) }"

section \<open>Invariant\<close>

text \<open>The text being edited.\<close>

definition line :: "'a shell_scheme \<Rightarrow> string" where
  "line s = take (cmd_len s) (cmd_buf s)"

definition history_inv :: "'a shell_scheme \<Rightarrow> bool" where
  "history_inv s \<longleftrightarrow> grid 8 128 (history s) \<and> list_all terminated (history s) \<and>
     history_index s < 8 \<and> history_count s \<le> 8"

definition line_inv :: "'a shell_scheme \<Rightarrow> bool" where
  "line_inv s \<longleftrightarrow> length (cmd_buf s) = 128 \<and> cmd_len s \<le> 127 \<and> cmd_pos s \<le> cmd_len s \<and>
     NUL \<notin> set (line s)"

section \<open>What the history remembers\<close>

lemma history_invD:
  assumes "history_inv s"
  shows "grid 8 128 (history s)" "length (history s) = 8" "i < 8 \<Longrightarrow> length (history s ! i) = 128"
    "i < 8 \<Longrightarrow> terminated (history s ! i)" "history_index s < 8" "history_count s \<le> 8"
  using assms by (auto simp: history_inv_def list_all_length dest: grid_length grid_row)

text \<open>The remembered commands, oldest first.\<close>

definition history_slots :: "'a shell_scheme \<Rightarrow> string list" where
  "history_slots s = ring (map c_str (history s))
     ((history_index s + 8 - history_count s) mod 8) (history_count s)"

lemma history_start:
  assumes "i < 8" and "n < (8::nat)"
  shows "((i + 1) mod 8 + 8 - (n + 1)) mod 8 = (i + 8 - n) mod 8"
proof (cases "i = 7")
  case True
  have "i + 8 - n = (7 - n) + 8" using True assms(2) by simp
  then have "(i + 8 - n) mod 8 = (7 - n) mod 8" by (metis mod_add_self2)
  with True show ?thesis by simp
next
  case False
  with assms(1) have "(i + 1) mod 8 + 8 - (n + 1) = i + 8 - n" by simp
  then show ?thesis by simp
qed

lemma history_add_wp:
  assumes "history_inv s" and "terminated cmd"
  shows "wp (history_add cmd s) (\<lambda>s'. history_inv s' \<and>
    history_slots s' = lastn 8 (history_slots s @ [take 127 (c_str cmd)]) \<and>
    s' = s\<lparr>history := history s', history_index := history_index s', history_count := history_count s'\<rparr>)"
proof -
  note d = history_invD [OF assms(1)]
  let ?i = "history_index s" and ?n = "history_count s"
  let ?start = "(?i + 8 - ?n) mod 8"
  let ?t = "take 127 (c_str cmd)"
  let ?row = "(overwrite 0 ?t (history s ! ?i))[length ?t := NUL]"
  let ?h = "(history s)[?i := ?row]"
  have len: "length (history s ! ?i) = 128" using d(3,5) by simp
  have copy: "copy_until 127 cmd 0 (history s ! ?i) = Some (length ?t, overwrite 0 ?t (history s ! ?i))"
    using assms(2) len by (intro copy_until_eq) auto
  have nul: "NUL \<notin> set ?t" using c_str_no_NUL [of cmd] by (auto dest: in_set_takeD)
  have row: "c_str ?row = ?t" "terminated ?row" "length ?row = 128"
    using c_str_overwrite_NUL [OF nul, of "history s ! ?i"] len by simp_all
  have g: "grid 8 128 ?h" using d(1) row(3) by (rule grid_update)
  have allterm: "list_all terminated ?h"
    using assms(1) row(2) by (auto simp: history_inv_def list_all_iff dest: subsetD [OF set_update_subset_insert])
  have pos: "(?start + ?n) mod 8 = ?i" using d(5,6) by (simp add: mod_simps)
  have ring: "(case ring_next 8 ?start ?n of (start', n') \<Rightarrow>
      ring ((map c_str (history s))[?i := ?t]) start' n') = lastn 8 (history_slots s @ [?t])"
    using ring_push_lastn [of "map c_str (history s)" 8 ?start ?n ?t] d(2,6) pos
    by (simp add: history_slots_def)
  have slots: "map c_str ?h = (map c_str (history s))[?i := ?t]"
    using row(1) by (simp add: map_update)
  let ?t' = "\<lambda>n. s\<lparr>history := ?h, history_index := (?i + 1) mod 8, history_count := n\<rparr>"
  have run: "history_add cmd s = Some (?t' (if ?n < 8 then ?n + 1 else ?n))"
    using d(2,5) len copy by (simp add: history_add_def Let_def)
  show ?thesis
  proof (cases "?n < 8")
    case True
    from history_start [OF d(5) this]
    have slots': "history_slots (?t' (?n + 1)) = lastn 8 (history_slots s @ [?t])"
      using ring True slots by (simp add: ring_next_def history_slots_def)
    have "history_inv (?t' (?n + 1))" using d(6) g allterm True by (simp add: history_inv_def)
    with True run slots' show ?thesis by auto
  next
    case False
    then have n: "?n = 8" and st: "?start = ?i" using d(5,6) by auto
    have "history_slots (?t' ?n) = lastn 8 (history_slots s @ [?t])"
      using ring slots st unfolding n by (simp add: ring_next_def history_slots_def)
    moreover have "history_inv (?t' ?n)" using d(6) g allterm by (simp add: history_inv_def)
    ultimately show ?thesis using run n by auto
  qed
qed

lemma history_get_wp:
  assumes "history_inv s"
  shows "wp (history_get k s) (\<lambda>h. terminated h \<and> c_str h =
    (if 0 \<le> k \<and> k < int (history_count s) then rev (history_slots s) ! nat k else []))"
proof (cases "0 \<le> k \<and> k < int (history_count s)")
  case True
  note d = history_invD [OF assms]
  let ?n = "history_count s" and ?i = "history_index s"
  let ?idx = "if int ?i - 1 - k < 0 then int ?i - 1 - k + 8 else int ?i - 1 - k"
  have idx: "0 \<le> ?idx" "?idx < 8" using True d(5,6) by auto
  have "(((?i + 8 - ?n) mod 8) + (?n - 1 - nat k)) mod 8 = ((?i + 8 - ?n) + (?n - 1 - nat k)) mod 8"
    by (simp add: mod_simps)
  also have "(?i + 8 - ?n) + (?n - 1 - nat k) = ?i + 7 - nat k" using True d(6) by auto
  also have "(?i + 7 - nat k) mod 8 = nat ?idx"
  proof (cases "int ?i - 1 - k < 0")
    case neg: True
    then have "?i + 7 - nat k < 8" "nat ?idx = ?i + 7 - nat k" using True d(5,6) by auto
    then show ?thesis by simp
  next
    case False
    then have "?i + 7 - nat k = nat ?idx + 8" using True d(5,6) by auto
    moreover have "nat ?idx < 8" using idx by auto
    ultimately show ?thesis by simp
  qed
  finally have j: "((?i + 8 - ?n) mod 8 + (?n - 1 - nat k)) mod 8 = nat ?idx" .
  have k: "nat k < ?n" using True by auto
  have len: "length (history_slots s) = ?n" by (simp add: history_slots_def)
  have jl: "nat ?idx < length (history s)" using idx d(2) by (simp add: nat_less_iff)
  have "rev (history_slots s) ! nat k = history_slots s ! (?n - 1 - nat k)"
    using k by (simp add: rev_nth len)
  also have "\<dots> = map c_str (history s) ! (((?i + 8 - ?n) mod 8 + (?n - 1 - nat k)) mod 8)"
    unfolding history_slots_def by (subst ring_nth) (use k d(2) in auto)
  also have "\<dots> = c_str (history s ! nat ?idx)" unfolding j using jl by (rule nth_map)
  finally have "rev (history_slots s) ! nat k = c_str (history s ! nat ?idx)" .
  moreover have "history_get k s = Some (history s ! nat ?idx)"
    using True idx d(2) by (auto simp: history_get_def Let_def)
  moreover have "terminated (history s ! nat ?idx)" using idx d(4) by simp
  ultimately show ?thesis using True by simp
next
  case False
  then show ?thesis by (auto simp: history_get_def)
qed

text \<open>The history is a bounded log of command lines.\<close>

interpretation shell_history: bounded_log history_add history_slots history_inv terminated
  "\<lambda>cmd. take 127 (c_str cmd)" 8
proof unfold_locales
  fix s :: "'a shell_scheme" and cmd
  assume "history_inv s" and "terminated cmd"
  from history_add_wp [OF this] show "wp (history_add cmd s) (\<lambda>s'. history_inv s' \<and>
    history_slots s' = lastn 8 (history_slots s @ [take 127 (c_str cmd)]))"
    by (rule wp_mono) simp
next
  fix s :: "'a shell_scheme"
  assume "history_inv s"
  then show "length (history_slots s) \<le> 8" by (simp add: history_slots_def history_inv_def)
qed

section \<open>What editing does to the line\<close>

text \<open>The abstract editor: a text and a cursor in it.\<close>

type_synonym editor = "string \<times> nat"

fun ed_insert :: "char \<Rightarrow> editor \<Rightarrow> editor" where
  "ed_insert c (t, p) = (take p t @ c # drop p t, p + 1)"

fun ed_backspace :: "editor \<Rightarrow> editor" where
  "ed_backspace (t, p) = (take (p - 1) t @ drop p t, p - 1)"

definition editor_of :: "'a shell_scheme \<Rightarrow> editor" where
  "editor_of s = (line s, cmd_pos s)"

definition edits :: "editor \<Rightarrow> 'a shell_scheme \<Rightarrow> 'a shell_scheme \<Rightarrow> bool" where
  "edits e s s' \<longleftrightarrow> line_inv s' \<and> editor_of s' = e \<and>
     s' = s\<lparr>cmd_buf := cmd_buf s', cmd_len := cmd_len s', cmd_pos := cmd_pos s'\<rparr>"

lemma line_invD:
  assumes "line_inv s"
  shows "length (cmd_buf s) = 128" "cmd_len s \<le> 127" "cmd_pos s \<le> cmd_len s" "NUL \<notin> set (line s)"
    "length (line s) = cmd_len s"
  using assms by (simp_all add: line_inv_def line_def)

text \<open>Shifting the tail of the line up by one place.\<close>

lemma shift_up:
  assumes "p \<le> n" and "n < length (cmd_buf s)"
  shows "for_each (rev [p + 1..<n + 1]) (\<lambda>i s. do { x \<leftarrow> rd (cmd_buf s) (i - 1); put_cmd i x s }) s
    = Some (s\<lparr>cmd_buf := take (p + 1) (cmd_buf s) @ drop p (take n (cmd_buf s)) @ drop (n + 1) (cmd_buf s)\<rparr>)"
  using assms
proof (induction "n - p" arbitrary: n s)
  case 0
  then show ?case by (simp flip: take_Suc_conv_app_nth)
next
  case (Suc k)
  then obtain m where n: "n = Suc m" by (cases n) auto
  let ?b = "cmd_buf s"
  have "for_each (rev [p + 1..<n + 1]) (\<lambda>i s. do { x \<leftarrow> rd (cmd_buf s) (i - 1); put_cmd i x s }) s
    = for_each (rev [p + 1..<m + 1]) (\<lambda>i s. do { x \<leftarrow> rd (cmd_buf s) (i - 1); put_cmd i x s })
        (s\<lparr>cmd_buf := ?b[n := ?b ! m]\<rparr>)"
    using Suc.hyps(2) Suc.prems n by (simp add: put_cmd_def)
  also have "\<dots> = Some (s\<lparr>cmd_buf := take (p + 1) (?b[n := ?b ! m]) @
      drop p (take m (?b[n := ?b ! m])) @ drop (m + 1) (?b[n := ?b ! m])\<rparr>)"
    using Suc.hyps(1) [of m "s\<lparr>cmd_buf := ?b[n := ?b ! m]\<rparr>"] Suc.hyps(2) Suc.prems n by simp
  also have "take (p + 1) (?b[n := ?b ! m]) @ drop p (take m (?b[n := ?b ! m])) @ drop (m + 1) (?b[n := ?b ! m])
      = take (p + 1) ?b @ drop p (take n ?b) @ drop (n + 1) ?b"
    using Suc.hyps(2) Suc.prems n
    by (intro nth_equalityI) (auto simp: nth_append nth_list_update intro!: arg_cong [where f = "(!) ?b"])
  finally show ?case .
qed

text \<open>Shifting the tail down over the place before the cursor.\<close>

lemma shift_down:
  assumes "p \<le> n" and "n < length (cmd_buf s)"
  shows "for_each [p..<n] (\<lambda>i s. do { x \<leftarrow> rd (cmd_buf s) (i + 1); put_cmd i x s }) s
    = Some (s\<lparr>cmd_buf := overwrite p (map (\<lambda>i. cmd_buf s ! (i + 1)) [p..<n]) (cmd_buf s)\<rparr>)"
  using assms
proof (induction n)
  case 0
  then show ?case by simp
next
  case (Suc n)
  show ?case
  proof (cases "p = Suc n")
    case True
    then show ?thesis by simp
  next
    case False
    let ?b = "cmd_buf s" and ?xs = "map (\<lambda>i. cmd_buf s ! (i + 1)) [p..<n]"
    have len: "p + length ?xs = n" using False Suc.prems by simp
    have "overwrite p ?xs ?b ! (n + 1) = ?b ! (n + 1)"
      using Suc.prems len False by (auto simp: overwrite_def nth_append)
    then show ?thesis
      using Suc False len overwrite_snoc [of p ?xs ?b "?b ! (n + 1)"]
      by (simp add: put_cmd_def)
  qed
qed

lemma line_insert_wp:
  assumes "line_inv s" and "cmd_len s < 127" and "c \<noteq> NUL"
  shows "wp (line_insert c s) (edits (ed_insert c (editor_of s)) s)"
proof -
  note d = line_invD [OF assms(1)]
  let ?b = "cmd_buf s" and ?n = "cmd_len s" and ?p = "cmd_pos s"
  let ?b1 = "take (?p + 1) ?b @ drop ?p (take ?n ?b) @ drop (?n + 1) ?b"
  have len: "length ?b1 = 128" using d assms(2) by simp
  have new: "?b1[?p := c] = take ?p ?b @ c # drop ?p (take ?n ?b) @ drop (?n + 1) ?b"
    using d assms(2) by (simp add: take_Suc_conv_app_nth list_update_append)
  have body: "take (?n + 1) (?b1[?p := c]) = take ?p (line s) @ c # drop ?p (line s)"
  proof -
    have "take (?n + 1) ((take ?p ?b @ c # drop ?p (take ?n ?b)) @ drop (?n + 1) ?b)
        = take ?p ?b @ c # drop ?p (take ?n ?b)"
      by (rule take_append_eq) (use d assms(2) in simp)
    then show ?thesis unfolding new line_def using d(3) by (simp add: min_def)
  qed
  have "line_insert c s = Some (s\<lparr>cmd_buf := ?b1[?p := c], cmd_pos := ?p + 1, cmd_len := ?n + 1\<rparr>)"
    using shift_up [of ?p ?n s] d assms(2) len
    by (simp add: line_insert_def put_cmd_def del: upt_Suc)
  moreover have "line_inv (s\<lparr>cmd_buf := ?b1[?p := c], cmd_pos := ?p + 1, cmd_len := ?n + 1\<rparr>)"
    using body d assms(2,3) len unfolding line_inv_def line_def [of "s\<lparr>cmd_buf := b, cmd_pos := p, cmd_len := n\<rparr>" for b p n]
    by (auto dest: in_set_takeD in_set_dropD)
  ultimately show ?thesis
    using body by (auto simp: edits_def editor_of_def line_def [of "s\<lparr>cmd_buf := b, cmd_pos := p, cmd_len := n\<rparr>" for b p n])
qed

lemma line_backspace_wp:
  assumes "line_inv s" and "0 < cmd_pos s"
  shows "wp (line_backspace s) (edits (ed_backspace (editor_of s)) s)"
proof -
  note d = line_invD [OF assms(1)]
  let ?b = "cmd_buf s" and ?n = "cmd_len s" and ?p = "cmd_pos s"
  let ?xs = "map (\<lambda>i. ?b ! (i + 1)) [?p - 1..<?n - 1]"
  let ?b1 = "overwrite (?p - 1) ?xs ?b"
  have xs: "?xs = drop ?p (line s)"
    using d assms(2) by (intro nth_equalityI) (auto simp: line_def)
  have subs: "sub32 ?p 1 = ?p - 1" "sub32 ?n 1 = ?n - 1" using d assms(2) by (simp_all add: sub32_id)
  have len: "length ?b1 = 128" using d assms(2) by simp
  have body: "take (?n - 1) ?b1 = take (?p - 1) (line s) @ drop ?p (line s)"
  proof -
    have "?b1 = (take (?p - 1) ?b @ drop ?p (line s)) @ drop (?p - 1 + length (drop ?p (line s))) ?b"
      unfolding overwrite_def xs by simp
    also have "take (?n - 1) \<dots> = take (?p - 1) ?b @ drop ?p (line s)"
      by (rule take_append_eq) (use d assms(2) in auto)
    also have "take (?p - 1) ?b = take (?p - 1) (line s)"
      using d assms(2) by (auto simp: line_def min_def)
    finally show ?thesis .
  qed
  have "line_backspace s = Some (s\<lparr>cmd_buf := ?b1, cmd_len := ?n - 1, cmd_pos := ?p - 1\<rparr>)"
    using shift_down [of "?p - 1" "?n - 1" s] d assms(2) subs
    by (simp add: line_backspace_def)
  moreover have "line_inv (s\<lparr>cmd_buf := ?b1, cmd_len := ?n - 1, cmd_pos := ?p - 1\<rparr>)"
    using body d assms(2) len unfolding line_inv_def line_def [of "s\<lparr>cmd_buf := b, cmd_len := n, cmd_pos := p\<rparr>" for b p n]
    by (auto dest: in_set_takeD in_set_dropD)
  ultimately show ?thesis
    using body by (auto simp: edits_def editor_of_def line_def [of "s\<lparr>cmd_buf := b, cmd_len := n, cmd_pos := p\<rparr>" for b p n])
qed

lemma line_load_wp:
  assumes "line_inv s" and "terminated h"
  shows "wp (line_load h s) (edits (take 127 (c_str h), length (take 127 (c_str h))) s)"
proof -
  note d = line_invD [OF assms(1)]
  let ?t = "take 127 (c_str h)"
  have copy: "copy_until 127 h 0 (cmd_buf s) = Some (length ?t, overwrite 0 ?t (cmd_buf s))"
    using assms(2) d by (intro copy_until_eq) auto
  have nul: "NUL \<notin> set ?t" using c_str_no_NUL [of h] by (auto dest: in_set_takeD)
  have "take (length ?t) (overwrite 0 ?t (cmd_buf s)) = ?t" by (rule take_overwrite)
  then have l: "line (s\<lparr>cmd_buf := overwrite 0 ?t (cmd_buf s), cmd_len := length ?t, cmd_pos := length ?t\<rparr>) = ?t"
    by (simp add: line_def del: length_take)
  have "line_load h s = Some (s\<lparr>cmd_buf := overwrite 0 ?t (cmd_buf s), cmd_len := length ?t, cmd_pos := length ?t\<rparr>)"
    using copy by (simp add: line_load_def)
  moreover have "line_inv (s\<lparr>cmd_buf := overwrite 0 ?t (cmd_buf s), cmd_len := length ?t, cmd_pos := length ?t\<rparr>)"
    unfolding line_inv_def l using nul d(1) by simp
  ultimately show ?thesis
    unfolding edits_def editor_of_def by (simp add: l del: length_take)
qed

section \<open>Properties\<close>

text \<open>The shell's static variables at boot, on top of a console.\<close>

definition shell_statics :: "console \<Rightarrow> shell" where
  "shell_statics c = console.extend c (shell.fields (replicate 8 (replicate 128 NUL)) 0 0 (-1)
     (replicate 128 NUL) 0 0 0 0 0)"

text \<open>A shell with a line of three characters and the cursor before the last.\<close>

definition typing_shell :: shell where
  "typing_shell = (shell_statics blank_console)\<lparr>cmd_buf := ''abc'' @ replicate 125 NUL, cmd_len := 3, cmd_pos := 2\<rparr>"

lemma typing_shell_line [simp]: "line_inv typing_shell" "editor_of typing_shell = (''abc'', 2)"
  "cmd_len typing_shell = 3" "cmd_pos typing_shell = 2"
  by (simp_all add: typing_shell_def shell_statics_def shell.defs line_inv_def line_def editor_of_def)

lemma typing_shell_con [simp]: "con_inv typing_shell"
  using blank_console_inv
  by (simp add: typing_shell_def shell_statics_def shell.defs console.defs con_inv_def con_shape_def mirrored_def)

lemma typing_shell_history [simp]: "history_inv typing_shell" "history_slots typing_shell = []"
  by (simp_all add: typing_shell_def shell_statics_def shell.defs console.defs history_inv_def
      history_slots_def terminated_def list_all_iff)

text \<open>Typing a character inserts it into the line before the cursor: the shifting loop
  moves exactly the characters after the cursor, whatever the buffer holds beyond the line,
  stays inside the buffer, and changes no variable but the line's.\<close>

theorem line_insert_refines:
  assumes "line_inv s" and "cmd_len s < 127" and "c \<noteq> NUL"
  shows "wp (line_insert c s) (\<lambda>s'. line_inv s' \<and>
    line s' = take (cmd_pos s) (line s) @ c # drop (cmd_pos s) (line s) \<and> cmd_pos s' = cmd_pos s + 1 \<and>
    s' = s\<lparr>cmd_buf := cmd_buf s', cmd_len := cmd_len s', cmd_pos := cmd_pos s'\<rparr>)"
  by (rule wp_mono [OF line_insert_wp [OF assms]]) (auto simp only: edits_def editor_of_def ed_insert.simps prod.inject)

theorem line_insert_refines_witness:
  "wp (line_insert (CHR ''x'') typing_shell) (\<lambda>s'. line_inv s' \<and> line s' = ''abxc'' \<and> cmd_pos s' = 3)"
proof -
  have "line typing_shell = ''abc''" using typing_shell_line(2) unfolding editor_of_def by simp
  then show ?thesis
    using line_insert_refines [of typing_shell "CHR ''x''"] by (auto elim!: wp_mono)
qed

text \<open>Backspace removes the character before the cursor and nothing else.\<close>

theorem line_backspace_refines:
  assumes "line_inv s" and "0 < cmd_pos s"
  shows "wp (line_backspace s) (\<lambda>s'. line_inv s' \<and>
    line s' = take (cmd_pos s - 1) (line s) @ drop (cmd_pos s) (line s) \<and> cmd_pos s' = cmd_pos s - 1 \<and>
    s' = s\<lparr>cmd_buf := cmd_buf s', cmd_len := cmd_len s', cmd_pos := cmd_pos s'\<rparr>)"
  by (rule wp_mono [OF line_backspace_wp [OF assms]]) (auto simp only: edits_def editor_of_def ed_backspace.simps prod.inject)

theorem line_backspace_refines_witness:
  "wp (line_backspace typing_shell) (\<lambda>s'. line_inv s' \<and> line s' = ''ac'' \<and> cmd_pos s' = 1)"
proof -
  have "line typing_shell = ''abc''" using typing_shell_line(2) unfolding editor_of_def by simp
  then show ?thesis
    using line_backspace_refines [of typing_shell] by (auto elim!: wp_mono)
qed

text \<open>C21. The history ring: after any sequence of commands it holds the last eight,
  each cut to 127 characters, and \<open>history_get k\<close> finds the command entered \<open>k\<close> commands ago.\<close>

theorem history_remembers:
  assumes "history_inv s" and "list_all terminated cmds"
  shows "wp (for_each cmds history_add s) (\<lambda>s'. history_inv s' \<and>
    (let past = lastn 8 (history_slots s @ map (\<lambda>cmd. take 127 (c_str cmd)) cmds)
     in \<forall>k. wp (history_get k s') (\<lambda>h. c_str h =
          (if 0 \<le> k \<and> k < int (length past) then rev past ! nat k else []))))"
proof (rule wp_mono [OF shell_history.push_all [OF assms]])
  fix t assume t: "history_inv t \<and>
    history_slots t = lastn 8 (history_slots s @ map (\<lambda>cmd. take 127 (c_str cmd)) cmds)"
  have "length (history_slots t) = history_count t" by (simp add: history_slots_def)
  moreover have "wp (history_get k t) (\<lambda>h. c_str h =
      (if 0 \<le> k \<and> k < int (history_count t) then rev (history_slots t) ! nat k else []))" for k
    using history_get_wp [of t k] t by (auto elim: wp_mono)
  ultimately show "history_inv t \<and>
    (let past = lastn 8 (history_slots s @ map (\<lambda>cmd. take 127 (c_str cmd)) cmds)
     in \<forall>k. wp (history_get k t) (\<lambda>h. c_str h =
          (if 0 \<le> k \<and> k < int (length past) then rev past ! nat k else [])))"
    using t by (simp only: Let_def simp_thms)
qed

theorem history_remembers_witness:
  "wp (for_each [c_lit ''help'', c_lit ''info''] history_add typing_shell) (\<lambda>s'. history_inv s' \<and>
    wp (history_get 0 s') (\<lambda>h. c_str h = ''info'') \<and> wp (history_get 1 s') (\<lambda>h. c_str h = ''help''))"
proof -
  have past: "lastn 8 (history_slots typing_shell @ map (\<lambda>cmd. take 127 (c_str cmd)) [c_lit ''help'', c_lit ''info''])
    = [''help'', ''info'']" by simp
  show ?thesis
    by (rule wp_mono [OF history_remembers [of typing_shell "[c_lit ''help'', c_lit ''info'']"]])
      (auto simp: Let_def past dest: spec [of _ 0] spec [of _ 1])
qed

end
