(* ===== verification/Shell_Display.thy ===== *)
theory Shell_Display
  imports Shell_Line
begin

text \<open>
  The visible side of \<open>src/kernel/console/shell.c\<close>: the prompt and the redisplay of the line being
  edited. The lemmas say what both leave on the screen, through the terminal specification.
\<close>

section \<open>Display\<close>

definition redraw_line :: "hardware \<Rightarrow> 'a shell_scheme \<Rightarrow> 'a shell_scheme option" where
  "redraw_line hw s =
     (let buf = cmd_buf s; len = cmd_len s; pos = cmd_pos s; start_x = prompt_x s; start_y = prompt_y s in
      do {
        let s = console_set_cursor start_x start_y s;
        s \<leftarrow> for_each [0..<disp_len s] (\<lambda>i. console_putc hw (CHR '' '')) s;
        let s = console_set_cursor start_x start_y s;
        s \<leftarrow> for_each [0..<len] (\<lambda>i s. do { c \<leftarrow> rd buf i; console_putc hw c s }) s;
        let s = s\<lparr>disp_len := len\<rparr>;
        Some (console_set_cursor (to_u8 (start_x + pos)) start_y s) })"

definition shell_show_prompt :: "hardware \<Rightarrow> 'a shell_scheme \<Rightarrow> 'a shell_scheme option" where
  "shell_show_prompt hw s = do {
     let s = s\<lparr>cmd_len := 0, cmd_pos := 0, disp_len := 0\<rparr>;
     s \<leftarrow> console_write hw (c_lit ''LifeOS> '') s;
     let (x, y) = console_get_cursor s;
     Some (s\<lparr>prompt_x := x, prompt_y := y\<rparr>) }"

section \<open>Invariant\<close>

definition shell_inv :: "'a shell_scheme \<Rightarrow> bool" where
  "shell_inv s \<longleftrightarrow> con_inv s \<and> history_inv s \<and> line_inv s \<and>
     -1 \<le> history_nav s \<and> history_nav s < int (history_count s) \<and>
     disp_len s \<le> 127 \<and> prompt_x s < 80 \<and> prompt_y s < 25"

section \<open>Writing inside one row\<close>

definition printable :: "char \<Rightarrow> bool" where
  "printable c \<longleftrightarrow> c \<noteq> NEWLINE \<and> c \<noteq> BACKSPACE"

definition term_ok :: "terminal \<Rightarrow> bool" where
  "term_ok t \<longleftrightarrow> grid 25 80 (t_rows t) \<and> t_x t < 80 \<and> t_y t < 25"

lemma con_term_ok: "con_inv s \<Longrightarrow> term_ok (con_term s)"
  by (simp add: term_ok_def con_inv_def con_shape_def)

lemma term_put_inside:
  assumes "printable c" and "t_x t + 1 < 80"
  shows "term_put col c t = (term_set (cell col c) t)\<lparr>t_x := t_x t + 1\<rparr>"
  using assms by (simp add: term_put_def printable_def Let_def)

text \<open>A string that does not reach the right edge overwrites its cells and moves the cursor.\<close>

lemma term_write_row:
  assumes "term_ok t" and "list_all printable str" and "t_x t + length str < 80"
  shows "term_write col str t = t\<lparr>t_rows := (t_rows t)[t_y t :=
      overwrite (t_x t) (map (cell col) str) (t_rows t ! t_y t)], t_x := t_x t + length str\<rparr>"
  using assms(2,3)
proof (induction str rule: rev_induct)
  case Nil
  then show ?case by simp
next
  case (snoc c str)
  let ?row = "t_rows t ! t_y t"
  let ?t = "t\<lparr>t_rows := (t_rows t)[t_y t := overwrite (t_x t) (map (cell col) str) ?row],
    t_x := t_x t + length str\<rparr>"
  have g: "length (t_rows t) = 25" "length ?row = 80" "t_y t < 25"
    using assms(1) by (auto simp: term_ok_def grid_length grid_row)
  have "term_write col (str @ [c]) t = term_put col c ?t"
    using snoc by simp
  also have "\<dots> = (term_set (cell col c) ?t)\<lparr>t_x := t_x t + length (str @ [c])\<rparr>"
    using snoc.prems by (subst term_put_inside) auto
  finally show ?case
    using g snoc.prems overwrite_snoc [of "t_x t" "map (cell col) str" ?row "cell col c"]
    by (simp add: term_set_def)
qed

lemma term_goto_ok: "term_ok t \<Longrightarrow> term_ok (term_goto x y t)"
  by (simp add: term_ok_def term_goto_def)

section \<open>Shell variables across console output\<close>

text \<open>Console output leaves the variables of the layers above it alone.\<close>



lemma shell_fields:
  fixes s s' :: "'a shell_scheme"
  assumes "console.more s' = console.more s"
  shows "history s' = history s" "history_count s' = history_count s" "history_index s' = history_index s"
    "history_nav s' = history_nav s" "cmd_buf s' = cmd_buf s" "cmd_len s' = cmd_len s"
    "cmd_pos s' = cmd_pos s" "disp_len s' = disp_len s" "prompt_x s' = prompt_x s"
    "prompt_y s' = prompt_y s" "shell.more s' = shell.more s"
  using assms by (cases s; cases s'; simp)+

text \<open>Updates of shell variables do not touch the console.\<close>

lemma con_shell_upd [simp]:
  fixes s :: "'a shell_scheme"
  shows "con_inv (s\<lparr>disp_len := n\<rparr>) = con_inv s" "con_inv (s\<lparr>cmd_len := n\<rparr>) = con_inv s"
    "con_inv (s\<lparr>cmd_pos := n\<rparr>) = con_inv s" "con_inv (s\<lparr>cmd_buf := b\<rparr>) = con_inv s"
    "con_inv (s\<lparr>prompt_x := n\<rparr>) = con_inv s" "con_inv (s\<lparr>prompt_y := n\<rparr>) = con_inv s"
    "con_inv (s\<lparr>history := h\<rparr>) = con_inv s" "con_inv (s\<lparr>history_count := n\<rparr>) = con_inv s"
    "con_inv (s\<lparr>history_index := n\<rparr>) = con_inv s" "con_inv (s\<lparr>history_nav := k\<rparr>) = con_inv s"
    "con_term (s\<lparr>disp_len := n\<rparr>) = con_term s" "con_term (s\<lparr>cmd_len := n\<rparr>) = con_term s"
    "con_term (s\<lparr>cmd_pos := n\<rparr>) = con_term s" "con_term (s\<lparr>cmd_buf := b\<rparr>) = con_term s"
    "con_term (s\<lparr>prompt_x := n\<rparr>) = con_term s" "con_term (s\<lparr>prompt_y := n\<rparr>) = con_term s"
    "con_term (s\<lparr>history := h\<rparr>) = con_term s" "con_term (s\<lparr>history_count := n\<rparr>) = con_term s"
    "con_term (s\<lparr>history_index := n\<rparr>) = con_term s" "con_term (s\<lparr>history_nav := k\<rparr>) = con_term s"
  by (simp_all add: con_inv_def con_shape_def mirrored_def con_term_def sb_lines_def)

text \<open>The console variables that output never changes, and the effect of an operation of a layer
  above the console: it maps the terminal by \<open>f\<close> and keeps these.\<close>

definition con_keep :: "'a console_scheme \<Rightarrow> bool \<times> u8 \<times> char list \<times> nat \<times> nat \<times> bool" where
  "con_keep s = (have_e0 s, vga_color s, input_buf s, input_head s, input_tail s, ctrl s)"

definition draws :: "(terminal \<Rightarrow> terminal) \<Rightarrow> 'a console_scheme \<Rightarrow> 'a console_scheme \<Rightarrow> bool" where
  "draws f s s' \<longleftrightarrow> con_inv s' \<and> con_term s' = f (con_term s) \<and> con_keep s' = con_keep s"

lemma con_keep_upd [simp]:
  fixes s :: "'a shell_scheme"
  shows "con_keep (s\<lparr>disp_len := n\<rparr>) = con_keep s" "con_keep (s\<lparr>cmd_len := n\<rparr>) = con_keep s"
    "con_keep (s\<lparr>cmd_pos := n\<rparr>) = con_keep s" "con_keep (s\<lparr>cmd_buf := b\<rparr>) = con_keep s"
    "con_keep (s\<lparr>prompt_x := n\<rparr>) = con_keep s" "con_keep (s\<lparr>prompt_y := n\<rparr>) = con_keep s"
    "con_keep (s\<lparr>history := h\<rparr>) = con_keep s" "con_keep (s\<lparr>history_count := n\<rparr>) = con_keep s"
    "con_keep (s\<lparr>history_index := n\<rparr>) = con_keep s" "con_keep (s\<lparr>history_nav := k\<rparr>) = con_keep s"
  by (simp_all add: con_keep_def)

lemma draws_id: "con_inv s \<Longrightarrow> draws (\<lambda>t. t) s s"
  by (simp add: draws_def)

lemma draws_trans: "draws f s s1 \<Longrightarrow> draws g s1 s2 \<Longrightarrow> draws (\<lambda>t. g (f t)) s s2"
  by (simp add: draws_def)

lemma con_keep_color: "con_keep s' = con_keep s \<Longrightarrow> vga_color s' = vga_color s"
  by (simp add: con_keep_def)

lemma prints_draws: "prints f bs s s' \<Longrightarrow> draws f s s' \<and> console.more s' = console.more s"
  by (simp add: prints_def draws_def con_keep_def con_frame_def)

lemma set_cursor_draws:
  "con_inv s \<Longrightarrow> draws (term_goto x y) s (console_set_cursor x y s)
    \<and> console.more (console_set_cursor x y s) = console.more s"
  by (rule prints_draws [OF console_set_cursor_prints(1)])

lemma puts_draws:
  assumes "con_inv s" and "uart_ready hw"
  shows "wp (for_each str (console_putc hw) s)
    (\<lambda>s'. draws (term_write (vga_color s) str) s s' \<and> console.more s' = console.more s)"
  by (rule wp_mono [OF puts_prints [OF assms]]) (rule prints_draws)

text \<open>Output whose text does not matter: some string is written and nothing else changes;
  \<open>talks\<close> leaves the layers above the console open.\<close>

definition talks :: "'a console_scheme \<Rightarrow> 'a console_scheme \<Rightarrow> bool" where
  "talks s s' \<longleftrightarrow> con_inv s' \<and> con_keep s' = con_keep s \<and>
     (\<exists>str. con_term s' = term_write (vga_color s) str (con_term s))"

definition says :: "'a console_scheme \<Rightarrow> 'a console_scheme \<Rightarrow> bool" where
  "says s s' \<longleftrightarrow> talks s s' \<and> console.more s' = console.more s"

lemma talks_refl: "con_inv s \<Longrightarrow> talks s s"
  by (auto simp: talks_def intro: exI [of _ "[]"])

lemma talks_trans:
  assumes "talks s t" and "talks t u"
  shows "talks s u"
proof -
  obtain a b where a: "con_term t = term_write (vga_color s) a (con_term s)"
    and b: "con_term u = term_write (vga_color t) b (con_term t)"
    using assms by (auto simp: talks_def)
  have "vga_color t = vga_color s" using assms(1) con_keep_color by (auto simp: talks_def)
  then have "con_term u = term_write (vga_color s) (a @ b) (con_term s)" using a b by simp
  then have "\<exists>str. con_term u = term_write (vga_color s) str (con_term s)" ..
  moreover have "con_inv u" "con_keep u = con_keep s" using assms by (simp_all add: talks_def)
  ultimately show ?thesis by (simp only: talks_def simp_thms)
qed

lemma says_refl: "con_inv s \<Longrightarrow> says s s"
  by (simp add: says_def talks_refl)

lemma says_trans: "says s t \<Longrightarrow> says t u \<Longrightarrow> says s u"
  unfolding says_def using talks_trans by metis

lemma saysD: "says s t \<Longrightarrow> con_inv t" "says s t \<Longrightarrow> talks s t" "says s t \<Longrightarrow> console.more t = console.more s"
  by (simp_all add: says_def talks_def)

lemma writes_says: "writes str s s' \<Longrightarrow> says s s'"
  by (auto simp: writes_def prints_def says_def talks_def con_frame_def con_keep_def)

lemma says_seq:
  assumes "wp m (says s)" and "\<And>t. says s t \<Longrightarrow> con_inv t \<Longrightarrow> wp (f t) (says t)"
  shows "wp (Option.bind m f) (says s)"
  by (rule wp_seq [OF assms(1)]) (rule wp_mono [OF assms(2)], auto intro: says_trans saysD)

lemma says_simps:
  assumes "uart_ready hw" and "con_inv s"
  shows "terminated a \<Longrightarrow> wp (console_write hw a s) (says s)"
    and "wp (console_putc hw c s) (says s)"
    and "wp (console_write_hex16 hw h s) (says s)"
    and "wp (console_write_hex32 hw w s) (says s)"
    and "n < 2 ^ 64 \<Longrightarrow> wp (console_write_dec hw n s) (says s)"
proof -
  show "terminated a \<Longrightarrow> wp (console_write hw a s) (says s)"
    by (rule wp_mono [OF console_write_wp [OF assms(2,1)] writes_says])
  show "wp (console_putc hw c s) (says s)"
    by (rule wp_mono [OF putc_writes [OF assms(2,1)] writes_says])
  show "wp (console_write_hex16 hw h s) (says s)"
    by (rule wp_mono [OF write_hex16_wp [OF assms(2,1)] writes_says])
  show "wp (console_write_hex32 hw w s) (says s)"
    by (rule wp_mono [OF write_hex32_wp [OF assms(2,1)] writes_says])
  show "n < 2 ^ 64 \<Longrightarrow> wp (console_write_dec hw n s) (says s)"
    by (rule wp_mono [OF console_write_dec_wp [OF assms(2,1)] writes_says])
qed

section \<open>The redisplay\<close>

lemma for_each_const: "for_each [0..<n] (\<lambda>i. f c) s = for_each (replicate n c) f s"
  by (simp add: for_each_map [of "\<lambda>_. c" "[0..<n]" f s, symmetric] map_replicate_const)

lemma for_each_take:
  assumes "n \<le> length buf"
  shows "for_each [0..<n] (\<lambda>i s. do { c \<leftarrow> rd buf i; f c s }) s = for_each (take n buf) f s"
proof -
  have "for_each [0..<n] (\<lambda>i s. do { c \<leftarrow> rd buf i; f c s }) s = for_each [0..<n] (\<lambda>i. f (buf ! i)) s"
    using assms by (intro for_each_cong) auto
  also have "\<dots> = for_each (map (\<lambda>i. buf ! i) [0..<n]) f s" by (simp add: for_each_map)
  also have "map (\<lambda>i. buf ! i) [0..<n] = take n buf" using assms by (auto intro: nth_equalityI)
  finally show ?thesis .
qed

text \<open>What the redisplay does to the terminal: blank the old text, write the new one, place the cursor.\<close>

definition term_redraw :: "u8 \<Rightarrow> nat \<Rightarrow> nat \<Rightarrow> nat \<Rightarrow> string \<Rightarrow> nat \<Rightarrow> terminal \<Rightarrow> terminal" where
  "term_redraw col px py old str pos t =
     term_goto (px + pos) py (term_write col str (term_goto px py
       (term_write col (replicate old (CHR '' '')) (term_goto px py t))))"

lemma redraw_line_wp:
  assumes "con_inv s" and "line_inv s" and "prompt_x s < 80" and "uart_ready hw"
  shows "wp (redraw_line hw s) (\<lambda>s'.
    draws (term_redraw (vga_color s) (prompt_x s) (prompt_y s) (disp_len s) (line s) (cmd_pos s)) s s' \<and>
    console.more s' = console.more (s\<lparr>disp_len := cmd_len s\<rparr>))"
proof -
  note d = line_invD [OF assms(2)]
  let ?px = "prompt_x s" and ?py = "prompt_y s" and ?col = "vga_color s"
  let ?s1 = "console_set_cursor ?px ?py s"
  have s1: "draws (term_goto ?px ?py) s ?s1" "console.more ?s1 = console.more s"
    using set_cursor_draws [OF assms(1)] by simp_all
  then have i1: "con_inv ?s1" and c1: "vga_color ?s1 = ?col"
    by (simp_all add: draws_def con_keep_def)
  note w1 = puts_draws [OF i1 assms(4), of "replicate (disp_len s) (CHR '' '')"]
  have pos: "to_u8 (?px + cmd_pos s) = ?px + cmd_pos s"
    using d assms(3) by (intro to_u8_id) simp
  show ?thesis
    unfolding redraw_line_def Let_def for_each_const shell_fields(8) [OF s1(2)]
  proof (rule wp_seq [OF w1])
    fix s2
    assume s2: "draws (term_write (vga_color ?s1) (replicate (disp_len s) (CHR '' ''))) ?s1 s2
      \<and> console.more s2 = console.more ?s1"
    let ?s3 = "console_set_cursor ?px ?py s2"
    have "con_inv s2" using s2 by (simp add: draws_def)
    from set_cursor_draws [OF this, of ?px ?py]
    have s3: "draws (term_goto ?px ?py) s2 ?s3" "console.more ?s3 = console.more s2" by simp_all
    then have i3: "con_inv ?s3" and c3: "vga_color ?s3 = ?col"
      using s2 c1 by (simp_all add: draws_def con_keep_def)
    have l: "take (cmd_len s) (cmd_buf s) = line s" by (simp add: line_def)
    show "wp (do { s' \<leftarrow> for_each [0..<cmd_len s] (\<lambda>i s'. do { c \<leftarrow> rd (cmd_buf s) i; console_putc hw c s' }) ?s3;
        Some (console_set_cursor (to_u8 (?px + cmd_pos s)) ?py (s'\<lparr>disp_len := cmd_len s\<rparr>)) })
      (\<lambda>s'. draws (term_redraw ?col ?px ?py (disp_len s) (line s) (cmd_pos s)) s s' \<and>
        console.more s' = console.more (s\<lparr>disp_len := cmd_len s\<rparr>))"
    proof (subst for_each_take, use d in simp, unfold l, rule wp_seq [OF puts_draws [OF i3 assms(4)]])
      fix s4
      assume s4: "draws (term_write (vga_color ?s3) (line s)) ?s3 s4 \<and> console.more s4 = console.more ?s3"
      let ?s5 = "s4\<lparr>disp_len := cmd_len s\<rparr>"
      have "con_inv ?s5" using s4 by (simp add: draws_def)
      note s6 = set_cursor_draws [OF this, of "?px + cmd_pos s" ?py]
      have m: "console.more s4 = console.more s" using s4 s3 s2 s1 by simp
      then have "console.more ?s5 = console.more (s\<lparr>disp_len := cmd_len s\<rparr>)"
        by (cases s4; cases s) simp
      moreover have "draws (term_redraw ?col ?px ?py (disp_len s) (line s) (cmd_pos s)) s
          (console_set_cursor (?px + cmd_pos s) ?py ?s5)"
        using s6 s4 s3(1) s2 s1(1) c1 c3 unfolding term_redraw_def draws_def by simp
      ultimately show "wp (Some (console_set_cursor (to_u8 (?px + cmd_pos s)) ?py ?s5))
        (\<lambda>s'. draws (term_redraw ?col ?px ?py (disp_len s) (line s) (cmd_pos s)) s s' \<and>
          console.more s' = console.more (s\<lparr>disp_len := cmd_len s\<rparr>))"
        using s6 unfolding pos by simp
    qed
  qed
qed

text \<open>What is on the screen after the redisplay when old and new text fit in the prompt's row.\<close>

lemma term_redraw_row:
  assumes "term_ok t" and "px < 80" and "py < 25" and "list_all printable str"
    and "px + old < 80" and "px + length str < 80" and "pos \<le> length str"
  shows "term_redraw col px py old str pos t = t\<lparr>t_rows := (t_rows t)[py :=
    overwrite px (map (cell col) str) (overwrite px (replicate old (cell col (CHR '' ''))) (t_rows t ! py))],
    t_x := px + pos, t_y := py\<rparr>"
proof -
  let ?bl = "replicate old (CHR '' '')"
  let ?row1 = "overwrite px (map (cell col) ?bl) (t_rows t ! py)"
  let ?t1 = "t\<lparr>t_rows := (t_rows t)[py := ?row1], t_x := px + old, t_y := py\<rparr>"
  have g: "length (t_rows t) = 25" "length (t_rows t ! py) = 80"
    using assms(1,3) by (auto simp: term_ok_def grid_length grid_row)
  have bl: "list_all printable ?bl" by (simp add: list_all_iff printable_def)
  have t1: "term_write col ?bl (term_goto px py t) = ?t1"
    using assms term_goto_ok [OF assms(1), of px py]
    by (subst term_write_row [OF _ bl]) (simp_all add: term_goto_def)
  have ok: "term_ok (term_goto px py ?t1)"
    using assms g by (intro term_goto_ok) (auto simp: term_ok_def intro!: grid_update)
  have "term_write col str (term_goto px py ?t1) = ?t1\<lparr>t_rows := (t_rows t)[py :=
      overwrite px (map (cell col) str) ?row1], t_x := px + length str\<rparr>"
    using assms g by (subst term_write_row [OF ok assms(4)]) (simp_all add: term_goto_def)
  then show ?thesis
    using assms unfolding term_redraw_def t1 by (simp add: term_goto_def map_replicate_const)
qed

lemma nth_overwrite:
  assumes "b + length xs \<le> length v" and "i < length v"
  shows "overwrite b xs v ! i = (if b \<le> i \<and> i < b + length xs then xs ! (i - b) else v ! i)"
  using assms by (auto simp: overwrite_def nth_append)

section \<open>The prompt\<close>

definition prompt :: string where
  "prompt = ''LifeOS> ''"

lemma shell_show_prompt_wp:
  fixes s :: "'a shell_scheme"
  assumes "con_inv s" and "uart_ready hw"
  shows "wp (shell_show_prompt hw s) (\<lambda>s'. draws (term_write (vga_color s) prompt) s s' \<and>
    console.more s' = console.more (s\<lparr>cmd_len := 0, cmd_pos := 0, disp_len := 0,
      prompt_x := cursor_x s', prompt_y := cursor_y s'\<rparr>))"
proof -
  let ?s1 = "s\<lparr>cmd_len := 0, cmd_pos := 0, disp_len := 0\<rparr>"
  have i1: "con_inv ?s1" using assms(1) by simp
  have lit: "c_str (c_lit ''LifeOS> '') = prompt" by (simp add: prompt_def)
  show ?thesis
    unfolding shell_show_prompt_def Let_def console_get_cursor_def prod.case
  proof (rule wp_seq [OF console_write_wp [OF i1 assms(2) terminated_lit]])
    fix t :: "'a shell_scheme"
    assume t: "writes (c_str (c_lit ''LifeOS> '')) ?s1 t"
    then have "draws (term_write (vga_color s) prompt) ?s1 t" "console.more t = console.more ?s1"
      using prints_draws unfolding writes_def lit by fastforce+
    then show "wp (Some (t\<lparr>prompt_x := cursor_x t, prompt_y := cursor_y t\<rparr>))
      (\<lambda>s'. draws (term_write (vga_color s) prompt) s s' \<and>
        console.more s' = console.more (s\<lparr>cmd_len := 0, cmd_pos := 0, disp_len := 0,
          prompt_x := cursor_x s', prompt_y := cursor_y s'\<rparr>))"
      by (cases t; cases s) (simp add: draws_def con_keep_def con_inv_def con_shape_def mirrored_def
          con_term_def sb_lines_def)
  qed
qed

lemma line_inv_empty: "length (cmd_buf s) = 128 \<Longrightarrow> cmd_len s = 0 \<Longrightarrow> cmd_pos s = 0 \<Longrightarrow> line_inv s"
  by (simp add: line_inv_def line_def)

text \<open>The history invariant of two states that agree on the history.\<close>

lemma history_inv_cong:
  "history s' = history s \<Longrightarrow> history_index s' = history_index s \<Longrightarrow> history_count s' = history_count s \<Longrightarrow>
    history_inv s' = history_inv s"
  by (simp add: history_inv_def)

text \<open>The part of the shell's invariant that the prompt does not establish itself.\<close>

definition shell_base :: "'a shell_scheme \<Rightarrow> bool" where
  "shell_base s \<longleftrightarrow> history_inv s \<and> length (cmd_buf s) = 128 \<and>
     -1 \<le> history_nav s \<and> history_nav s < int (history_count s)"

lemma shell_inv_base: "shell_inv s \<Longrightarrow> shell_base s"
  by (simp add: shell_inv_def shell_base_def line_inv_def)

lemma after_prompt_inv:
  fixes s t :: "'a shell_scheme"
  assumes "console.more t = console.more (s\<lparr>cmd_len := 0, cmd_pos := 0, disp_len := 0,
      prompt_x := cursor_x t, prompt_y := cursor_y t\<rparr>)"
    and "con_inv t" and "shell_base s"
  shows "shell_inv t"
  using shell_fields [OF assms(1)] assms(2,3) con_invD(3,4) [of t]
  by (auto simp: shell_inv_def shell_base_def history_inv_def intro: line_inv_empty)

lemma shell_show_prompt_inv:
  fixes s :: "'a shell_scheme"
  assumes "con_inv s" and "shell_base s" and "uart_ready hw"
  shows "wp (shell_show_prompt hw s) shell_inv"
  by (rule wp_mono [OF shell_show_prompt_wp [OF assms(1,3)]])
    (use assms(2) in \<open>auto simp: draws_def intro: after_prompt_inv\<close>)

section \<open>Properties\<close>

text \<open>The redisplay of the edited line: when the old and the new text fit in the prompt's row,
  that row shows the line from the prompt on, blanks where the old text was longer, and is
  otherwise as before, the other rows and the scrollback are untouched, and the cursor stands
  at the editing position.\<close>

theorem redraw_line_shows:
  assumes "con_inv s" and "line_inv s" and "prompt_y s < 25" and "uart_ready hw"
    and "list_all printable (line s)" and "prompt_x s + disp_len s < 80" and "prompt_x s + cmd_len s < 80"
  shows "wp (redraw_line hw s) (\<lambda>s'. con_inv s' \<and> sb_lines s' = sb_lines s \<and>
    (\<forall>y < 25. \<forall>x < 80. screen_buffer s' ! y ! x =
      (if y = prompt_y s \<and> prompt_x s \<le> x \<and> x < prompt_x s + cmd_len s
       then cell (vga_color s) (line s ! (x - prompt_x s))
       else if y = prompt_y s \<and> prompt_x s \<le> x \<and> x < prompt_x s + disp_len s
       then cell (vga_color s) (CHR '' '')
       else screen_buffer s ! y ! x)) \<and>
    cursor_x s' = prompt_x s + cmd_pos s \<and> cursor_y s' = prompt_y s \<and> disp_len s' = cmd_len s)"
proof -
  note d = line_invD [OF assms(2)]
  have px: "prompt_x s < 80" using assms(6) by simp
  let ?rows = "screen_buffer s"
  let ?blank = "cell (vga_color s) (CHR '' '')"
  let ?row = "overwrite (prompt_x s) (map (cell (vga_color s)) (line s))
     (overwrite (prompt_x s) (replicate (disp_len s) ?blank) (?rows ! prompt_y s))"
  have g: "length ?rows = 25" "length (?rows ! prompt_y s) = 80"
    using assms(1,3) con_shapeD(2,7) [of s] by (auto simp: con_inv_def grid_row)
  have row: "?row ! x =
      (if prompt_x s \<le> x \<and> x < prompt_x s + cmd_len s then cell (vga_color s) (line s ! (x - prompt_x s))
       else if prompt_x s \<le> x \<and> x < prompt_x s + disp_len s then ?blank
       else ?rows ! prompt_y s ! x)" if "x < 80" for x
    using that g d assms(6,7) by (auto simp: nth_overwrite)
  show ?thesis
  proof (rule wp_mono [OF redraw_line_wp [OF assms(1,2) px assms(4)]])
    fix s' assume s': "draws (term_redraw (vga_color s) (prompt_x s) (prompt_y s) (disp_len s) (line s) (cmd_pos s)) s s' \<and>
      console.more s' = console.more (s\<lparr>disp_len := cmd_len s\<rparr>)"
    have "con_term s' = (con_term s)\<lparr>t_rows := ?rows[prompt_y s := ?row],
        t_x := prompt_x s + cmd_pos s, t_y := prompt_y s\<rparr>"
      using s' d assms(3,5,6,7) px con_term_ok [OF assms(1)]
      by (simp add: draws_def term_redraw_row)
    then have t: "screen_buffer s' = ?rows[prompt_y s := ?row]" "cursor_x s' = prompt_x s + cmd_pos s"
      "cursor_y s' = prompt_y s" "sb_lines s' = sb_lines s"
      by (simp_all add: con_term_def)
    show "con_inv s' \<and> sb_lines s' = sb_lines s \<and>
    (\<forall>y < 25. \<forall>x < 80. screen_buffer s' ! y ! x =
      (if y = prompt_y s \<and> prompt_x s \<le> x \<and> x < prompt_x s + cmd_len s
       then cell (vga_color s) (line s ! (x - prompt_x s))
       else if y = prompt_y s \<and> prompt_x s \<le> x \<and> x < prompt_x s + disp_len s
       then ?blank else ?rows ! y ! x)) \<and>
    cursor_x s' = prompt_x s + cmd_pos s \<and> cursor_y s' = prompt_y s \<and> disp_len s' = cmd_len s"
      using s' t row g(1) assms(3) shell_fields(8) [OF conjunct2 [OF s']]
      by (auto simp: draws_def nth_list_update)
  qed
qed

theorem redraw_line_shows_witness:
  "wp (redraw_line quiet_machine typing_shell) (\<lambda>s'. screen_buffer s' ! 0 ! 0 = cell 0x07 (CHR ''a'') \<and>
    screen_buffer s' ! 0 ! 2 = cell 0x07 (CHR ''c'') \<and> cursor_x s' = 2 \<and> cursor_y s' = 0 \<and> disp_len s' = 3)"
proof -
  have l: "line typing_shell = ''abc''" using typing_shell_line(2) unfolding editor_of_def by simp
  have f: "prompt_x typing_shell = 0" "prompt_y typing_shell = 0" "disp_len typing_shell = 0"
    "vga_color typing_shell = 0x07"
    by (simp_all add: typing_shell_def shell_statics_def shell.defs console.defs blank_console_def console_statics_def)
  show ?thesis
    by (rule wp_mono [OF redraw_line_shows [of typing_shell quiet_machine]])
      (auto simp: l f list_all_iff printable_def)
qed

end
