(* ===== verification/Pane.thy ===== *)
theory Pane
  imports Shell_Display
begin

text \<open>
  \<open>src/kernel/hmi/pane.c\<close>: the grid of at most four by four panes, of which one is active and
  gets half the screen. The lemmas show that the layout always fills the 80 by 25 screen
  exactly (although the code reads an uninitialised array element when there is one pane),
  that drawing never scrolls and paints exactly the lines of the layout, and that every
  operation keeps the grid within bounds.
\<close>

section \<open>State\<close>

record pane = shell +
  grid_w :: nat
  grid_h :: nat
  active_x :: nat
  active_y :: nat
  gui_active :: bool

abbreviation MAX_GRID :: nat where "MAX_GRID \<equiv> 4"
abbreviation LINE_VERT :: char where "LINE_VERT \<equiv> CHR 0xB3"
abbreviation LINE_HORZ :: char where "LINE_HORZ \<equiv> CHR 0xC4"
abbreviation LINE_CROSS :: char where "LINE_CROSS \<equiv> CHR 0xC5"

section \<open>Layout\<close>

text \<open>\<open>compute_layout\<close> does the same for widths and heights: \<open>layout_axis extent n a xs\<close> fills the
  first \<open>n\<close> elements of the uninitialised array \<open>xs\<close> for the extent \<open>extent\<close> and the active index \<open>a\<close>.\<close>

definition layout_axis :: "u32 \<Rightarrow> nat \<Rightarrow> nat \<Rightarrow> u32 list \<Rightarrow> u32 list option" where
  "layout_axis extent n a xs = do {
     (remaining, xs) \<leftarrow> for_each [0..<n] (\<lambda>i (remaining, xs).
        if i = a \<and> n > 1 then do {
          xs \<leftarrow> wr xs i (extent div 2);
          w \<leftarrow> rd xs i;
          Some (remaining - w, xs) }
        else Some (remaining, xs)) (extent, xs);
     let normal = (if n > 1 then remaining div (of_nat n - 1) else extent);
     xs \<leftarrow> for_each [0..<n] (\<lambda>i xs. if i \<noteq> a then wr xs i normal else Some xs) xs;
     sum \<leftarrow> for_each [0..<n] (\<lambda>i sum. do { w \<leftarrow> rd xs i; Some (sum + w) }) 0;
     w \<leftarrow> rd xs (sub32 n 1);
     wr xs (sub32 n 1) (w + (extent - sum)) }"

text \<open>An uninitialised local array of \<open>MAX_GRID\<close> elements, the \<open>k\<close>-th of its function.\<close>

definition stack_array :: "hardware \<Rightarrow> nat \<Rightarrow> u32 list" where
  "stack_array hw k = map (\<lambda>i. stack_word hw (k * MAX_GRID + i)) [0..<MAX_GRID]"

definition compute_layout :: "hardware \<Rightarrow> 'a pane_scheme \<Rightarrow> (u32 list \<times> u32 list) option" where
  "compute_layout hw s = do {
     widths \<leftarrow> layout_axis 80 (grid_w s) (active_x s) (stack_array hw 0);
     heights \<leftarrow> layout_axis 25 (grid_h s) (active_y s) (stack_array hw 1);
     Some (widths, heights) }"

text \<open>The start position of each pane along one axis.\<close>

definition positions :: "nat \<Rightarrow> u32 list \<Rightarrow> u32 list \<Rightarrow> u32 list option" where
  "positions n sizes pos = do {
     pos \<leftarrow> wr pos 0 0;
     for_each [1..<n] (\<lambda>i pos. do {
       p \<leftarrow> rd pos (i - 1); w \<leftarrow> rd sizes (i - 1); wr pos i (p + w) }) pos }"

section \<open>Drawing\<close>

definition set_cursor32 :: "u32 \<Rightarrow> u32 \<Rightarrow> 'a console_scheme \<Rightarrow> 'a console_scheme" where
  "set_cursor32 x y s = console_set_cursor (to_u8 (unat x)) (to_u8 (unat y)) s"

definition draw_vertical :: "hardware \<Rightarrow> u32 \<Rightarrow> 'a console_scheme \<Rightarrow> 'a console_scheme option" where
  "draw_vertical hw x =
     for_each [0..<VGA_ROWS] (\<lambda>y s. console_putc hw LINE_VERT (set_cursor32 x (of_nat y) s))"

definition draw_horizontal :: "hardware \<Rightarrow> u32 \<Rightarrow> 'a console_scheme \<Rightarrow> 'a console_scheme option" where
  "draw_horizontal hw y s =
     for_each [0..<VGA_COLS] (\<lambda>x. console_putc hw LINE_HORZ) (set_cursor32 0 y s)"

text \<open>The three loops that draw the lines between the panes.\<close>

definition draw_lines :: "hardware \<Rightarrow> u32 list \<Rightarrow> u32 list \<Rightarrow> 'a pane_scheme \<Rightarrow> 'a pane_scheme option" where
  "draw_lines hw xpos ypos s = do {
     s \<leftarrow> for_each [1..<grid_w s] (\<lambda>i s. do { x \<leftarrow> rd xpos i; draw_vertical hw x s }) s;
     s \<leftarrow> for_each [1..<grid_h s] (\<lambda>j s. do { y \<leftarrow> rd ypos j; draw_horizontal hw y s }) s;
     for_each [1..<grid_w s] (\<lambda>i s. for_each [1..<grid_h s] (\<lambda>j s. do {
       x \<leftarrow> rd xpos i; y \<leftarrow> rd ypos j;
       console_putc hw LINE_CROSS (set_cursor32 x y s) }) s) s }"

definition pane_draw_internal :: "hardware \<Rightarrow> bool \<Rightarrow> 'a pane_scheme \<Rightarrow> 'a pane_scheme option" where
  "pane_draw_internal hw show_prompt s = do {
     s \<leftarrow> console_clear s;
     (widths, heights) \<leftarrow> compute_layout hw s;
     xpos \<leftarrow> positions (grid_w s) widths (stack_array hw 2);
     ypos \<leftarrow> positions (grid_h s) heights (stack_array hw 3);
     s \<leftarrow> draw_lines hw xpos ypos s;
     x \<leftarrow> rd xpos (active_x s);
     y \<leftarrow> rd ypos (active_y s);
     let s = set_cursor32 (x + 1) (y + 1) s;
     if show_prompt then shell_show_prompt hw s else Some s }"

definition pane_draw :: "hardware \<Rightarrow> 'a pane_scheme \<Rightarrow> 'a pane_scheme option" where
  "pane_draw hw s = pane_draw_internal hw True s"

definition pane_draw_no_prompt :: "hardware \<Rightarrow> 'a pane_scheme \<Rightarrow> 'a pane_scheme option" where
  "pane_draw_no_prompt hw s = pane_draw_internal hw False s"

section \<open>Operations\<close>

definition pane_init :: "hardware \<Rightarrow> 'a pane_scheme \<Rightarrow> 'a pane_scheme option" where
  "pane_init hw s =
     pane_draw_no_prompt hw (s\<lparr>grid_w := 1, grid_h := 1, active_x := 0, active_y := 0\<rparr>)"

definition pane_gui_start :: "hardware \<Rightarrow> 'a pane_scheme \<Rightarrow> 'a pane_scheme option" where
  "pane_gui_start hw s =
     (if gui_active s then Some s
      else pane_draw hw (s\<lparr>gui_active := True, grid_w := 2, grid_h := 2, active_x := 0, active_y := 1\<rparr>))"

definition pane_gui_stop :: "hardware \<Rightarrow> 'a pane_scheme \<Rightarrow> 'a pane_scheme option" where
  "pane_gui_stop hw s =
     (if \<not> gui_active s then Some s
      else pane_draw hw (s\<lparr>gui_active := False, grid_w := 1, grid_h := 1, active_x := 0, active_y := 0\<rparr>))"

definition pane_resize_width :: "hardware \<Rightarrow> int \<Rightarrow> 'a pane_scheme \<Rightarrow> 'a pane_scheme option" where
  "pane_resize_width hw delta s = pane_draw hw
     (if delta > 0 \<and> grid_w s < MAX_GRID then s\<lparr>grid_w := grid_w s + 1\<rparr>
      else if delta < 0 \<and> grid_w s > 1 then
        let s = s\<lparr>grid_w := grid_w s - 1\<rparr>
        in if active_x s \<ge> grid_w s then s\<lparr>active_x := grid_w s - 1\<rparr> else s
      else s)"

definition pane_resize_height :: "hardware \<Rightarrow> int \<Rightarrow> 'a pane_scheme \<Rightarrow> 'a pane_scheme option" where
  "pane_resize_height hw delta s = pane_draw hw
     (if delta > 0 \<and> grid_h s < MAX_GRID then s\<lparr>grid_h := grid_h s + 1\<rparr>
      else if delta < 0 \<and> grid_h s > 1 then
        let s = s\<lparr>grid_h := grid_h s - 1\<rparr>
        in if active_y s \<ge> grid_h s then s\<lparr>active_y := grid_h s - 1\<rparr> else s
      else s)"

definition pane_move_left :: "hardware \<Rightarrow> 'a pane_scheme \<Rightarrow> 'a pane_scheme option" where
  "pane_move_left hw s =
     pane_draw hw (if active_x s > 0 then s\<lparr>active_x := active_x s - 1\<rparr> else s)"

definition pane_move_right :: "hardware \<Rightarrow> 'a pane_scheme \<Rightarrow> 'a pane_scheme option" where
  "pane_move_right hw s =
     pane_draw hw (if active_x s + 1 < grid_w s then s\<lparr>active_x := active_x s + 1\<rparr> else s)"

definition pane_move_up :: "hardware \<Rightarrow> 'a pane_scheme \<Rightarrow> 'a pane_scheme option" where
  "pane_move_up hw s =
     pane_draw hw (if active_y s > 0 then s\<lparr>active_y := active_y s - 1\<rparr> else s)"

definition pane_move_down :: "hardware \<Rightarrow> 'a pane_scheme \<Rightarrow> 'a pane_scheme option" where
  "pane_move_down hw s =
     pane_draw hw (if active_y s + 1 < grid_h s then s\<lparr>active_y := active_y s + 1\<rparr> else s)"

section \<open>The layout fills the screen\<close>

definition pane_ok :: "'a pane_scheme \<Rightarrow> bool" where
  "pane_ok s \<longleftrightarrow> 1 \<le> grid_w s \<and> grid_w s \<le> 4 \<and> active_x s < grid_w s \<and>
     1 \<le> grid_h s \<and> grid_h s \<le> 4 \<and> active_y s < grid_h s"

text \<open>The sizes the layout should have, and the positions they give.\<close>

definition axis_sizes :: "nat \<Rightarrow> nat \<Rightarrow> nat \<Rightarrow> nat list" where
  "axis_sizes extent n a =
     (let half = extent div 2; normal = (extent - half) div (n - 1);
          sizes = (if n = 1 then [extent] else map (\<lambda>i. if i = a then half else normal) [0..<n])
      in sizes[n - 1 := last sizes + (extent - sum_list sizes)])"

definition axis_pos :: "nat \<Rightarrow> nat \<Rightarrow> nat \<Rightarrow> nat \<Rightarrow> nat" where
  "axis_pos extent n a i = sum_list (take i (axis_sizes extent n a))"

lemma axis_cases:
  assumes "1 \<le> n" and "n \<le> 4" and "a < (n::nat)"
  obtains "n = 1" "a = 0" | "n = 2" "a = 0" | "n = 2" "a = 1" | "n = 3" "a = 0" | "n = 3" "a = 1"
    | "n = 3" "a = 2" | "n = 4" "a = 0" | "n = 4" "a = 1" | "n = 4" "a = 2" | "n = 4" "a = 3"
proof -
  have "n = 1 \<or> n = 2 \<or> n = 3 \<or> n = 4" using assms by auto
  moreover have "a = 0 \<or> a = 1 \<or> a = 2 \<or> a = 3" using assms by auto
  ultimately show ?thesis using that assms(3) by auto
qed

lemma list4: "length xs = 4 \<longleftrightarrow> (\<exists>a b c d. xs = [a, b, c, d])"
  by (auto simp: numeral_eq_Suc length_Suc_conv)

lemma upt_small [simp]:
  "[0..<2] = [0, Suc 0]" "[0..<3] = [0, Suc 0, 2]" "[0..<4] = [0, Suc 0, 2, 3]"
  "[Suc 0..<2] = [Suc 0]" "[Suc 0..<3] = [Suc 0, 2]" "[Suc 0..<4] = [Suc 0, 2, 3]"
  by (simp_all add: upt_rec)

lemma layout_axis_eq:
  assumes "1 \<le> n" and "n \<le> 4" and "a < n" and "extent = 80 \<or> extent = 25" and "length xs = 4"
  shows "layout_axis extent n a xs =
    Some (map of_nat (axis_sizes (unat extent) n a) @ drop n xs)"
proof -
  from assms(5) obtain x y z w where xs: "xs = [x, y, z, w]" unfolding list4 by blast
  show ?thesis
    using assms(1-3)
  proof (cases rule: axis_cases)
    case 1
    then show ?thesis using assms(4) by (auto simp: xs layout_axis_def axis_sizes_def sub32_def)
  qed (use assms(4) in \<open>auto simp: xs layout_axis_def axis_sizes_def sub32_def rd_def wr_def Let_def\<close>)
qed
lemma positions_eq:
  assumes "1 \<le> n" and "n \<le> 4" and "a < n" and "extent = 80 \<or> extent = 25" and "length pos = 4"
  shows "positions n (map of_nat (axis_sizes extent n a) @ rest) pos =
    Some (map (\<lambda>i. of_nat (axis_pos extent n a i)) [0..<n] @ drop n pos)"
proof -
  from assms(5) obtain x y z w where pos: "pos = [x, y, z, w]" unfolding list4 by blast
  show ?thesis
    using assms(1-3)
    by (cases rule: axis_cases)
      (use assms(4) in \<open>auto simp: pos positions_def axis_pos_def axis_sizes_def Let_def\<close>)
qed

text \<open>Every pane is at least 13 columns wide and 4 rows high, so lines and prompt stay on screen.\<close>

lemma axis_pos_bounds:
  assumes "1 \<le> n" and "n \<le> 4" and "a < n" and "i < n"
  shows "axis_pos 80 n a i \<le> 66" and "axis_pos 25 n a i \<le> 21"
proof -
  have i: "i = 0 \<or> i = 1 \<or> i = 2 \<or> i = 3" using assms(2,4) by auto
  show "axis_pos 80 n a i \<le> 66"
    using assms(1-3) by (cases rule: axis_cases) (use i assms(4) in \<open>auto simp: axis_pos_def axis_sizes_def Let_def\<close>)
  show "axis_pos 25 n a i \<le> 21"
    using assms(1-3) by (cases rule: axis_cases) (use i assms(4) in \<open>auto simp: axis_pos_def axis_sizes_def Let_def\<close>)
qed

section \<open>Painting\<close>

definition paint :: "(nat \<Rightarrow> nat \<Rightarrow> u16) \<Rightarrow> u16 list list" where
  "paint f = map (\<lambda>y. map (f y) [0..<80]) [0..<25]"

definition canvas :: "(nat \<Rightarrow> nat \<Rightarrow> u16) \<Rightarrow> nat \<Rightarrow> nat \<Rightarrow> terminal" where
  "canvas f x y = \<lparr>t_hist = [], t_rows = paint f, t_x = x, t_y = y\<rparr>"

lemma paint_cong: "(\<And>y x. y < 25 \<Longrightarrow> x < 80 \<Longrightarrow> f y x = g y x) \<Longrightarrow> paint f = paint g"
  by (simp add: paint_def)

lemma paint_nth: "y < 25 \<Longrightarrow> x < 80 \<Longrightarrow> paint f ! y ! x = f y x"
  by (simp add: paint_def)

lemma paint_set:
  assumes "y < 25" and "x < 80"
  shows "(paint f)[y := (paint f ! y)[x := v]] = paint (f(y := (f y)(x := v)))"
  using assms by (auto simp: paint_def nth_list_update intro!: nth_equalityI)

lemma canvas_goto: "x < 80 \<Longrightarrow> y < 25 \<Longrightarrow> term_goto x y (canvas f x' y') = canvas f x y"
  by (simp add: canvas_def term_goto_def)

lemma canvas_put:
  assumes "printable c" and "x < 80" and "y < 25" and "x = 79 \<Longrightarrow> y < 24"
  shows "term_put col c (canvas f x y) =
    canvas (f(y := (f y)(x := cell col c))) (if x = 79 then 0 else x + 1) (if x = 79 then y + 1 else y)"
  using assms
  by (auto simp: term_put_def printable_def Let_def canvas_def term_set_def paint_set term_newline_def)

lemma canvas_row:
  assumes "y < 25" and "printable c" and "k < 80"
  shows "term_write col (replicate k c) (canvas f 0 y) =
    canvas (\<lambda>y' x'. if y' = y \<and> x' < k then cell col c else f y' x') k y"
  using assms(3)
proof (induction k)
  case 0
  then show ?case by simp
next
  case (Suc k)
  have "term_write col (replicate (Suc k) c) (canvas f 0 y)
    = term_put col c (canvas (\<lambda>y' x'. if y' = y \<and> x' < k then cell col c else f y' x') k y)"
    using Suc by (simp add: replicate_append_same [symmetric])
  also have "\<dots> = canvas (\<lambda>y' x'. if y' = y \<and> x' < Suc k then cell col c else f y' x') (Suc k) y"
    using assms(1,2) Suc.prems
    by (subst canvas_put) (auto simp: fun_eq_iff intro!: arg_cong [where f = "\<lambda>g. canvas g (Suc k) y"])
  finally show ?case .
qed

lemma canvas_full_row:
  assumes "y < 24" and "printable c"
  shows "term_write col (replicate 80 c) (canvas f 0 y) =
    canvas (\<lambda>y' x'. if y' = y \<and> x' < 80 then cell col c else f y' x') 0 (y + 1)"
proof -
  have "replicate 80 c = replicate 79 c @ [c]" by (simp add: replicate_append_same numeral_eq_Suc)
  then have "term_write col (replicate 80 c) (canvas f 0 y)
    = term_put col c (canvas (\<lambda>y' x'. if y' = y \<and> x' < 79 then cell col c else f y' x') 79 y)"
    using assms canvas_row [of y c 79 col f] by simp
  also have "\<dots> = canvas (\<lambda>y' x'. if y' = y \<and> x' < 80 then cell col c else f y' x') 0 (y + 1)"
    using assms by (subst canvas_put) (auto simp: fun_eq_iff intro!: arg_cong [where f = "\<lambda>g. canvas g 0 (Suc y)"])
  finally show ?thesis .
qed

text \<open>A console that shows \<open>f\<close> and agrees with \<open>s0\<close> on everything output does not change.\<close>

definition shows_canvas :: "'a console_scheme \<Rightarrow> (nat \<Rightarrow> nat \<Rightarrow> u16) \<Rightarrow> 'a console_scheme \<Rightarrow> bool" where
  "shows_canvas s0 f s \<longleftrightarrow> con_inv s \<and> con_keep s = con_keep s0 \<and> console.more s = console.more s0 \<and>
     (\<exists>x y. con_term s = canvas f x y)"

lemma set_cursor_canvas:
  assumes "shows_canvas s0 f s" and "x < 80" and "y < 25"
  shows "shows_canvas s0 f (set_cursor32 (of_nat x) (of_nat y) s)"
    and "con_term (set_cursor32 (of_nat x) (of_nat y) s) = canvas f x y"
proof -
  have xy: "set_cursor32 (of_nat x) (of_nat y) s = console_set_cursor x y s"
    using assms(2,3) by (simp add: set_cursor32_def unat_of_nat)
  have i: "con_inv s" using assms(1) by (simp add: shows_canvas_def)
  note d = set_cursor_draws [OF i, of x y]
  show "con_term (set_cursor32 (of_nat x) (of_nat y) s) = canvas f x y"
    unfolding xy using assms d canvas_goto by (auto simp: shows_canvas_def draws_def)
  then have "\<exists>x' y'. con_term (console_set_cursor x y s) = canvas f x' y'" unfolding xy by blast
  moreover have "con_inv (console_set_cursor x y s)" "con_keep (console_set_cursor x y s) = con_keep s"
    "console.more (console_set_cursor x y s) = console.more s"
    using d by (simp_all add: draws_def)
  ultimately show "shows_canvas s0 f (set_cursor32 (of_nat x) (of_nat y) s)"
    unfolding xy using assms(1) by (simp only: shows_canvas_def simp_thms)
qed

lemma put_at_canvas:
  assumes "shows_canvas s0 f s" and "x < 79" and "y < 25" and "printable c" and "uart_ready hw"
  shows "wp (console_putc hw c (set_cursor32 (of_nat x) (of_nat y) s))
    (shows_canvas s0 (f(y := (f y)(x := cell (vga_color s0) c))))"
proof -
  let ?s = "set_cursor32 (of_nat x) (of_nat y) s"
  have s: "shows_canvas s0 f ?s" "con_term ?s = canvas f x y"
    using set_cursor_canvas [OF assms(1), of x y] assms(2,3) by simp_all
  then have i: "con_inv ?s" and col: "vga_color ?s = vga_color s0"
    by (auto simp: shows_canvas_def con_keep_def)
  show ?thesis
  proof (rule wp_mono [OF putc_wp [OF i assms(5)]])
    fix t assume "prints (term_put (vga_color ?s) c) [byte_of c] ?s t"
    from prints_draws [OF this] show "shows_canvas s0 (f(y := (f y)(x := cell (vga_color s0) c))) t"
      using s assms(2,3) canvas_put [OF assms(4), of x y] unfolding col
      by (auto simp: shows_canvas_def draws_def)
  qed
qed

lemma draw_vertical_wp:
  assumes "shows_canvas s0 f s" and "x < 79" and "uart_ready hw"
  shows "wp (draw_vertical hw (of_nat x) s)
    (shows_canvas s0 (\<lambda>y' x'. if x' = x \<and> y' < 25 then cell (vga_color s0) LINE_VERT else f y' x'))"
  unfolding draw_vertical_def
proof (rule wp_for_upt [where I = "\<lambda>k. shows_canvas s0
    (\<lambda>y' x'. if x' = x \<and> y' < k then cell (vga_color s0) LINE_VERT else f y' x')"])
  fix i t
  let ?f = "\<lambda>k y' x'. if x' = x \<and> y' < k then cell (vga_color s0) LINE_VERT else f y' x'"
  assume "0 \<le> i" and i: "i < 25" and t: "shows_canvas s0 (?f i) t"
  have "(?f i)(i := (?f i i)(x := cell (vga_color s0) LINE_VERT)) = ?f (Suc i)"
    by (auto simp: fun_eq_iff less_Suc_eq)
  then show "wp (console_putc hw LINE_VERT (set_cursor32 (of_nat x) (of_nat i) t)) (shows_canvas s0 (?f (Suc i)))"
    using put_at_canvas [OF t assms(2) i _ assms(3), of LINE_VERT] by (simp add: printable_def)
qed (use assms(1) in auto)

lemma draw_horizontal_wp:
  assumes "shows_canvas s0 f s" and "y < 24" and "uart_ready hw"
  shows "wp (draw_horizontal hw (of_nat y) s)
    (shows_canvas s0 (\<lambda>y' x'. if y' = y \<and> x' < 80 then cell (vga_color s0) LINE_HORZ else f y' x'))"
proof -
  let ?s = "set_cursor32 0 (of_nat y) s"
  have s: "shows_canvas s0 f ?s" "con_term ?s = canvas f 0 y"
    using set_cursor_canvas [OF assms(1), of 0 y] assms(2) by simp_all
  then have i: "con_inv ?s" and col: "vga_color ?s = vga_color s0"
    by (auto simp: shows_canvas_def con_keep_def)
  show ?thesis
    unfolding draw_horizontal_def for_each_const
    using s assms(2) canvas_full_row [of y LINE_HORZ "vga_color s0" f] col
    by (intro wp_mono [OF puts_draws [OF i assms(3)]])
      (auto simp: shows_canvas_def draws_def printable_def)
qed

section \<open>What a drawn layout shows\<close>

definition pane_x :: "'a pane_scheme \<Rightarrow> nat \<Rightarrow> nat" where
  "pane_x s i = axis_pos 80 (grid_w s) (active_x s) i"

definition pane_y :: "'a pane_scheme \<Rightarrow> nat \<Rightarrow> nat" where
  "pane_y s j = axis_pos 25 (grid_h s) (active_y s) j"

text \<open>The cell at row \<open>y\<close> and column \<open>x\<close> of a screen with the pane lines and nothing else.\<close>

definition grid_cell :: "u8 \<Rightarrow> nat set \<Rightarrow> nat set \<Rightarrow> nat \<Rightarrow> nat \<Rightarrow> u16" where
  "grid_cell col xs ys y x =
     cell col (if x \<in> xs \<and> y \<in> ys then LINE_CROSS else if y \<in> ys then LINE_HORZ
               else if x \<in> xs then LINE_VERT else CHR '' '')"

lemma shows_canvas_cong:
  assumes "shows_canvas s0 f s" and "\<And>y x. y < 25 \<Longrightarrow> x < 80 \<Longrightarrow> f y x = g y x"
  shows "shows_canvas s0 g s"
proof -
  have "paint f = paint g" using assms(2) by (rule paint_cong)
  then show ?thesis using assms(1) by (simp add: shows_canvas_def canvas_def)
qed

lemma insert_upt: "a \<le> i \<Longrightarrow> f ` {a..<Suc i} = insert (f i) (f ` {a..<i})"
  by (auto simp: less_Suc_eq le_less)

lemma verticals_wp:
  assumes "shows_canvas s0 (grid_cell (vga_color s0) {} {}) s" and "uart_ready hw" and "1 \<le> n"
    and "\<And>i. i < n \<Longrightarrow> p i < 79" and "\<And>i. i < n \<Longrightarrow> rd xpos i = Some (of_nat (p i))"
  shows "wp (for_each [1..<n] (\<lambda>i s. do { x \<leftarrow> rd xpos i; draw_vertical hw x s }) s)
    (shows_canvas s0 (grid_cell (vga_color s0) (p ` {1..<n}) {}))"
proof (rule wp_for_upt [where I = "\<lambda>k. shows_canvas s0 (grid_cell (vga_color s0) (p ` {1..<k}) {})"])
  fix i t
  assume i: "1 \<le> i" "i < n" and t: "shows_canvas s0 (grid_cell (vga_color s0) (p ` {1..<i}) {}) t"
  show "wp (do { x \<leftarrow> rd xpos i; draw_vertical hw x t })
      (shows_canvas s0 (grid_cell (vga_color s0) (p ` {1..<Suc i}) {}))"
    unfolding assms(5) [OF i(2)] insert_upt [OF i(1)] Option.bind.bind_lunit
    by (rule wp_mono [OF draw_vertical_wp [OF t assms(4) [OF i(2)] assms(2)]])
      (auto elim!: shows_canvas_cong simp: grid_cell_def)
qed (use assms in auto)

lemma horizontals_wp:
  assumes "shows_canvas s0 (grid_cell (vga_color s0) xs {}) s" and "uart_ready hw" and "1 \<le> n"
    and "\<And>j. j < n \<Longrightarrow> q j < 24" and "\<And>j. j < n \<Longrightarrow> rd ypos j = Some (of_nat (q j))"
  shows "wp (for_each [1..<n] (\<lambda>j s. do { y \<leftarrow> rd ypos j; draw_horizontal hw y s }) s)
    (shows_canvas s0 (\<lambda>y x. if y \<in> q ` {1..<n} then cell (vga_color s0) LINE_HORZ
       else grid_cell (vga_color s0) xs {} y x))"
proof (rule wp_for_upt [where I = "\<lambda>k. shows_canvas s0 (\<lambda>y x. if y \<in> q ` {1..<k}
    then cell (vga_color s0) LINE_HORZ else grid_cell (vga_color s0) xs {} y x)"])
  fix j t
  assume j: "1 \<le> j" "j < n" and t: "shows_canvas s0 (\<lambda>y x. if y \<in> q ` {1..<j}
    then cell (vga_color s0) LINE_HORZ else grid_cell (vga_color s0) xs {} y x) t"
  show "wp (do { y \<leftarrow> rd ypos j; draw_horizontal hw y t })
      (shows_canvas s0 (\<lambda>y x. if y \<in> q ` {1..<Suc j} then cell (vga_color s0) LINE_HORZ
         else grid_cell (vga_color s0) xs {} y x))"
    unfolding assms(5) [OF j(2)] insert_upt [OF j(1)] Option.bind.bind_lunit
    by (rule wp_mono [OF draw_horizontal_wp [OF t assms(4) [OF j(2)] assms(2)]])
      (auto elim!: shows_canvas_cong)
qed (use assms in auto)

text \<open>The crossings, column by column.\<close>

lemma crosses_wp:
  assumes "shows_canvas s0 f s" and "uart_ready hw" and "1 \<le> m" and "1 \<le> n"
    and "\<And>i. i < m \<Longrightarrow> p i < 79 \<and> rd xpos i = Some (of_nat (p i))"
    and "\<And>j. j < n \<Longrightarrow> q j < 24 \<and> rd ypos j = Some (of_nat (q j))"
    and "\<And>f u. shows_canvas s0 f u \<Longrightarrow> N u = n"
  shows "wp (for_each [1..<m] (\<lambda>i s. for_each [1..<N s] (\<lambda>j s. do {
            x \<leftarrow> rd xpos i; y \<leftarrow> rd ypos j;
            console_putc hw LINE_CROSS (set_cursor32 x y s) }) s) s)
    (shows_canvas s0 (\<lambda>y x. if x \<in> p ` {1..<m} \<and> y \<in> q ` {1..<n} then cell (vga_color s0) LINE_CROSS else f y x))"
proof (rule wp_for_upt [where I = "\<lambda>k. shows_canvas s0
    (\<lambda>y x. if x \<in> p ` {1..<k} \<and> y \<in> q ` {1..<n} then cell (vga_color s0) LINE_CROSS else f y x)"])
  fix i t
  let ?f = "\<lambda>y x. if x \<in> p ` {1..<i} \<and> y \<in> q ` {1..<n} then cell (vga_color s0) LINE_CROSS else f y x"
  let ?g = "\<lambda>k y x. if x = p i \<and> y \<in> q ` {1..<k} then cell (vga_color s0) LINE_CROSS else ?f y x"
  assume i: "1 \<le> i" "i < m" and t: "shows_canvas s0 ?f t"
  have "wp (for_each [1..<n] (\<lambda>j s. do { x \<leftarrow> rd xpos i; y \<leftarrow> rd ypos j;
            console_putc hw LINE_CROSS (set_cursor32 x y s) }) t) (shows_canvas s0 (?g n))"
  proof (rule wp_for_upt [where I = "\<lambda>k. shows_canvas s0 (?g k)"])
    fix j u
    assume j: "1 \<le> j" "j < n" and u: "shows_canvas s0 (?g j) u"
    have eq: "(?g j)(q j := (?g j (q j))(p i := cell (vga_color s0) LINE_CROSS)) = ?g (Suc j)"
      using insert_upt [OF j(1), of q] by (auto simp: fun_eq_iff)
    have b: "p i < 79" "q j < 25" using assms(5) [OF i(2)] assms(6) [OF j(2)] by auto
    show "wp (do { x \<leftarrow> rd xpos i; y \<leftarrow> rd ypos j; console_putc hw LINE_CROSS (set_cursor32 x y u) })
        (shows_canvas s0 (?g (Suc j)))"
      using put_at_canvas [OF u b _ assms(2), of LINE_CROSS] assms(5) [OF i(2)] assms(6) [OF j(2)]
      unfolding eq by (simp add: printable_def)
  qed (use assms(4) t in auto)
  then show "wp (for_each [1..<N t] (\<lambda>j s. do { x \<leftarrow> rd xpos i; y \<leftarrow> rd ypos j;
            console_putc hw LINE_CROSS (set_cursor32 x y s) }) t)
    (shows_canvas s0 (\<lambda>y x. if x \<in> p ` {1..<Suc i} \<and> y \<in> q ` {1..<n} then cell (vga_color s0) LINE_CROSS else f y x))"
    unfolding insert_upt [OF i(1)] assms(7) [OF t] by (rule wp_mono) (auto elim!: shows_canvas_cong)
qed (use assms in auto)

lemma pane_fields:
  fixes s s' :: "'a pane_scheme"
  assumes "console.more s' = console.more s"
  shows "grid_w s' = grid_w s" "grid_h s' = grid_h s" "active_x s' = active_x s" "active_y s' = active_y s"
    "gui_active s' = gui_active s" "pane.more s' = pane.more s"
  using assms by (cases s; cases s'; simp)+

lemma length_stack_array [simp]: "length (stack_array hw k) = 4"
  by (simp add: stack_array_def)

text \<open>The layout computation as a whole, with the bounds the drawing needs.\<close>

lemma compute_layout_eq:
  assumes "pane_ok s"
  shows "compute_layout hw s = Some
    (map of_nat (axis_sizes 80 (grid_w s) (active_x s)) @ drop (grid_w s) (stack_array hw 0),
     map of_nat (axis_sizes 25 (grid_h s) (active_y s)) @ drop (grid_h s) (stack_array hw 1))"
  using assms by (simp add: compute_layout_def pane_ok_def layout_axis_eq)

lemma positions_rd:
  assumes "1 \<le> n" and "n \<le> 4" and "a < n" and "i < n"
  shows "rd (map (\<lambda>i. of_nat (axis_pos extent n a i)) [0..<n] @ drop n (stack_array hw k)) i
    = Some (of_nat (axis_pos extent n a i))"
  using assms by (simp add: nth_append)

lemma canvas_blank: "term_blank col t = canvas (grid_cell col {} {}) 0 0"
  by (simp add: term_blank_def canvas_def grid_cell_def [abs_def] paint_def map_replicate_const)

lemma pane_clear_wp:
  fixes s :: "'a pane_scheme"
  assumes "con_shape s"
  shows "wp (console_clear s) (shows_canvas s (grid_cell (vga_color s) {} {}))"
  using console_clear_wp [OF assms]
  by (rule wp_mono) (auto simp: shows_canvas_def prints_def canvas_blank con_frame_def con_keep_def)

text \<open>The lines of the layout of a state.\<close>

definition layout_cell :: "'a pane_scheme \<Rightarrow> nat \<Rightarrow> nat \<Rightarrow> u16" where
  "layout_cell s = grid_cell (vga_color s) (pane_x s ` {1..<grid_w s}) (pane_y s ` {1..<grid_h s})"

lemma draw_lines_wp:
  fixes s t :: "'a pane_scheme"
  assumes "shows_canvas s (grid_cell (vga_color s) {} {}) t" and "pane_ok s" and "uart_ready hw"
    and "\<And>i. i < grid_w s \<Longrightarrow> rd xpos i = Some (of_nat (pane_x s i))"
    and "\<And>j. j < grid_h s \<Longrightarrow> rd ypos j = Some (of_nat (pane_y s j))"
  shows "wp (draw_lines hw xpos ypos t) (shows_canvas s (layout_cell s))"
proof -
  have ok: "1 \<le> grid_w s" "grid_w s \<le> 4" "active_x s < grid_w s"
    "1 \<le> grid_h s" "grid_h s \<le> 4" "active_y s < grid_h s"
    using assms(2) by (simp_all add: pane_ok_def)
  have bx: "pane_x s i < 79" if "i < grid_w s" for i
    using axis_pos_bounds(1) [OF ok(1-3) that] by (simp add: pane_x_def)
  have bq: "pane_y s j < 24" if "j < grid_h s" for j
    using axis_pos_bounds(2) [OF ok(4-6) that] by (simp add: pane_y_def)
  have w: "grid_w u = grid_w s" and h: "grid_h u = grid_h s" if "shows_canvas s f u" for f and u :: "'a pane_scheme"
    using that pane_fields [of u s] by (auto simp: shows_canvas_def)
  show ?thesis
    unfolding draw_lines_def w [OF assms(1)]
  proof (rule wp_seq [OF verticals_wp [OF assms(1,3) ok(1) bx assms(4)]])
    fix u :: "'a pane_scheme"
    assume u: "shows_canvas s (grid_cell (vga_color s) (pane_x s ` {1..<grid_w s}) {}) u"
    show "wp (do {
     s \<leftarrow> for_each [1..<grid_h u] (\<lambda>j s. do { y \<leftarrow> rd ypos j; draw_horizontal hw y s }) u;
     for_each [1..<grid_w s] (\<lambda>i s. for_each [1..<grid_h s] (\<lambda>j s. do {
            x \<leftarrow> rd xpos i; y \<leftarrow> rd ypos j;
            console_putc hw LINE_CROSS (set_cursor32 x y s) }) s) s }) (shows_canvas s (layout_cell s))"
      unfolding h [OF u]
    proof (rule wp_seq [OF horizontals_wp [OF u assms(3) ok(4) bq assms(5)]])
      fix v :: "'a pane_scheme"
      let ?f = "\<lambda>y x. if y \<in> pane_y s ` {1..<grid_h s} then cell (vga_color s) LINE_HORZ
        else grid_cell (vga_color s) (pane_x s ` {1..<grid_w s}) {} y x"
      assume v: "shows_canvas s ?f v"
      show "wp (for_each [1..<grid_w v] (\<lambda>i s. for_each [1..<grid_h s] (\<lambda>j s. do {
            x \<leftarrow> rd xpos i; y \<leftarrow> rd ypos j;
            console_putc hw LINE_CROSS (set_cursor32 x y s) }) s) v) (shows_canvas s (layout_cell s))"
        unfolding w [OF v]
        by (rule wp_mono [OF crosses_wp [where N = grid_h, OF v assms(3) ok(1,4) _ _ h]])
          (use bx bq assms(4,5) in \<open>auto elim!: shows_canvas_cong simp: layout_cell_def grid_cell_def\<close>)
    qed
  qed
qed

text \<open>Drawing the layout, up to the prompt.\<close>

lemma draw_layout_wp:
  fixes s :: "'a pane_scheme"
  assumes "con_shape s" and "pane_ok s" and "uart_ready hw"
  shows "wp (pane_draw_internal hw False s) (\<lambda>s'. con_inv s' \<and> con_keep s' = con_keep s \<and>
    console.more s' = console.more s \<and>
    con_term s' = canvas (layout_cell s) (pane_x s (active_x s) + 1) (pane_y s (active_y s) + 1))"
    and "pane_draw_internal hw True s = Option.bind (pane_draw_internal hw False s) (shell_show_prompt hw)"
proof -
  have ok: "1 \<le> grid_w s" "grid_w s \<le> 4" "active_x s < grid_w s"
    "1 \<le> grid_h s" "grid_h s \<le> 4" "active_y s < grid_h s"
    using assms(2) by (simp_all add: pane_ok_def)
  let ?xpos = "map (\<lambda>i. of_nat (axis_pos 80 (grid_w s) (active_x s) i)) [0..<grid_w s] @ drop (grid_w s) (stack_array hw 2)"
  let ?ypos = "map (\<lambda>j. of_nat (axis_pos 25 (grid_h s) (active_y s) j)) [0..<grid_h s] @ drop (grid_h s) (stack_array hw 3)"
  let ?x = "pane_x s (active_x s)" and ?y = "pane_y s (active_y s)"
  let ?Q = "\<lambda>s'. con_inv s' \<and> con_keep s' = con_keep s \<and> console.more s' = console.more s \<and>
    con_term s' = canvas (layout_cell s) (?x + 1) (?y + 1)"
  have xr: "rd ?xpos i = Some (of_nat (pane_x s i))" if "i < grid_w s" for i
    using positions_rd [OF ok(1-3) that] by (simp add: pane_x_def)
  have yr: "rd ?ypos j = Some (of_nat (pane_y s j))" if "j < grid_h s" for j
    using positions_rd [OF ok(4-6) that] by (simp add: pane_y_def)
  have b: "?x + 1 < 80" "?y + 1 < 25"
    using axis_pos_bounds(1) [OF ok(1-3,3)] axis_pos_bounds(2) [OF ok(4-6,6)]
    by (simp_all add: pane_x_def pane_y_def)
  show "wp (pane_draw_internal hw False s) ?Q"
    unfolding pane_draw_internal_def
  proof (rule wp_seq [OF pane_clear_wp [OF assms(1)]])
    fix t :: "'a pane_scheme"
    assume t: "shows_canvas s (grid_cell (vga_color s) {} {}) t"
    then have f: "pane_ok t" "grid_w t = grid_w s" "grid_h t = grid_h s" "active_x t = active_x s" "active_y t = active_y s"
      using pane_fields [of t s] assms(2) by (auto simp: shows_canvas_def pane_ok_def)
    have "wp (do { s \<leftarrow> draw_lines hw ?xpos ?ypos t;
        x \<leftarrow> rd ?xpos (active_x s); y \<leftarrow> rd ?ypos (active_y s); Some (set_cursor32 (x + 1) (y + 1) s) }) ?Q"
    proof (rule wp_seq [OF draw_lines_wp [OF t assms(2,3) xr yr]])
      fix u :: "'a pane_scheme"
      assume u: "shows_canvas s (layout_cell s) u"
      then have a: "active_x u = active_x s" "active_y u = active_y s"
        using pane_fields [of u s] by (auto simp: shows_canvas_def)
      note c = set_cursor_canvas [OF u b]
      show "wp (do { x \<leftarrow> rd ?xpos (active_x u); y \<leftarrow> rd ?ypos (active_y u); Some (set_cursor32 (x + 1) (y + 1) u) }) ?Q"
        unfolding a xr [OF ok(3)] yr [OF ok(6)] using c by (simp add: shows_canvas_def add.commute)
    qed
    then show "wp (do {
     (widths, heights) \<leftarrow> compute_layout hw t;
     xpos \<leftarrow> positions (grid_w t) widths (stack_array hw 2);
     ypos \<leftarrow> positions (grid_h t) heights (stack_array hw 3);
     s \<leftarrow> draw_lines hw xpos ypos t;
     x \<leftarrow> rd xpos (active_x s);
     y \<leftarrow> rd ypos (active_y s);
     let s = set_cursor32 (x + 1) (y + 1) s;
     if False then shell_show_prompt hw s else Some s }) ?Q"
      unfolding compute_layout_eq [OF f(1)] f(2-5)
      using positions_eq [OF ok(1-3), of 80 "stack_array hw 2"] positions_eq [OF ok(4-6), of 25 "stack_array hw 3"]
      by (simp add: Let_def del: rd_in wp_bind)
  qed
  show "pane_draw_internal hw True s = Option.bind (pane_draw_internal hw False s) (shell_show_prompt hw)"
    by (simp add: pane_draw_internal_def Let_def case_prod_unfold)
qed

section \<open>A drawn screen with its prompt\<close>

definition pane_inv :: "'a pane_scheme \<Rightarrow> bool" where
  "pane_inv s \<longleftrightarrow> shell_inv s \<and> pane_ok s"

text \<open>The screen shows the lines of the state's layout, the prompt in the active pane and nothing
  else; nothing has scrolled off, and the line is empty.\<close>

definition pane_drawn :: "'a pane_scheme \<Rightarrow> bool" where
  "pane_drawn s \<longleftrightarrow>
     (let px = pane_x s (active_x s) + 1; py = pane_y s (active_y s) + 1 in
      sb_lines s = [] \<and> line s = [] \<and>
      (\<forall>y < 25. \<forall>x < 80. screen_buffer s ! y ! x =
        (if y = py \<and> px \<le> x \<and> x < px + 8 then cell (vga_color s) (prompt ! (x - px))
         else layout_cell s y x)) \<and>
      prompt_x s = px + 8 \<and> prompt_y s = py \<and> cursor_x s = prompt_x s \<and> cursor_y s = prompt_y s)"

definition pane_grid :: "'a pane_scheme \<Rightarrow> nat \<times> nat \<times> nat \<times> nat \<times> bool" where
  "pane_grid s = (grid_w s, grid_h s, active_x s, active_y s, gui_active s)"

lemma pane_grid_layout:
  assumes "pane_grid s' = pane_grid s"
  shows "pane_x s' = pane_x s" "pane_y s' = pane_y s" "active_x s' = active_x s" "active_y s' = active_y s"
    "vga_color s' = vga_color s \<Longrightarrow> layout_cell s' = layout_cell s" "pane_ok s' = pane_ok s"
  using assms by (auto simp: pane_grid_def pane_x_def pane_y_def layout_cell_def pane_ok_def fun_eq_iff)

text \<open>What the shell keeps across a redraw.\<close>

definition shell_keep :: "'a pane_scheme \<Rightarrow> char list list \<times> nat \<times> nat \<times> int \<times> char list \<times> 'a" where
  "shell_keep s = (history s, history_count s, history_index s, history_nav s, cmd_buf s, pane.more s)"

lemma write_prompt_canvas:
  assumes "x + 8 < 80" and "y < 25"
  shows "term_write col prompt (canvas f x y) = canvas
    (\<lambda>y' x'. if y' = y \<and> x \<le> x' \<and> x' < x + 8 then cell col (prompt ! (x' - x)) else f y' x') (x + 8) y"
proof -
  have ok: "term_ok (canvas f x y)" using assms by (simp add: term_ok_def canvas_def paint_def grid_def)
  have pr: "list_all printable prompt" "length prompt = 8" by (simp_all add: prompt_def printable_def)
  have "(paint f)[y := overwrite x (map (cell col) prompt) (paint f ! y)] =
    paint (\<lambda>y' x'. if y' = y \<and> x \<le> x' \<and> x' < x + 8 then cell col (prompt ! (x' - x)) else f y' x')"
    using assms pr(2)
    by (intro grid_eqI [of 25 80] grid_update)
      (auto simp: paint_def grid_def nth_list_update nth_overwrite)
  then show ?thesis
    using term_write_row [OF ok pr(1), of col] assms pr(2) by (simp add: canvas_def)
qed

lemma pane_draw_wp:
  fixes s :: "'a pane_scheme"
  assumes "con_shape s" and "shell_base s" and "pane_ok s" and "uart_ready hw"
  shows "wp (pane_draw hw s) (\<lambda>s'. pane_inv s' \<and> pane_drawn s' \<and> pane_grid s' = pane_grid s \<and>
    con_keep s' = con_keep s \<and> shell_keep s' = shell_keep s)"
  unfolding pane_draw_def draw_layout_wp(2) [OF assms(1,3,4)]
proof (rule wp_seq [OF draw_layout_wp(1) [OF assms(1,3,4)]])
  fix t :: "'a pane_scheme"
  let ?px = "pane_x s (active_x s) + 1" and ?py = "pane_y s (active_y s) + 1"
  assume t: "con_inv t \<and> con_keep t = con_keep s \<and> console.more t = console.more s \<and>
    con_term t = canvas (layout_cell s) ?px ?py"
  have b: "?px + 8 < 80" "?py < 25"
    using assms(3) axis_pos_bounds(1) [of "grid_w s" "active_x s" "active_x s"]
      axis_pos_bounds(2) [of "grid_h s" "active_y s" "active_y s"]
    by (auto simp: pane_ok_def pane_x_def pane_y_def)
  have it: "con_inv t" using t by simp
  show "wp (shell_show_prompt hw t) (\<lambda>s'. pane_inv s' \<and> pane_drawn s' \<and> pane_grid s' = pane_grid s \<and>
    con_keep s' = con_keep s \<and> shell_keep s' = shell_keep s)"
  proof (rule wp_mono [OF shell_show_prompt_wp [OF it assms(4)]])
    fix u :: "'a pane_scheme"
    assume u: "draws (term_write (vga_color t) prompt) t u \<and>
      console.more u = console.more (t\<lparr>cmd_len := 0, cmd_pos := 0, disp_len := 0,
        prompt_x := cursor_x u, prompt_y := cursor_y u\<rparr>)"
    have tf: "console.more t = console.more s" using t by simp
    note f = shell_fields [OF conjunct2 [OF u]] and g = pane_fields [OF conjunct2 [OF u]]
      and sf = shell_fields [OF tf] and sg = pane_fields [OF tf]
    have iu: "con_inv u" using u by (simp add: draws_def)
    have base: "shell_base t" using assms(2) sf by (simp add: shell_base_def history_inv_def)
    have grid: "pane_grid u = pane_grid s" using g sg by (simp add: pane_grid_def)
    have keep: "con_keep u = con_keep s" using u t by (simp add: draws_def)
    then have col: "vga_color u = vga_color s" "vga_color t = vga_color s"
      using t by (simp_all add: con_keep_def)
    note l = pane_grid_layout [OF grid]
    have sk: "shell_keep u = shell_keep s" using f g sf sg by (simp add: shell_keep_def)
    have inv: "pane_inv u"
      using after_prompt_inv [OF conjunct2 [OF u] iu base] assms(3) l by (simp add: pane_inv_def)
    have "con_term u = canvas (\<lambda>y' x'. if y' = ?py \<and> ?px \<le> x' \<and> x' < ?px + 8
        then cell (vga_color s) (prompt ! (x' - ?px)) else layout_cell s y' x') (?px + 8) ?py"
      using u t col write_prompt_canvas [OF b] by (simp add: draws_def)
    then have "screen_buffer u = paint (\<lambda>y' x'. if y' = ?py \<and> ?px \<le> x' \<and> x' < ?px + 8
        then cell (vga_color s) (prompt ! (x' - ?px)) else layout_cell s y' x')"
      "sb_lines u = []" "cursor_x u = ?px + 8" "cursor_y u = ?py"
      by (simp_all add: con_term_def canvas_def)
    then have "pane_drawn u"
      using f l col by (simp add: pane_drawn_def Let_def paint_nth line_def)
    then show "pane_inv u \<and> pane_drawn u \<and> pane_grid u = pane_grid s \<and>
        con_keep u = con_keep s \<and> shell_keep u = shell_keep s"
      using inv grid keep sk by simp
  qed
qed

text \<open>At boot the single pane is drawn without a prompt.\<close>

lemma pane_init_wp:
  fixes s :: "'a pane_scheme"
  assumes "con_shape s" and "uart_ready hw"
  shows "wp (pane_init hw s) (\<lambda>s'. con_inv s' \<and> con_keep s' = con_keep s \<and>
    console.more s' = console.more (s\<lparr>grid_w := 1, grid_h := 1, active_x := 0, active_y := 0\<rparr>) \<and>
    con_term s' = canvas (grid_cell (vga_color s) {} {}) 1 1)"
proof -
  let ?s = "s\<lparr>grid_w := 1, grid_h := 1, active_x := 0, active_y := 0\<rparr>"
  have "con_shape ?s" "pane_ok ?s" using assms(1) by (simp_all add: con_shape_def pane_ok_def)
  moreover have "con_keep ?s = con_keep s" by (simp add: con_keep_def)
  moreover have "layout_cell ?s = grid_cell (vga_color s) {} {}" "pane_x ?s 0 = 0" "pane_y ?s 0 = 0"
    by (simp_all add: layout_cell_def pane_x_def pane_y_def axis_pos_def)
  ultimately show ?thesis
    using draw_layout_wp(1) [of ?s hw] assms(2)
    by (simp add: pane_init_def pane_draw_no_prompt_def)
qed

section \<open>The operations\<close>

lemma pane_upd [simp]:
  fixes s :: "'a pane_scheme"
  shows "con_shape (s\<lparr>grid_w := n\<rparr>) = con_shape s" "con_shape (s\<lparr>grid_h := n\<rparr>) = con_shape s"
    "con_shape (s\<lparr>active_x := n\<rparr>) = con_shape s" "con_shape (s\<lparr>active_y := n\<rparr>) = con_shape s"
    "con_shape (s\<lparr>gui_active := b\<rparr>) = con_shape s"
    "shell_base (s\<lparr>grid_w := n\<rparr>) = shell_base s" "shell_base (s\<lparr>grid_h := n\<rparr>) = shell_base s"
    "shell_base (s\<lparr>active_x := n\<rparr>) = shell_base s" "shell_base (s\<lparr>active_y := n\<rparr>) = shell_base s"
    "shell_base (s\<lparr>gui_active := b\<rparr>) = shell_base s"
    "con_keep (s\<lparr>grid_w := n\<rparr>) = con_keep s" "con_keep (s\<lparr>grid_h := n\<rparr>) = con_keep s"
    "con_keep (s\<lparr>active_x := n\<rparr>) = con_keep s" "con_keep (s\<lparr>active_y := n\<rparr>) = con_keep s"
    "con_keep (s\<lparr>gui_active := b\<rparr>) = con_keep s"
    "shell_keep (s\<lparr>grid_w := n\<rparr>) = shell_keep s" "shell_keep (s\<lparr>grid_h := n\<rparr>) = shell_keep s"
    "shell_keep (s\<lparr>active_x := n\<rparr>) = shell_keep s" "shell_keep (s\<lparr>active_y := n\<rparr>) = shell_keep s"
    "shell_keep (s\<lparr>gui_active := b\<rparr>) = shell_keep s"
  by (simp_all add: con_shape_def shell_base_def history_inv_def con_keep_def shell_keep_def)

text \<open>The result of a redrawing operation that has changed the grid to \<open>g\<close>.\<close>

definition redrawn :: "'a pane_scheme \<Rightarrow> nat \<times> nat \<times> nat \<times> nat \<times> bool \<Rightarrow> 'a pane_scheme \<Rightarrow> bool" where
  "redrawn s g s' \<longleftrightarrow> pane_inv s' \<and> pane_drawn s' \<and> pane_grid s' = g \<and>
     con_keep s' = con_keep s \<and> shell_keep s' = shell_keep s"

lemma pane_invD:
  assumes "pane_inv s"
  shows "con_shape s" "shell_base s" "pane_ok s" "con_inv s" "shell_inv s"
  using assms shell_inv_base [of s] by (auto simp: pane_inv_def shell_inv_def con_inv_def)

lemma pane_gui_start_wp:
  assumes "pane_inv s" and "\<not> gui_active s" and "uart_ready hw"
  shows "wp (pane_gui_start hw s) (redrawn s (2, 2, 0, 1, True))"
  using pane_draw_wp [of "s\<lparr>gui_active := True, grid_w := 2, grid_h := 2, active_x := 0, active_y := 1\<rparr>" hw]
    assms pane_invD [OF assms(1)]
  by (simp add: pane_gui_start_def pane_ok_def) (erule wp_mono, simp add: redrawn_def pane_grid_def)

lemma pane_gui_stop_wp:
  assumes "pane_inv s" and "gui_active s" and "uart_ready hw"
  shows "wp (pane_gui_stop hw s) (redrawn s (1, 1, 0, 0, False))"
  using pane_draw_wp [of "s\<lparr>gui_active := False, grid_w := 1, grid_h := 1, active_x := 0, active_y := 0\<rparr>" hw]
    assms pane_invD [OF assms(1)]
  by (simp add: pane_gui_stop_def pane_ok_def) (erule wp_mono, simp add: redrawn_def pane_grid_def)

lemma pane_resize_width_wp:
  assumes "pane_inv s" and "uart_ready hw"
  shows "wp (pane_resize_width hw d s) (redrawn s
    (let w = (if 0 < d \<and> grid_w s < 4 then grid_w s + 1 else if d < 0 \<and> 1 < grid_w s then grid_w s - 1 else grid_w s)
     in (w, grid_h s, min (active_x s) (w - 1), active_y s, gui_active s)))"
proof -
  note i = pane_invD [OF assms(1)]
  have ok: "1 \<le> grid_w s" "grid_w s \<le> 4" "active_x s < grid_w s" "1 \<le> grid_h s" "grid_h s \<le> 4" "active_y s < grid_h s"
    using i(3) by (simp_all add: pane_ok_def)
  let ?s = "if d > 0 \<and> grid_w s < 4 then s\<lparr>grid_w := grid_w s + 1\<rparr>
      else if d < 0 \<and> grid_w s > 1 then
        let s = s\<lparr>grid_w := grid_w s - 1\<rparr>
        in if active_x s \<ge> grid_w s then s\<lparr>active_x := grid_w s - 1\<rparr> else s
      else s"
  have "con_shape ?s" "shell_base ?s" "pane_ok ?s" "con_keep ?s = con_keep s" "shell_keep ?s = shell_keep s"
    using i ok by (auto simp: pane_ok_def Let_def)
  moreover have "pane_grid ?s = (let w = (if 0 < d \<and> grid_w s < 4 then grid_w s + 1 else
      if d < 0 \<and> 1 < grid_w s then grid_w s - 1 else grid_w s)
     in (w, grid_h s, min (active_x s) (w - 1), active_y s, gui_active s))"
    using ok by (auto simp: pane_grid_def Let_def)
  ultimately show ?thesis
    using pane_draw_wp [of ?s hw] assms(2) unfolding pane_resize_width_def redrawn_def
    by (auto elim!: wp_mono simp del: wp_bind)
qed

lemma pane_resize_height_wp:
  assumes "pane_inv s" and "uart_ready hw"
  shows "wp (pane_resize_height hw d s) (redrawn s
    (let h = (if 0 < d \<and> grid_h s < 4 then grid_h s + 1 else if d < 0 \<and> 1 < grid_h s then grid_h s - 1 else grid_h s)
     in (grid_w s, h, active_x s, min (active_y s) (h - 1), gui_active s)))"
proof -
  note i = pane_invD [OF assms(1)]
  have ok: "1 \<le> grid_w s" "grid_w s \<le> 4" "active_x s < grid_w s" "1 \<le> grid_h s" "grid_h s \<le> 4" "active_y s < grid_h s"
    using i(3) by (simp_all add: pane_ok_def)
  let ?s = "if d > 0 \<and> grid_h s < 4 then s\<lparr>grid_h := grid_h s + 1\<rparr>
      else if d < 0 \<and> grid_h s > 1 then
        let s = s\<lparr>grid_h := grid_h s - 1\<rparr>
        in if active_y s \<ge> grid_h s then s\<lparr>active_y := grid_h s - 1\<rparr> else s
      else s"
  have "con_shape ?s" "shell_base ?s" "pane_ok ?s" "con_keep ?s = con_keep s" "shell_keep ?s = shell_keep s"
    using i ok by (auto simp: pane_ok_def Let_def)
  moreover have "pane_grid ?s = (let h = (if 0 < d \<and> grid_h s < 4 then grid_h s + 1 else
      if d < 0 \<and> 1 < grid_h s then grid_h s - 1 else grid_h s)
     in (grid_w s, h, active_x s, min (active_y s) (h - 1), gui_active s))"
    using ok by (auto simp: pane_grid_def Let_def)
  ultimately show ?thesis
    using pane_draw_wp [of ?s hw] assms(2) unfolding pane_resize_height_def redrawn_def
    by (auto elim!: wp_mono simp del: wp_bind)
qed

lemma pane_resizes_wp:
  assumes "pane_inv s" and "uart_ready hw"
  shows "wp (pane_resize_width hw 1 s) (redrawn s (min 4 (grid_w s + 1), grid_h s, active_x s, active_y s, gui_active s))"
    and "wp (pane_resize_width hw (-1) s)
      (redrawn s (max 1 (grid_w s - 1), grid_h s, min (active_x s) (max 1 (grid_w s - 1) - 1), active_y s, gui_active s))"
    and "wp (pane_resize_height hw 1 s) (redrawn s (grid_w s, min 4 (grid_h s + 1), active_x s, active_y s, gui_active s))"
    and "wp (pane_resize_height hw (-1) s)
      (redrawn s (grid_w s, max 1 (grid_h s - 1), active_x s, min (active_y s) (max 1 (grid_h s - 1) - 1), gui_active s))"
proof -
  have ok: "1 \<le> grid_w s" "grid_w s \<le> 4" "active_x s < grid_w s" "1 \<le> grid_h s" "grid_h s \<le> 4" "active_y s < grid_h s"
    using pane_invD(3) [OF assms(1)] by (simp_all add: pane_ok_def)
  have grow: "(if 0 < (1::int) \<and> n < 4 then n + 1 else if (1::int) < 0 \<and> 1 < n then n - 1 else n) = min 4 (n + 1)"
    if "n \<le> 4" for n :: nat using that by auto
  have shrink: "(if 0 < (-1::int) \<and> n < 4 then n + 1 else if (-1::int) < 0 \<and> 1 < n then n - 1 else n) = max 1 (n - 1)"
    if "1 \<le> n" for n :: nat using that by auto
  have keep: "min a (min 4 (n + 1) - 1) = a" if "a < n" "n \<le> 4" for a n :: nat using that by simp
  show "wp (pane_resize_width hw 1 s) (redrawn s (min 4 (grid_w s + 1), grid_h s, active_x s, active_y s, gui_active s))"
    using pane_resize_width_wp [OF assms, of 1] unfolding Let_def grow [OF ok(2)] keep [OF ok(3,2)] .
  show "wp (pane_resize_height hw 1 s) (redrawn s (grid_w s, min 4 (grid_h s + 1), active_x s, active_y s, gui_active s))"
    using pane_resize_height_wp [OF assms, of 1] unfolding Let_def grow [OF ok(5)] keep [OF ok(6,5)] .
  show "wp (pane_resize_width hw (-1) s)
      (redrawn s (max 1 (grid_w s - 1), grid_h s, min (active_x s) (max 1 (grid_w s - 1) - 1), active_y s, gui_active s))"
    using pane_resize_width_wp [OF assms, of "-1"] unfolding Let_def shrink [OF ok(1)] .
  show "wp (pane_resize_height hw (-1) s)
      (redrawn s (grid_w s, max 1 (grid_h s - 1), active_x s, min (active_y s) (max 1 (grid_h s - 1) - 1), gui_active s))"
    using pane_resize_height_wp [OF assms, of "-1"] unfolding Let_def shrink [OF ok(4)] .
qed

lemma pane_moved_wp:
  assumes "pane_inv s" and "uart_ready hw" and "pane_ok s'"
    and "con_shape s' = con_shape s" "shell_base s' = shell_base s" "con_keep s' = con_keep s" "shell_keep s' = shell_keep s"
  shows "wp (pane_draw hw s') (redrawn s (pane_grid s'))"
  by (rule wp_mono [OF pane_draw_wp [OF _ _ assms(3,2)]]) (use pane_invD [OF assms(1)] assms in \<open>simp_all add: redrawn_def\<close>)

lemma pane_moves_wp:
  assumes "pane_inv s" and "uart_ready hw"
  shows "wp (pane_move_left hw s) (redrawn s (grid_w s, grid_h s, active_x s - 1, active_y s, gui_active s))"
    and "wp (pane_move_right hw s)
      (redrawn s (grid_w s, grid_h s, min (active_x s + 1) (grid_w s - 1), active_y s, gui_active s))"
    and "wp (pane_move_up hw s) (redrawn s (grid_w s, grid_h s, active_x s, active_y s - 1, gui_active s))"
    and "wp (pane_move_down hw s)
      (redrawn s (grid_w s, grid_h s, active_x s, min (active_y s + 1) (grid_h s - 1), gui_active s))"
proof -
  note i = pane_invD [OF assms(1)]
  have ok: "1 \<le> grid_w s" "grid_w s \<le> 4" "active_x s < grid_w s" "1 \<le> grid_h s" "grid_h s \<le> 4" "active_y s < grid_h s"
    using i(3) by (simp_all add: pane_ok_def)
  note draw = pane_moved_wp [OF assms]
  have same: "wp (pane_draw hw s) (redrawn s (pane_grid s))" using draw [of s] i(3) by simp
  show "wp (pane_move_left hw s) (redrawn s (grid_w s, grid_h s, active_x s - 1, active_y s, gui_active s))"
  proof (cases "0 < active_x s")
    case True
    then show ?thesis using draw [of "s\<lparr>active_x := active_x s - 1\<rparr>"] ok
      by (simp add: pane_move_left_def pane_grid_def pane_ok_def)
  qed (use same in \<open>simp add: pane_move_left_def pane_grid_def\<close>)
  show "wp (pane_move_right hw s)
      (redrawn s (grid_w s, grid_h s, min (active_x s + 1) (grid_w s - 1), active_y s, gui_active s))"
  proof (cases "active_x s + 1 < grid_w s")
    case True
    then have "min (active_x s + 1) (grid_w s - 1) = active_x s + 1" by simp
    with True show ?thesis using draw [of "s\<lparr>active_x := active_x s + 1\<rparr>"] ok
      by (simp add: pane_move_right_def pane_grid_def pane_ok_def)
  next
    case False
    then have "min (active_x s + 1) (grid_w s - 1) = active_x s" using ok by simp
    with False show ?thesis using same by (simp add: pane_move_right_def pane_grid_def)
  qed
  show "wp (pane_move_up hw s) (redrawn s (grid_w s, grid_h s, active_x s, active_y s - 1, gui_active s))"
  proof (cases "0 < active_y s")
    case True
    then show ?thesis using draw [of "s\<lparr>active_y := active_y s - 1\<rparr>"] ok
      by (simp add: pane_move_up_def pane_grid_def pane_ok_def)
  qed (use same in \<open>simp add: pane_move_up_def pane_grid_def\<close>)
  show "wp (pane_move_down hw s)
      (redrawn s (grid_w s, grid_h s, active_x s, min (active_y s + 1) (grid_h s - 1), gui_active s))"
  proof (cases "active_y s + 1 < grid_h s")
    case True
    then have "min (active_y s + 1) (grid_h s - 1) = active_y s + 1" by simp
    with True show ?thesis using draw [of "s\<lparr>active_y := active_y s + 1\<rparr>"] ok
      by (simp add: pane_move_down_def pane_grid_def pane_ok_def)
  next
    case False
    then have "min (active_y s + 1) (grid_h s - 1) = active_y s" using ok by simp
    with False show ?thesis using same by (simp add: pane_move_down_def pane_grid_def)
  qed
qed

section \<open>Properties\<close>

text \<open>The static initialisers, on top of a shell.\<close>

definition pane_statics :: "shell \<Rightarrow> pane" where
  "pane_statics s = shell.extend s (pane.fields 1 1 0 0 False)"

definition one_pane :: pane where
  "one_pane = pane_statics typing_shell"

lemma typing_shell_inv: "shell_inv typing_shell"
  by (simp add: shell_inv_def)
    (simp add: typing_shell_def shell_statics_def shell.defs console.defs)

lemma one_pane_inv [simp]: "pane_inv one_pane"
  using typing_shell_inv
  by (simp add: pane_inv_def one_pane_def pane_statics_def pane.defs shell.defs console.defs pane_ok_def shell_inv_def
      con_inv_def con_shape_def mirrored_def history_inv_def line_inv_def line_def)

lemma one_pane_grid [simp]: "grid_w one_pane = 1" "grid_h one_pane = 1" "active_x one_pane = 0"
  "active_y one_pane = 0" "gui_active one_pane = False"
  by (simp_all add: one_pane_def pane_statics_def pane.defs shell.defs console.defs)

text \<open>C18. The pane layout tiles the screen: for every grid of up to four by four panes and every
  active pane, whatever the uninitialised layout arrays hold before, the widths add up to
  exactly 80 and the heights to 25, no pane is narrower than 13 columns or lower than 4 rows,
  and an active pane that has neighbours gets at least half of the screen.\<close>

theorem pane_layout_tiles:
  assumes "pane_ok s"
  shows "\<exists>ws hs. compute_layout hw s = Some (ws, hs) \<and>
    (let w = map unat (take (grid_w s) ws); h = map unat (take (grid_h s) hs) in
     length w = grid_w s \<and> length h = grid_h s \<and> sum_list w = 80 \<and> sum_list h = 25 \<and>
     list_all (\<lambda>n. 13 \<le> n) w \<and> list_all (\<lambda>n. 4 \<le> n) h \<and> 40 \<le> w ! active_x s \<and> 12 \<le> h ! active_y s)"
proof -
  have ok: "1 \<le> grid_w s" "grid_w s \<le> 4" "active_x s < grid_w s" "1 \<le> grid_h s" "grid_h s \<le> 4" "active_y s < grid_h s"
    using assms by (simp_all add: pane_ok_def)
  have len: "length (axis_sizes extent n a) = n" if "1 \<le> n" "n \<le> 4" "a < n" for extent n a
    using that by (auto simp: axis_sizes_def Let_def)
  have w: "sum_list (axis_sizes 80 n a) = 80 \<and> list_all (\<lambda>n. 13 \<le> n) (axis_sizes 80 n a) \<and>
      40 \<le> axis_sizes 80 n a ! a \<and> map (\<lambda>x. unat (of_nat x :: u32)) (axis_sizes 80 n a) = axis_sizes 80 n a"
    if "1 \<le> n" "n \<le> 4" "a < n" for n a
    using that by (cases rule: axis_cases) (simp_all add: axis_sizes_def Let_def)
  have h: "sum_list (axis_sizes 25 n a) = 25 \<and> list_all (\<lambda>n. 4 \<le> n) (axis_sizes 25 n a) \<and>
      12 \<le> axis_sizes 25 n a ! a \<and> map (\<lambda>x. unat (of_nat x :: u32)) (axis_sizes 25 n a) = axis_sizes 25 n a"
    if "1 \<le> n" "n \<le> 4" "a < n" for n a
    using that by (cases rule: axis_cases) (simp_all add: axis_sizes_def Let_def)
  show ?thesis
    unfolding compute_layout_eq [OF assms]
    using len [OF ok(1-3), of 80] len [OF ok(4-6), of 25] w [OF ok(1-3)] h [OF ok(4-6)]
    by (simp add: Let_def comp_def)
qed

theorem pane_layout_tiles_witness:
  "\<exists>ws hs. compute_layout quiet_machine one_pane = Some (ws, hs) \<and>
    sum_list (map unat (take 1 ws)) = 80 \<and> sum_list (map unat (take 1 hs)) = 25"
  using pane_layout_tiles [of one_pane quiet_machine] pane_invD(3) [OF one_pane_inv]
  by (auto simp: Let_def)

text \<open>C20. Drawing a layout from any well-formed state returns with the screen cleared and showing
  exactly the separator lines of the layout, the crossings where they meet, and the shell's
  prompt at the upper left of the active pane: no line is drawn over an edge, nothing
  scrolls, and the prompt never reaches past the screen.\<close>

theorem pane_draw_shows:
  assumes "pane_inv s" and "uart_ready hw"
  shows "wp (pane_draw hw s) (\<lambda>s'. pane_inv s' \<and> pane_drawn s' \<and> pane_grid s' = pane_grid s \<and>
    con_keep s' = con_keep s \<and> shell_keep s' = shell_keep s)"
  using pane_draw_wp [OF pane_invD(1-3) [OF assms(1)] assms(2)] .

theorem pane_draw_shows_witness:
  "wp (pane_draw quiet_machine one_pane) (\<lambda>s'. pane_inv s' \<and> pane_drawn s' \<and>
    pane_grid s' = (1, 1, 0, 0, False))"
  by (rule wp_mono [OF pane_draw_shows [OF one_pane_inv quiet_machine_ready]]) (simp add: pane_grid_def)

text \<open>C19. Every pane operation keeps the grid between one and four panes each way with the active
  pane inside it, changes it as its name says, and redraws: starting and stopping the
  quadrant layout, growing and shrinking (the active pane moves in when its column or row
  goes), and the four moves, which stop at the edge.\<close>

theorem pane_operations_redraw:
  assumes "pane_inv s" and "uart_ready hw"
  shows "(\<not> gui_active s \<longrightarrow> wp (pane_gui_start hw s) (redrawn s (2, 2, 0, 1, True))) \<and>
    (gui_active s \<longrightarrow> pane_gui_start hw s = Some s \<and> wp (pane_gui_stop hw s) (redrawn s (1, 1, 0, 0, False))) \<and>
    wp (pane_resize_width hw 1 s) (redrawn s (min 4 (grid_w s + 1), grid_h s, active_x s, active_y s, gui_active s)) \<and>
    wp (pane_resize_width hw (-1) s)
      (redrawn s (max 1 (grid_w s - 1), grid_h s, min (active_x s) (max 1 (grid_w s - 1) - 1), active_y s, gui_active s)) \<and>
    wp (pane_resize_height hw 1 s) (redrawn s (grid_w s, min 4 (grid_h s + 1), active_x s, active_y s, gui_active s)) \<and>
    wp (pane_resize_height hw (-1) s)
      (redrawn s (grid_w s, max 1 (grid_h s - 1), active_x s, min (active_y s) (max 1 (grid_h s - 1) - 1), gui_active s)) \<and>
    wp (pane_move_left hw s) (redrawn s (grid_w s, grid_h s, active_x s - 1, active_y s, gui_active s)) \<and>
    wp (pane_move_right hw s)
      (redrawn s (grid_w s, grid_h s, min (active_x s + 1) (grid_w s - 1), active_y s, gui_active s)) \<and>
    wp (pane_move_up hw s) (redrawn s (grid_w s, grid_h s, active_x s, active_y s - 1, gui_active s)) \<and>
    wp (pane_move_down hw s)
      (redrawn s (grid_w s, grid_h s, active_x s, min (active_y s + 1) (grid_h s - 1), gui_active s))"
proof -
  have idle: "gui_active s \<Longrightarrow> pane_gui_start hw s = Some s" by (simp add: pane_gui_start_def)
  show ?thesis
    by (intro conjI impI pane_gui_start_wp pane_gui_stop_wp pane_moves_wp pane_resizes_wp idle assms)
qed

theorem pane_operations_redraw_witness:
  "wp (pane_gui_start quiet_machine one_pane) (redrawn one_pane (2, 2, 0, 1, True)) \<and>
   wp (pane_resize_width quiet_machine 1 one_pane) (redrawn one_pane (2, 1, 0, 0, False)) \<and>
   wp (pane_move_left quiet_machine one_pane) (redrawn one_pane (1, 1, 0, 0, False))"
  using pane_operations_redraw [OF one_pane_inv quiet_machine_ready] by (simp add: numeral_2_eq_2)

end
