(* ===== verification/Console_Input.thy ===== *)
theory Console_Input
  imports Pane
begin

text \<open>
  The input half of \<open>src/kernel/console/console.c\<close>: the queue of typed characters, the polling
  routine that feeds it and handles the console's own keys, and the (unused) quadrant drawing.
  The queue is shown to be a first-in first-out queue of 127 places, polling to be safe and to
  do for every key what the key is for.
\<close>

section \<open>Operations\<close>

abbreviation INPUT_BUF_SIZE :: nat where "INPUT_BUF_SIZE \<equiv> 128"

text \<open>The end of \<open>console_poll_input\<close>, which stores a character.\<close>

definition input_put :: "char \<Rightarrow> 'a console_scheme \<Rightarrow> 'a console_scheme option" where
  "input_put c s =
     (let next_head = (input_head s + 1) mod INPUT_BUF_SIZE in
      if next_head \<noteq> input_tail s then do {
        b \<leftarrow> wr (input_buf s) (input_head s) c;
        Some (s\<lparr>input_buf := b, input_head := next_head\<rparr>) }
      else Some s)"

definition console_getc :: "'a console_scheme \<Rightarrow> (char \<times> 'a console_scheme) option" where
  "console_getc s =
     (if input_head s = input_tail s then Some (NUL, s)
      else do {
        c \<leftarrow> rd (input_buf s) (input_tail s);
        Some (c, s\<lparr>input_tail := (input_tail s + 1) mod INPUT_BUF_SIZE\<rparr>) })"

text \<open>The browsing of the scrollback.\<close>

definition scroll_view :: "char \<Rightarrow> 'a console_scheme \<Rightarrow> 'a console_scheme option" where
  "scroll_view c s =
     (let s = (if c = KEY_UP \<and> sb_view s < sb_count s then s\<lparr>sb_view := sb_view s + 1\<rparr>
               else if c = KEY_DOWN \<and> sb_view s > 0 then s\<lparr>sb_view := sb_view s - 1\<rparr>
               else s)
      in do { s \<leftarrow> render_view s; Some (s\<lparr>ctrl := False\<rparr>) })"

text \<open>\<open>console_poll_input\<close> after the keyboard has been read.\<close>

definition handle_key :: "hardware \<Rightarrow> char \<Rightarrow> 'a pane_scheme \<Rightarrow> 'a pane_scheme option" where
  "handle_key hw c s =
     (if c = NUL then Some s
      else if c = KEY_CTRL then Some (s\<lparr>ctrl := True\<rparr>)
      else if (c = KEY_UP \<or> c = KEY_DOWN) \<and> (ctrl s \<or> sb_view s \<noteq> 0) then scroll_view c s
      else if c = KEY_ALT_R then do {
        s \<leftarrow> (if ctrl s then pane_move_up hw s else pane_move_left hw s);
        Some (s\<lparr>ctrl := False\<rparr>) }
      else if c = KEY_FN then do {
        s \<leftarrow> (if ctrl s then pane_move_down hw s else pane_move_right hw s);
        Some (s\<lparr>ctrl := False\<rparr>) }
      else if c = KEY_F1 then pane_resize_width hw (-1) s
      else if c = KEY_F2 then pane_resize_width hw 1 s
      else if c = KEY_F3 then pane_resize_height hw (-1) s
      else if c = KEY_F4 then pane_resize_height hw 1 s
      else input_put (if c = BACKSPACE \<or> c = CHR 0x7F then BACKSPACE else c) s)"

definition console_poll_input :: "hardware \<Rightarrow> 'a pane_scheme \<Rightarrow> 'a pane_scheme option" where
  "console_poll_input hw s = do {
     (c, s) \<leftarrow> keyboard_read_char hw s;
     handle_key hw c s }"

text \<open>\<open>console_draw_quadrants\<close> writes cells with the box characters as \<open>int\<close> constants.\<close>

definition put_quadrant :: "nat \<Rightarrow> nat \<Rightarrow> u32 \<Rightarrow> 'a console_scheme \<Rightarrow> 'a console_scheme option" where
  "put_quadrant y x c s = do {
     let val = cell_int (vga_color s) c;
     s \<leftarrow> put_screen y x val s;
     if sb_view s = 0 then put_vga (y * VGA_COLS + x) val s else Some s }"

definition console_draw_quadrants :: "hardware \<Rightarrow> 'a shell_scheme \<Rightarrow> 'a shell_scheme option" where
  "console_draw_quadrants hw s = do {
     s \<leftarrow> for_each [0..<VGA_ROWS] (\<lambda>y. put_quadrant y (VGA_COLS div 2) 0xB3) s;
     s \<leftarrow> for_each [0..<VGA_COLS] (\<lambda>x. put_quadrant (VGA_ROWS div 2) x 0xC4) s;
     s \<leftarrow> put_quadrant (VGA_ROWS div 2) (VGA_COLS div 2) 0xC5 s;
     let s = s\<lparr>cursor_x := 1, cursor_y := VGA_ROWS div 2 + 1\<rparr>;
     let s = (if sb_view s = 0 then update_cursor s else s);
     shell_show_prompt hw s }"

section \<open>The queue\<close>

definition input_inv :: "'a console_scheme \<Rightarrow> bool" where
  "input_inv s \<longleftrightarrow> length (input_buf s) = 128 \<and> input_head s < 128 \<and> input_tail s < 128"

definition input_queue :: "'a console_scheme \<Rightarrow> string" where
  "input_queue s = ring (input_buf s) (input_tail s) ((input_head s + 128 - input_tail s) mod 128)"

lemma queue_count:
  assumes "h < 128" and "t < (128::nat)"
  shows "(h + 128 - t) mod 128 = (if t \<le> h then h - t else h + 128 - t)"
  using assms by (auto simp: mod_if)

lemma input_put_wp:
  assumes "input_inv s"
  shows "wp (input_put c s) (\<lambda>s'. input_inv s' \<and>
    input_queue s' = (if length (input_queue s) < 127 then input_queue s @ [c] else input_queue s) \<and>
    s' = s\<lparr>input_buf := input_buf s', input_head := input_head s'\<rparr>)"
proof -
  let ?h = "input_head s" and ?t = "input_tail s"
  let ?n = "(?h + 128 - ?t) mod 128"
  have d: "length (input_buf s) = 128" "?h < 128" "?t < 128" using assms by (simp_all add: input_inv_def)
  have n: "?n = (if ?t \<le> ?h then ?h - ?t else ?h + 128 - ?t)" using d by (intro queue_count)
  have full: "(?h + 1) mod 128 \<noteq> ?t \<longleftrightarrow> ?n < 127"
    unfolding n using d by (auto simp: mod_if)
  show ?thesis
  proof (cases "?n < 127")
    case True
    have pos: "(?t + ?n) mod 128 = ?h" unfolding n using d by (auto simp: mod_if)
    have cnt: "((?h + 1) mod 128 + 128 - ?t) mod 128 = Suc ?n"
      using True d unfolding n by (auto simp: mod_if)
    have "ring ((input_buf s)[?h := c]) ?t (Suc ?n) = ring (input_buf s) ?t ?n @ [c]"
      using ring_push [of ?n "input_buf s" ?t c] True d(1) pos by simp
    then show ?thesis
      using True full d cnt by (simp add: input_put_def Let_def input_inv_def input_queue_def)
  next
    case False
    then show ?thesis
      using full assms by (simp add: input_put_def Let_def input_queue_def)
  qed
qed

lemma console_getc_wp:
  assumes "input_inv s"
  shows "wp (console_getc s) (\<lambda>(c, s'). input_inv s' \<and>
    (case input_queue s of [] \<Rightarrow> c = NUL \<and> s' = s | x # xs \<Rightarrow> c = x \<and> input_queue s' = xs) \<and>
    s' = s\<lparr>input_tail := input_tail s'\<rparr>)"
proof -
  let ?h = "input_head s" and ?t = "input_tail s"
  let ?n = "(?h + 128 - ?t) mod 128"
  have d: "length (input_buf s) = 128" "?h < 128" "?t < 128" using assms by (simp_all add: input_inv_def)
  have n: "?n = (if ?t \<le> ?h then ?h - ?t else ?h + 128 - ?t)" using d by (intro queue_count)
  show ?thesis
  proof (cases "?h = ?t")
    case True
    then show ?thesis using assms by (simp add: console_getc_def input_queue_def)
  next
    case False
    then have pos: "0 < ?n" unfolding n using d by auto
    have cnt: "(?h + 128 - (?t + 1) mod 128) mod 128 = ?n - 1"
      using False d unfolding n by (auto simp: mod_if)
    have "input_queue s = input_buf s ! ?t # ring (input_buf s) ((?t + 1) mod 128) (?n - 1)"
      using ring_pop [OF pos, of "input_buf s" ?t] d by (simp add: input_queue_def)
    then show ?thesis
      using False d cnt by (simp add: console_getc_def input_inv_def input_queue_def)
  qed
qed

interpretation input_ring: bounded_queue input_put console_getc input_queue input_inv 127 NUL
proof unfold_locales
  fix s :: "'a console_scheme" and x
  assume "input_inv s"
  from input_put_wp [OF this, of x] show "wp (input_put x s) (\<lambda>s'. input_inv s' \<and>
      input_queue s' = (if length (input_queue s) < 127 then input_queue s @ [x] else input_queue s))"
    by (rule wp_mono) simp
next
  fix s :: "'a console_scheme"
  assume "input_inv s" and "input_queue s = []"
  with console_getc_wp [OF this(1)] show "console_getc s = Some (NUL, s)"
    by (auto simp: wp_iff_Some)
next
  fix s :: "'a console_scheme" and x xs
  assume i: "input_inv s" and q: "input_queue s = x # xs"
  show "wp (console_getc s) (\<lambda>(y, s'). y = x \<and> input_inv s' \<and> input_queue s' = xs)"
    by (rule wp_mono [OF console_getc_wp [OF i]]) (auto simp: q)
next
  fix s :: "'a console_scheme"
  assume "input_inv s"
  have "(input_head s + 128 - input_tail s) mod 128 < 128" by simp
  then show "length (input_queue s) \<le> 127" by (simp add: input_queue_def)
qed

section \<open>Keys\<close>

definition ui_inv :: "'a pane_scheme \<Rightarrow> bool" where
  "ui_inv s \<longleftrightarrow> pane_inv s \<and> input_inv s"

lemma input_inv_keep: "con_keep s' = con_keep s \<Longrightarrow> input_inv s' = input_inv s"
  by (simp add: con_keep_def input_inv_def)

lemma redrawn_ui_inv: "redrawn s g s' \<Longrightarrow> input_inv s \<Longrightarrow> ui_inv s'"
  using input_inv_keep [of s' s] by (simp add: redrawn_def ui_inv_def)

text \<open>Updates of the console's own variables that keep the invariants of all layers.\<close>

lemma ui_inv_upd [simp]:
  fixes s :: "'a pane_scheme"
  shows "ui_inv (s\<lparr>ctrl := b\<rparr>) = ui_inv s" "ui_inv (s\<lparr>trace := t\<rparr>) = ui_inv s"
    "ui_inv (s\<lparr>have_e0 := e\<rparr>) = ui_inv s"
  by (simp_all add: ui_inv_def pane_inv_def shell_inv_def con_inv_def con_shape_def mirrored_def history_inv_def
      line_inv_def line_def pane_ok_def input_inv_def)

lemma pane_inv_input:
  fixes s :: "'a pane_scheme"
  shows "pane_inv (s\<lparr>input_buf := b, input_head := h\<rparr>) = pane_inv s"
    "pane_inv (s\<lparr>input_tail := k\<rparr>) = pane_inv s"
  by (simp_all add: pane_inv_def shell_inv_def con_inv_def con_shape_def mirrored_def history_inv_def
      line_inv_def line_def pane_ok_def)

lemma input_put_ui:
  fixes s :: "'a pane_scheme"
  assumes "ui_inv s"
  shows "wp (input_put c s) (\<lambda>s'. ui_inv s' \<and>
    input_queue s' = (if length (input_queue s) < 127 then input_queue s @ [c] else input_queue s) \<and>
    s' = s\<lparr>input_buf := input_buf s', input_head := input_head s'\<rparr>)"
proof -
  have i: "input_inv s" and p: "pane_inv s" using assms by (simp_all add: ui_inv_def)
  show ?thesis
  proof (rule wp_mono [OF input_put_wp [OF i]])
    fix t :: "'a pane_scheme"
    assume t: "input_inv t \<and>
      input_queue t = (if length (input_queue s) < 127 then input_queue s @ [c] else input_queue s) \<and>
      t = s\<lparr>input_buf := input_buf t, input_head := input_head t\<rparr>"
    then have "pane_inv t" using p pane_inv_input(1) [where s = s and b = "input_buf t" and h = "input_head t"] by simp
    then show "ui_inv t \<and>
      input_queue t = (if length (input_queue s) < 127 then input_queue s @ [c] else input_queue s) \<and>
      t = s\<lparr>input_buf := input_buf t, input_head := input_head t\<rparr>"
      using t by (simp only: ui_inv_def simp_thms)
  qed
qed

lemma console_getc_ui:
  fixes s :: "'a pane_scheme"
  assumes "ui_inv s"
  shows "wp (console_getc s) (\<lambda>(c, s'). ui_inv s' \<and>
    (case input_queue s of [] \<Rightarrow> c = NUL \<and> s' = s | x # xs \<Rightarrow> c = x \<and> input_queue s' = xs) \<and>
    s' = s\<lparr>input_tail := input_tail s'\<rparr>)"
proof -
  have i: "input_inv s" and p: "pane_inv s" using assms by (simp_all add: ui_inv_def)
  have inv: "pane_inv t" if "t = s\<lparr>input_tail := k\<rparr>" for t k using that pane_inv_input(2) [where s = s and k = k] p by simp
  show ?thesis
    by (rule wp_mono [OF console_getc_wp [OF i]]) (auto simp: ui_inv_def intro: inv)
qed

text \<open>The view after a browsing key.\<close>

definition browse :: "char \<Rightarrow> 'a console_scheme \<Rightarrow> nat" where
  "browse c s = (if c = KEY_UP then min (sb_count s) (sb_view s + 1)
     else if c = KEY_DOWN then sb_view s - 1 else sb_view s)"

lemma scroll_view_wp:
  fixes s :: "'a pane_scheme"
  assumes "ui_inv s"
  shows "wp (scroll_view c s) (\<lambda>s'. ui_inv s' \<and> sb_view s' = browse c s \<and>
    vga_buffer s' = concat (take 25 (drop (sb_count s - sb_view s') (document s))) \<and>
    con_term s' = con_term s \<and> input_queue s' = input_queue s \<and> \<not> ctrl s' \<and> console.more s' = console.more s)"
proof -
  have i: "con_inv s" "pane_inv s" "input_inv s" using assms pane_invD [of s] by (simp_all add: ui_inv_def)
  note d = con_shapeD [OF con_invD(1) [OF i(1)]]
  let ?s = "s\<lparr>sb_view := browse c s\<rparr>"
  let ?v = "concat (take 25 (drop (sb_count s - browse c s) (document s)))"
  have le: "browse c s \<le> sb_count s" using d(6) by (auto simp: browse_def)
  then have sh: "con_shape ?s" using con_invD(1) [OF i(1)] by (simp add: con_shape_def)
  have w: "window ?s = take 25 (drop (sb_count s - browse c s) (document s))"
    by (simp add: window_def document_def sb_lines_def)
  have "(if c = KEY_UP \<and> sb_view s < sb_count s then s\<lparr>sb_view := sb_view s + 1\<rparr>
       else if c = KEY_DOWN \<and> sb_view s > 0 then s\<lparr>sb_view := sb_view s - 1\<rparr> else s) = ?s"
    using d(6) by (auto simp: browse_def min_def)
  then have run: "scroll_view c s = Some ((update_cursor (?s\<lparr>vga_buffer := ?v\<rparr>))\<lparr>ctrl := False\<rparr>)"
    using render_view_eq [OF sh] w by (simp add: scroll_view_def Let_def)
  have len: "length ?v = 2000" using window_length [OF sh] w by simp
  have mir: "browse c s = 0 \<Longrightarrow> ?v = concat (screen_buffer s)"
    using d by (simp add: document_def sb_lines_def)
  have "con_inv (?s\<lparr>vga_buffer := ?v\<rparr>)"
    using sh len mir con_invD(3,4) [OF i(1)] by (simp add: con_inv_def con_shape_def mirrored_def)
  then have "pane_inv (?s\<lparr>vga_buffer := ?v\<rparr>)"
    using i(2) by (simp add: pane_inv_def shell_inv_def history_inv_def line_inv_def line_def pane_ok_def)
  moreover have "input_inv (?s\<lparr>vga_buffer := ?v\<rparr>)" using i(3) by (simp add: input_inv_def)
  ultimately have "ui_inv (?s\<lparr>vga_buffer := ?v\<rparr>)" by (simp add: ui_inv_def)
  then show ?thesis
    unfolding run
    by (simp add: update_cursor_def outb_def Let_def con_term_def sb_lines_def input_queue_def)
qed

text \<open>The keys that lay the panes out anew, and the grid (columns, rows, column and row of the active
  pane, and whether the quadrant layout is on) after such a key, with control \<open>held\<close> or not.\<close>

abbreviation pane_keys :: "char set" where
  "pane_keys \<equiv> {KEY_ALT_R, KEY_FN, KEY_F1, KEY_F2, KEY_F3, KEY_F4}"

definition grid_after :: "char \<Rightarrow> bool \<Rightarrow> nat \<times> nat \<times> nat \<times> nat \<times> bool \<Rightarrow> nat \<times> nat \<times> nat \<times> nat \<times> bool" where
  "grid_after c held g = (case g of (w, h, x, y, on) \<Rightarrow>
     if c = KEY_ALT_R then if held then (w, h, x, y - 1, on) else (w, h, x - 1, y, on)
     else if c = KEY_FN then if held then (w, h, x, min (y + 1) (h - 1), on) else (w, h, min (x + 1) (w - 1), y, on)
     else if c = KEY_F1 then (max 1 (w - 1), h, min x (max 1 (w - 1) - 1), y, on)
     else if c = KEY_F2 then (min 4 (w + 1), h, x, y, on)
     else if c = KEY_F3 then (w, max 1 (h - 1), x, min y (max 1 (h - 1) - 1), on)
     else (w, min 4 (h + 1), x, y, on))"

lemma queue_keep: "con_keep t = con_keep s \<Longrightarrow> input_queue t = input_queue s"
  by (simp add: con_keep_def input_queue_def)

lemma handle_key_redraws:
  assumes "pane_inv s" and "uart_ready hw" and "c \<in> pane_keys"
  shows "wp (handle_key hw c s) (\<lambda>t. \<exists>u. redrawn s (grid_after c (ctrl s) (pane_grid s)) u \<and>
    t = (if c \<in> {KEY_ALT_R, KEY_FN} then u\<lparr>ctrl := False\<rparr> else u))"
proof -
  note m = pane_moves_wp [OF assms(1,2)] and r = pane_resizes_wp [OF assms(1,2)]
  have clear: "wp (do { s \<leftarrow> a; Some (s\<lparr>ctrl := False\<rparr>) }) (\<lambda>t. \<exists>u. redrawn s g u \<and> t = u\<lparr>ctrl := False\<rparr>)"
    if "wp a (redrawn s g)" for a g
    by (rule wp_seq [OF that]) (unfold wp_Some, blast)
  show ?thesis
    using assms(3) clear [OF m(1)] clear [OF m(2)] clear [OF m(3)] clear [OF m(4)] r
    by (cases "ctrl s") (auto simp: handle_key_def grid_after_def pane_grid_def simp del: wp_bind)
qed

lemma handle_key_panes:
  assumes "ui_inv s" and "uart_ready hw" and "c \<in> pane_keys"
  shows "wp (handle_key hw c s) (\<lambda>s'. ui_inv s' \<and> pane_drawn s' \<and>
    pane_grid s' = grid_after c (ctrl s) (pane_grid s) \<and> input_queue s' = input_queue s \<and>
    shell_keep s' = shell_keep s \<and> ctrl s' = (ctrl s \<and> c \<notin> {KEY_ALT_R, KEY_FN}))"
proof -
  have i: "pane_inv s" "input_inv s" using assms(1) by (simp_all add: ui_inv_def)
  show ?thesis
  proof (rule wp_mono [OF handle_key_redraws [OF i(1) assms(2,3)]], elim exE conjE)
    fix t u
    assume u: "redrawn s (grid_after c (ctrl s) (pane_grid s)) u"
      and t: "t = (if c \<in> {KEY_ALT_R, KEY_FN} then u\<lparr>ctrl := False\<rparr> else u)"
    have "pane_drawn (u\<lparr>ctrl := False\<rparr>) = pane_drawn u" "pane_grid (u\<lparr>ctrl := False\<rparr>) = pane_grid u"
      "input_queue (u\<lparr>ctrl := False\<rparr>) = input_queue u" "shell_keep (u\<lparr>ctrl := False\<rparr>) = shell_keep u"
      by (simp_all add: pane_drawn_def pane_x_def pane_y_def sb_lines_def line_def layout_cell_def pane_grid_def
          input_queue_def shell_keep_def)
    moreover have "con_keep u = con_keep s" using u by (simp add: redrawn_def)
    then have "input_queue u = input_queue s" "ctrl u = ctrl s" using queue_keep by (simp_all add: con_keep_def)
    ultimately show "ui_inv t \<and> pane_drawn t \<and> pane_grid t = grid_after c (ctrl s) (pane_grid s) \<and>
        input_queue t = input_queue s \<and> shell_keep t = shell_keep s \<and> ctrl t = (ctrl s \<and> c \<notin> {KEY_ALT_R, KEY_FN})"
      using u redrawn_ui_inv [OF u i(2)] by (simp add: t redrawn_def)
  qed
qed

text \<open>The keys that are queued for the shell.\<close>

definition queued_key :: "'a console_scheme \<Rightarrow> char \<Rightarrow> bool" where
  "queued_key s c \<longleftrightarrow> c \<notin> {NUL, KEY_CTRL, KEY_ALT_R, KEY_FN, KEY_F1, KEY_F2, KEY_F3, KEY_F4} \<and>
     \<not> (c \<in> {KEY_UP, KEY_DOWN} \<and> (ctrl s \<or> sb_view s \<noteq> 0))"

lemma handle_key_queue:
  assumes "ui_inv s" and "queued_key s c"
  shows "wp (handle_key hw c s) (\<lambda>s'. ui_inv s' \<and>
    input_queue s' = take 127 (input_queue s @ [if c = CHR 0x7F then BACKSPACE else c]) \<and>
    s' = s\<lparr>input_buf := input_buf s', input_head := input_head s'\<rparr>)"
proof -
  let ?c = "if c = BACKSPACE \<or> c = CHR 0x7F then BACKSPACE else c"
  have "length (input_queue s) \<le> 127" using input_ring.bound [of s] assms(1) by (simp add: ui_inv_def)
  then have q: "take 127 (input_queue s @ [d]) = (if length (input_queue s) < 127
      then input_queue s @ [d] else input_queue s)" for d by auto
  have n: "c \<noteq> NUL" "c \<noteq> KEY_CTRL" "c \<noteq> KEY_ALT_R" "c \<noteq> KEY_FN" "c \<noteq> KEY_F1" "c \<noteq> KEY_F2"
    "c \<noteq> KEY_F3" "c \<noteq> KEY_F4" "\<not> ((c = KEY_UP \<or> c = KEY_DOWN) \<and> (ctrl s \<or> sb_view s \<noteq> 0))"
    using assms(2) unfolding queued_key_def by blast+
  have run: "handle_key hw c s = input_put ?c s"
    unfolding handle_key_def by (simp only: n if_False)
  have c: "?c = (if c = CHR 0x7F then BACKSPACE else c)" by simp
  show ?thesis unfolding run c q by (rule input_put_ui [OF assms(1)])
qed

lemma handle_key_ui:
  assumes "ui_inv s" and "uart_ready hw"
  shows "wp (handle_key hw c s) ui_inv"
proof -
  consider "c = NUL" | "c = KEY_CTRL" | "c \<in> {KEY_UP, KEY_DOWN}" "ctrl s \<or> sb_view s \<noteq> 0"
    | "c \<in> pane_keys" | "queued_key s c"
    unfolding queued_key_def insert_iff empty_iff by argo
  then show ?thesis
  proof cases
    case 3
    then have "handle_key hw c s = scroll_view c s" by (auto simp: handle_key_def)
    then show ?thesis using scroll_view_wp [OF assms(1), of c] by (auto elim: wp_mono)
  next
    case 4
    from handle_key_panes [OF assms 4] show ?thesis by (rule wp_mono) simp
  next
    case 5
    from handle_key_queue [OF assms(1) 5, of hw] show ?thesis by (rule wp_mono) simp
  qed (use assms in \<open>simp_all add: handle_key_def\<close>)
qed

lemma console_poll_input_ui:
  fixes s :: "'a pane_scheme"
  assumes "ui_inv s" and "uart_ready hw"
  shows "wp (console_poll_input hw s) ui_inv"
  unfolding console_poll_input_def
proof (rule wp_seq [OF keyboard_read_char_wp])
  fix r :: "char \<times> 'a pane_scheme"
  assume r: "case r of (c, s') \<Rightarrow> s' = s\<lparr>trace := trace s', have_e0 := have_e0 s'\<rparr>"
  obtain c t where ct: "r = (c, t)" by (cases r)
  have t: "t = s\<lparr>trace := trace t, have_e0 := have_e0 t\<rparr>" using r unfolding ct prod.case .
  have "ui_inv (s\<lparr>trace := trace t, have_e0 := have_e0 t\<rparr>)" using assms(1) by simp
  then have "ui_inv t" by (subst t)
  from handle_key_ui [OF this assms(2), of c] show "wp (case r of (c, s) \<Rightarrow> handle_key hw c s) ui_inv"
    by (simp add: ct)
qed

section \<open>Properties\<close>

lemma one_pane_ui [simp]: "ui_inv one_pane"
  by (simp add: ui_inv_def)
    (simp add: input_inv_def one_pane_def pane_statics_def pane.defs shell.defs typing_shell_def
      shell_statics_def console.defs blank_console_def console_statics_def)

lemma one_pane_console [simp]: "input_queue one_pane = []" "\<not> ctrl one_pane" "sb_view one_pane = 0"
  "sb_count one_pane = 0"
  by (simp_all add: input_queue_def one_pane_def pane_statics_def pane.defs shell.defs typing_shell_def
      shell_statics_def console.defs blank_console_def console_statics_def)

text \<open>C24. The keyboard queue is first-in first-out with 127 places, wherever in the 128-byte
  ring it stands: characters put in come out in order, one per \<open>console_getc\<close>, those that find
  the queue full are dropped, and an empty queue yields the null character.\<close>

theorem input_queue_fifo:
  assumes "input_inv s"
  shows "wp (for_each cs input_put s) (\<lambda>t. input_inv t \<and> input_queue t = take 127 (input_queue s @ cs)) \<and>
    wp (console_getc s) (\<lambda>(c, t). input_inv t \<and>
      (c, input_queue t) = (case input_queue s of [] \<Rightarrow> (NUL, []) | x # xs \<Rightarrow> (x, xs)))"
proof
  show "wp (for_each cs input_put s) (\<lambda>t. input_inv t \<and> input_queue t = take 127 (input_queue s @ cs))"
    by (rule input_ring.enq_all [OF assms])
  show "wp (console_getc s) (\<lambda>(c, t). input_inv t \<and>
      (c, input_queue t) = (case input_queue s of [] \<Rightarrow> (NUL, []) | x # xs \<Rightarrow> (x, xs)))"
    by (rule wp_mono [OF console_getc_wp [OF assms]]) (auto split: list.splits)
qed

theorem input_queue_fifo_witness:
  "wp (for_each ''ls'' input_put one_pane) (\<lambda>t. input_inv t \<and> input_queue t = ''ls'')"
  using input_queue_fifo [of one_pane "''ls''"] one_pane_ui by (simp add: ui_inv_def)

text \<open>Polling is safe: from every state that satisfies the invariants of console, shell, panes
  and queue, and whatever scancode the keyboard delivers, \<open>console_poll_input\<close> returns in such
  a state again.\<close>

theorem console_poll_input_safe:
  assumes "ui_inv s" and "uart_ready hw"
  shows "wp (console_poll_input hw s) ui_inv"
  by (rule console_poll_input_ui [OF assms])

theorem console_poll_input_safe_witness: "wp (console_poll_input quiet_machine one_pane) ui_inv"
  by (rule console_poll_input_safe [OF one_pane_ui quiet_machine_ready])

text \<open>C33. What the keys do, every key included. No character does nothing and control arms the next
  key. An arrow key with control held or while browsing moves the view one line up or down
  within the scrollback and shows the matching window of the document, without changing text or
  queue. Right-Alt and Fn move the active pane left and right, with control up and down; F1 and
  F2 take away and add a column of panes, F3 and F4 a row, within one and four; all six draw the
  layout anew and leave queue, history and command buffer alone, and the two moves release control.
  Every other key goes to the end of the queue, DEL as backspace, and changes nothing else.\<close>

theorem console_keys:
  assumes "ui_inv s" and "uart_ready hw"
  shows "handle_key hw NUL s = Some s \<and> handle_key hw KEY_CTRL s = Some (s\<lparr>ctrl := True\<rparr>) \<and>
    (\<forall>c \<in> {KEY_UP, KEY_DOWN}. ctrl s \<or> sb_view s \<noteq> 0 \<longrightarrow> wp (handle_key hw c s) (\<lambda>s'. ui_inv s' \<and>
      sb_view s' = (if c = KEY_UP then min (sb_count s) (sb_view s + 1) else sb_view s - 1) \<and>
      vga_buffer s' = concat (take 25 (drop (sb_count s - sb_view s') (document s))) \<and>
      con_term s' = con_term s \<and> input_queue s' = input_queue s \<and> \<not> ctrl s')) \<and>
    (\<forall>c \<in> {KEY_ALT_R, KEY_FN, KEY_F1, KEY_F2, KEY_F3, KEY_F4}. wp (handle_key hw c s) (\<lambda>s'. ui_inv s' \<and>
      pane_drawn s' \<and> pane_grid s' = grid_after c (ctrl s) (grid_w s, grid_h s, active_x s, active_y s, gui_active s) \<and>
      input_queue s' = input_queue s \<and> shell_keep s' = shell_keep s \<and>
      ctrl s' = (ctrl s \<and> c \<notin> {KEY_ALT_R, KEY_FN}))) \<and>
    (\<forall>c. queued_key s c \<longrightarrow> wp (handle_key hw c s) (\<lambda>s'. ui_inv s' \<and>
      input_queue s' = take 127 (input_queue s @ [if c = CHR 0x7F then BACKSPACE else c]) \<and>
      s' = s\<lparr>input_buf := input_buf s', input_head := input_head s'\<rparr>))"
proof (intro conjI ballI allI impI)
  show "handle_key hw NUL s = Some s" "handle_key hw KEY_CTRL s = Some (s\<lparr>ctrl := True\<rparr>)" by (simp_all add: handle_key_def)
next
  fix c assume c: "c \<in> {KEY_UP, KEY_DOWN}" "ctrl s \<or> sb_view s \<noteq> 0"
  then have run: "handle_key hw c s = scroll_view c s" by (auto simp: handle_key_def)
  have view: "browse c s = (if c = KEY_UP then min (sb_count s) (sb_view s + 1) else sb_view s - 1)"
    using c(1) by (auto simp: browse_def)
  show "wp (handle_key hw c s) (\<lambda>s'. ui_inv s' \<and>
      sb_view s' = (if c = KEY_UP then min (sb_count s) (sb_view s + 1) else sb_view s - 1) \<and>
      vga_buffer s' = concat (take 25 (drop (sb_count s - sb_view s') (document s))) \<and>
      con_term s' = con_term s \<and> input_queue s' = input_queue s \<and> \<not> ctrl s')"
    unfolding run view [symmetric] by (rule wp_mono [OF scroll_view_wp [OF assms(1)]]) simp
next
  fix c assume "queued_key s c"
  then show "wp (handle_key hw c s) (\<lambda>s'. ui_inv s' \<and>
      input_queue s' = take 127 (input_queue s @ [if c = CHR 0x7F then BACKSPACE else c]) \<and>
      s' = s\<lparr>input_buf := input_buf s', input_head := input_head s'\<rparr>)"
    by (rule handle_key_queue [OF assms(1)])
next
  fix c assume "c \<in> pane_keys"
  from handle_key_panes [OF assms this] show "wp (handle_key hw c s) (\<lambda>s'. ui_inv s' \<and> pane_drawn s' \<and>
      pane_grid s' = grid_after c (ctrl s) (grid_w s, grid_h s, active_x s, active_y s, gui_active s) \<and>
      input_queue s' = input_queue s \<and> shell_keep s' = shell_keep s \<and>
      ctrl s' = (ctrl s \<and> c \<notin> {KEY_ALT_R, KEY_FN}))"
    unfolding pane_grid_def .
qed

theorem console_keys_witness:
  "wp (handle_key quiet_machine KEY_F2 one_pane) (\<lambda>s'. pane_drawn s' \<and> pane_grid s' = (2, 1, 0, 0, False)) \<and>
   wp (handle_key quiet_machine (CHR ''a'') one_pane) (\<lambda>s'. input_queue s' = ''a'')"
proof -
  note k = console_keys [OF one_pane_ui quiet_machine_ready]
  have "wp (handle_key quiet_machine (CHR ''a'') one_pane) (\<lambda>s'. input_queue s' = ''a'')"
    using k by (auto simp: queued_key_def elim!: wp_mono dest!: spec [of _ "CHR ''a''"])
  moreover have "wp (handle_key quiet_machine KEY_F2 one_pane) (\<lambda>s'. pane_drawn s' \<and> pane_grid s' = (2, 1, 0, 0, False))"
    using k by (auto simp: grid_after_def elim!: wp_mono)
  ultimately show ?thesis by simp
qed

end
