(* ===== verification/Inventory.thy ===== *)
theory Inventory
  imports Console_Input
begin

text \<open>
  \<open>src/kernel/inventory/inventory.c\<close> and \<open>pci_classes.c\<close>: the scan of the PCI buses and the names of
  the device classes. On a machine whose configuration space answers as the PCI standard
  documents, the inventory is shown to list exactly the functions present, in bus order, the
  first 256 of them in detail, and to count all of them as \<open>hal_pci_device_count\<close> does.
\<close>

section \<open>State and operations\<close>

record inventory = pane +
  cpu_cores :: u32
  memory_bytes :: u64
  pci_devices :: nat
  pci_bus :: "u8 list"
  pci_class :: "u8 list"
  pci_subclass :: "u8 list"
  pci_vendor :: "u16 list"
  pci_device :: "u16 list"

abbreviation MAX_INVENTORY_PCI :: nat where "MAX_INVENTORY_PCI \<equiv> 256"

text \<open>The five stores into the arrays.\<close>

definition record_device ::
    "u8 \<Rightarrow> u8 \<Rightarrow> u8 \<Rightarrow> u16 \<Rightarrow> u16 \<Rightarrow> 'a inventory_scheme \<Rightarrow> 'a inventory_scheme option" where
  "record_device bus class subclass vendor device s = do {
     let n = pci_devices s;
     b \<leftarrow> wr (pci_bus s) n bus;
     c \<leftarrow> wr (pci_class s) n class;
     sc \<leftarrow> wr (pci_subclass s) n subclass;
     v \<leftarrow> wr (pci_vendor s) n vendor;
     d \<leftarrow> wr (pci_device s) n device;
     Some (s\<lparr>pci_bus := b, pci_class := c, pci_subclass := sc, pci_vendor := v, pci_device := d\<rparr>) }"

definition gather_step :: "hardware \<Rightarrow> nat \<times> nat \<times> nat \<Rightarrow> 'a inventory_scheme \<Rightarrow> 'a inventory_scheme option" where
  "gather_step hw = (\<lambda>(bus, dev, func) s.
     let bus = of_nat bus; dev = of_nat dev; func = of_nat func;
         (data, s) = pci_config_read hw bus dev func 0 s
     in if data AND 0xFFFF \<noteq> 0xFFFF then
          let (class, s) = hal_pci_class_code hw bus dev func s;
              (subclass, s) = hal_pci_subclass_code hw bus dev func s;
              (vendor, s) = hal_pci_vendor_id hw bus dev func s;
              (device, s) = hal_pci_device_id hw bus dev func s
          in do {
            s \<leftarrow> (if pci_devices s < MAX_INVENTORY_PCI
                   then record_device bus class subclass vendor device s else Some s);
            Some (s\<lparr>pci_devices := to_u32 (pci_devices s + 1)\<rparr>) }
        else Some s)"

definition inventory_gather :: "hardware \<Rightarrow> 'a inventory_scheme \<Rightarrow> 'a inventory_scheme option" where
  "inventory_gather hw s =
     for_each pci_functions (gather_step hw)
       (s\<lparr>cpu_cores := hal_cpu_core_count hw, memory_bytes := hal_memory_size, pci_devices := 0\<rparr>)"

section \<open>Device class names\<close>

definition pci_class_map :: "(u8 \<times> char list) list" where
  "pci_class_map =
     [(0x00, c_lit ''Unclassified''), (0x01, c_lit ''Mass Storage''), (0x02, c_lit ''Network''),
      (0x03, c_lit ''Display''), (0x04, c_lit ''Multimedia''), (0x05, c_lit ''Memory''),
      (0x06, c_lit ''Bridge''), (0x07, c_lit ''Communication''), (0x08, c_lit ''System''),
      (0x09, c_lit ''Input''), (0x0A, c_lit ''Docking''), (0x0B, c_lit ''Processor''),
      (0x0C, c_lit ''Serial Bus''), (0x0D, c_lit ''Wireless''), (0x0E, c_lit ''Intelligent I/O''),
      (0x0F, c_lit ''Satellite''), (0x10, c_lit ''Encryption''), (0x11, c_lit ''Signal Processing''),
      (0x12, c_lit ''Processing Accel''), (0x13, c_lit ''Instrumentation'')]"

fun class_lookup :: "(u8 \<times> char list) list \<Rightarrow> u8 \<Rightarrow> char list" where
  "class_lookup [] code = c_lit ''Unknown''"
| "class_lookup ((c, name) # m) code = (if c = code then name else class_lookup m code)"

definition pci_class_name :: "u8 \<Rightarrow> char list" where
  "pci_class_name code = class_lookup pci_class_map code"

section \<open>The inventory and the bus\<close>

text \<open>The documented behaviour of configuration mechanism 1: a read of the data port returns the
  register last selected through the address port.\<close>

definition pci_answers :: "hardware \<Rightarrow> (u32 \<Rightarrow> u32) \<Rightarrow> bool" where
  "pci_answers hw cfg \<longleftrightarrow> (\<forall>t a. port_in hw (OutL 0xCF8 a # t) 0xCFC = cfg a)"

text \<open>What configuration space says of a function.\<close>

definition pci_reg :: "(u32 \<Rightarrow> u32) \<Rightarrow> nat \<times> nat \<times> nat \<Rightarrow> u8 \<Rightarrow> u32" where
  "pci_reg cfg = (\<lambda>(bus, dev, func) off. cfg (pci_address (of_nat bus) (of_nat dev) (of_nat func) off))"

definition present :: "(u32 \<Rightarrow> u32) \<Rightarrow> nat \<times> nat \<times> nat \<Rightarrow> bool" where
  "present cfg f \<longleftrightarrow> pci_reg cfg f 0 AND 0xFFFF \<noteq> 0xFFFF"

definition devices :: "(u32 \<Rightarrow> u32) \<Rightarrow> (nat \<times> nat \<times> nat) list" where
  "devices cfg = filter (present cfg) pci_functions"

definition dev_bus :: "nat \<times> nat \<times> nat \<Rightarrow> u8" where
  "dev_bus = (\<lambda>(bus, dev, func). of_nat bus)"

definition dev_class :: "(u32 \<Rightarrow> u32) \<Rightarrow> nat \<times> nat \<times> nat \<Rightarrow> u8" where
  "dev_class cfg f = ucast (drop_bit 24 (pci_reg cfg f 8) AND 0xFF)"

definition dev_subclass :: "(u32 \<Rightarrow> u32) \<Rightarrow> nat \<times> nat \<times> nat \<Rightarrow> u8" where
  "dev_subclass cfg f = ucast (drop_bit 16 (pci_reg cfg f 8) AND 0xFF)"

definition dev_vendor :: "(u32 \<Rightarrow> u32) \<Rightarrow> nat \<times> nat \<times> nat \<Rightarrow> u16" where
  "dev_vendor cfg f = ucast (pci_reg cfg f 0 AND 0xFFFF)"

definition dev_device :: "(u32 \<Rightarrow> u32) \<Rightarrow> nat \<times> nat \<times> nat \<Rightarrow> u16" where
  "dev_device cfg f = ucast (drop_bit 16 (pci_reg cfg f 0) AND 0xFFFF)"

lemma config_read:
  assumes "pci_answers hw cfg"
  shows "\<exists>t. pci_config_read hw b d f off s = (cfg (pci_address b d f off), s\<lparr>trace := t\<rparr>)"
  using assms by (simp add: pci_config_read_def inl_def outl_def Let_def pci_answers_def, blast)

text \<open>The inventory lists \<open>fs\<close>: the arrays hold the details of its first 256 members.\<close>

definition lists_devices :: "(u32 \<Rightarrow> u32) \<Rightarrow> (nat \<times> nat \<times> nat) list \<Rightarrow> 'a inventory_scheme \<Rightarrow> bool" where
  "lists_devices cfg fs s \<longleftrightarrow> pci_devices s = length fs \<and>
     take (length fs) (pci_bus s) = map dev_bus (take 256 fs) \<and>
     take (length fs) (pci_class s) = map (dev_class cfg) (take 256 fs) \<and>
     take (length fs) (pci_subclass s) = map (dev_subclass cfg) (take 256 fs) \<and>
     take (length fs) (pci_vendor s) = map (dev_vendor cfg) (take 256 fs) \<and>
     take (length fs) (pci_device s) = map (dev_device cfg) (take 256 fs)"

definition inventory_shape :: "'a inventory_scheme \<Rightarrow> bool" where
  "inventory_shape s \<longleftrightarrow> length (pci_bus s) = 256 \<and> length (pci_class s) = 256 \<and>
     length (pci_subclass s) = 256 \<and> length (pci_vendor s) = 256 \<and> length (pci_device s) = 256"

lemma take_store: "take n xs = ys \<Longrightarrow> n < length xs \<Longrightarrow> take (Suc n) (xs[n := y]) = ys @ [y]"
  by (simp add: take_Suc_conv_app_nth)

lemma take_full:
  assumes "length xs = 256" and "take n xs = map g (take 256 fs)" and "length fs = n" and "256 \<le> n"
  shows "take (Suc n) xs = map g (take 256 (fs @ [f]))"
  using assms by simp

text \<open>What a scan leaves alone.\<close>

definition scan_frame :: "'a inventory_scheme \<Rightarrow> 'a inventory_scheme \<Rightarrow> bool" where
  "scan_frame s s' \<longleftrightarrow> s' = s\<lparr>trace := trace s', pci_devices := pci_devices s', pci_bus := pci_bus s',
     pci_class := pci_class s', pci_subclass := pci_subclass s', pci_vendor := pci_vendor s',
     pci_device := pci_device s'\<rparr>"

lemma scan_frame_trans: "scan_frame s t \<Longrightarrow> scan_frame t u \<Longrightarrow> scan_frame s u"
  unfolding scan_frame_def by (cases s; cases t; cases u) simp

lemma scan_frame_count: "scan_frame s t \<Longrightarrow> scan_frame s (t\<lparr>pci_devices := n\<rparr>)"
  unfolding scan_frame_def by (cases s; cases t) simp

lemma scan_frame_trace: "scan_frame (s\<lparr>trace := t\<rparr>) u \<Longrightarrow> scan_frame s u"
  unfolding scan_frame_def by (cases s; cases u) simp

lemma record_device_wp:
  assumes "inventory_shape s" and "lists_devices cfg fs s" and "length fs < 256"
  shows "wp (record_device (dev_bus f) (dev_class cfg f) (dev_subclass cfg f) (dev_vendor cfg f) (dev_device cfg f) s)
    (\<lambda>s'. inventory_shape s' \<and> lists_devices cfg (fs @ [f]) (s'\<lparr>pci_devices := Suc (length fs)\<rparr>) \<and>
      pci_devices s' = pci_devices s \<and> scan_frame s s')"
  using assms
  by (simp add: record_device_def inventory_shape_def lists_devices_def Let_def take_store scan_frame_def)

lemma gather_step_wp:
  assumes "pci_answers hw cfg" and "inventory_shape s" and "lists_devices cfg fs s"
    and "length fs + 1 < 4294967296"
  shows "wp (gather_step hw f s) (\<lambda>s'. inventory_shape s' \<and>
    lists_devices cfg (fs @ filter (present cfg) [f]) s' \<and> scan_frame s s')"
proof -
  obtain bus dev func where f: "f = (bus, dev, func)" by (cases f)
  let ?b = "of_nat bus :: u8" and ?d = "of_nat dev :: u8" and ?n = "of_nat func :: u8"
  note cr = config_read [OF assms(1), of ?b ?d ?n]
  obtain t0 where t0: "pci_config_read hw ?b ?d ?n 0 s = (pci_reg cfg f 0, s\<lparr>trace := t0\<rparr>)"
    using cr [of 0 s] by (auto simp: pci_reg_def f)
  obtain t1 where t1: "hal_pci_class_code hw ?b ?d ?n (s\<lparr>trace := t0\<rparr>) = (dev_class cfg f, s\<lparr>trace := t1\<rparr>)"
    using cr [of 8 "s\<lparr>trace := t0\<rparr>"] by (auto simp: pci_reg_def f hal_pci_class_code_def dev_class_def)
  obtain t2 where t2: "hal_pci_subclass_code hw ?b ?d ?n (s\<lparr>trace := t1\<rparr>) = (dev_subclass cfg f, s\<lparr>trace := t2\<rparr>)"
    using cr [of 8 "s\<lparr>trace := t1\<rparr>"] by (auto simp: pci_reg_def f hal_pci_subclass_code_def dev_subclass_def)
  obtain t3 where t3: "hal_pci_vendor_id hw ?b ?d ?n (s\<lparr>trace := t2\<rparr>) = (dev_vendor cfg f, s\<lparr>trace := t3\<rparr>)"
    using cr [of 0 "s\<lparr>trace := t2\<rparr>"] by (auto simp: pci_reg_def f hal_pci_vendor_id_def dev_vendor_def)
  obtain t4 where t4: "hal_pci_device_id hw ?b ?d ?n (s\<lparr>trace := t3\<rparr>) = (dev_device cfg f, s\<lparr>trace := t4\<rparr>)"
    using cr [of 0 "s\<lparr>trace := t3\<rparr>"] by (auto simp: pci_reg_def f hal_pci_device_id_def dev_device_def)
  let ?s = "s\<lparr>trace := t4\<rparr>"
  have n: "pci_devices s = length fs" using assms(3) by (simp add: lists_devices_def)
  have sh: "inventory_shape ?s" "lists_devices cfg fs ?s"
    using assms(2,3) by (simp_all add: inventory_shape_def lists_devices_def)
  have b: "dev_bus f = ?b" by (simp add: dev_bus_def f)
  show ?thesis
  proof (cases "present cfg f")
    case True
    have run: "gather_step hw f s = do {
        s \<leftarrow> (if length fs < 256 then record_device (dev_bus f) (dev_class cfg f) (dev_subclass cfg f)
               (dev_vendor cfg f) (dev_device cfg f) ?s else Some ?s);
        Some (s\<lparr>pci_devices := to_u32 (pci_devices s + 1)\<rparr>) }"
      using True t0 t1 t2 t3 t4 n unfolding b by (simp add: gather_step_def f Let_def present_def)
    show ?thesis
    proof (cases "length fs < 256")
      case small: True
      have "wp (record_device (dev_bus f) (dev_class cfg f) (dev_subclass cfg f) (dev_vendor cfg f) (dev_device cfg f) ?s)
        (\<lambda>s'. wp (Some (s'\<lparr>pci_devices := to_u32 (pci_devices s' + 1)\<rparr>)) (\<lambda>s'. inventory_shape s' \<and>
          lists_devices cfg (fs @ filter (present cfg) [f]) s' \<and> scan_frame s s'))"
        by (rule wp_mono [OF record_device_wp [OF sh small]])
          (use True n assms(4) in \<open>auto simp: inventory_shape_def intro: scan_frame_count scan_frame_trace\<close>)
      then show ?thesis unfolding run using small by simp
    next
      case False
      with True n assms(2-4) show ?thesis unfolding run
        by (simp add: inventory_shape_def lists_devices_def scan_frame_def take_full)
    qed
  next
    case False
    with t0 assms(2,3) show ?thesis
      by (simp add: gather_step_def f Let_def present_def inventory_shape_def lists_devices_def scan_frame_def)
  qed
qed

lemma gather_all_wp:
  assumes "pci_answers hw cfg" and "inventory_shape s" and "lists_devices cfg fs s"
    and "length fs + length xs < 4294967296"
  shows "wp (for_each xs (gather_step hw) s) (\<lambda>s'. inventory_shape s' \<and>
    lists_devices cfg (fs @ filter (present cfg) xs) s' \<and> scan_frame s s')"
  using assms(2-4)
proof (induction xs arbitrary: s fs)
  case Nil
  then show ?case by (simp add: scan_frame_def)
next
  case (Cons x xs)
  have "length fs + 1 < 4294967296" using Cons.prems(3) by simp
  from gather_step_wp [OF assms(1) Cons.prems(1,2) this, of x]
  show ?case unfolding for_each.simps
  proof (rule wp_seq)
    fix t
    assume t: "inventory_shape t \<and> lists_devices cfg (fs @ filter (present cfg) [x]) t \<and> scan_frame s t"
    then have "wp (for_each xs (gather_step hw) t) (\<lambda>s'. inventory_shape s' \<and>
      lists_devices cfg ((fs @ filter (present cfg) [x]) @ filter (present cfg) xs) s' \<and> scan_frame t s')"
      using Cons.prems(3) by (intro Cons.IH) auto
    then show "wp (for_each xs (gather_step hw) t) (\<lambda>s'. inventory_shape s' \<and>
      lists_devices cfg (fs @ filter (present cfg) (x # xs)) s' \<and> scan_frame s s')"
      by (rule wp_mono) (use t in \<open>auto intro: scan_frame_trans\<close>)
  qed
qed

lemma length_pci_functions: "length pci_functions = 65536"
  by (simp add: pci_functions_def length_concat comp_def sum_list_triv)

lemma inventory_gather_wp:
  assumes "pci_answers hw cfg" and "inventory_shape s"
  shows "wp (inventory_gather hw s) (\<lambda>s'. inventory_shape s' \<and> lists_devices cfg (devices cfg) s' \<and>
    scan_frame (s\<lparr>cpu_cores := hal_cpu_core_count hw, memory_bytes := hal_memory_size\<rparr>) s')"
proof -
  let ?s = "s\<lparr>cpu_cores := hal_cpu_core_count hw, memory_bytes := hal_memory_size, pci_devices := 0\<rparr>"
  have i: "inventory_shape ?s" "lists_devices cfg [] ?s"
    using assms(2) by (simp_all add: inventory_shape_def lists_devices_def)
  have "length ([] :: (nat \<times> nat \<times> nat) list) + length pci_functions < 4294967296"
    by (simp add: length_pci_functions)
  from gather_all_wp [OF assms(1) i this] show ?thesis
    unfolding inventory_gather_def
    by (rule wp_mono) (auto simp: devices_def scan_frame_def)
qed

text \<open>The HAL's own count.\<close>

lemma count_fold:
  assumes "pci_answers hw cfg" and "n + length xs < 4294967296"
  shows "fst (fold (count_step hw) xs (n, s)) = n + length (filter (present cfg) xs)"
  using assms(2)
proof (induction xs arbitrary: n s)
  case Nil
  then show ?case by simp
next
  case (Cons x xs)
  obtain b d f where x: "x = (b, d, f)" by (cases x)
  obtain t where "pci_config_read hw (of_nat b) (of_nat d) (of_nat f) 0 s = (pci_reg cfg x 0, s\<lparr>trace := t\<rparr>)"
    using config_read [OF assms(1), of "of_nat b" "of_nat d" "of_nat f" 0 s] by (auto simp: pci_reg_def x)
  then show ?case
    using Cons by (simp add: count_step_def x present_def)
qed

section \<open>Class names\<close>

lemma class_lookup_map:
  "class_lookup m code = (case map_of m code of None \<Rightarrow> c_lit ''Unknown'' | Some name \<Rightarrow> name)"
  by (induction m) auto

lemma terminated_class_name [simp]: "terminated (pci_class_name code)"
proof -
  have "list_all (\<lambda>(c, name). terminated name) pci_class_map" by (simp add: pci_class_map_def)
  then have "terminated (class_lookup pci_class_map code)"
    unfolding class_lookup_map by (auto split: option.split simp: list_all_iff dest!: map_of_SomeD)
  then show ?thesis by (simp add: pci_class_name_def)
qed

section \<open>Properties\<close>

text \<open>A machine whose configuration space is \<open>cfg\<close>, and the inventory variables at boot.\<close>

definition pci_machine :: "(u32 \<Rightarrow> u32) \<Rightarrow> hardware" where
  "pci_machine cfg = quiet_machine\<lparr>port_in := \<lambda>t p. case t of
     OutL q a # t' \<Rightarrow> if q = 0xCF8 \<and> p = 0xCFC then cfg a else 0x20 | _ \<Rightarrow> 0x20\<rparr>"

lemma pci_machine_answers [simp]: "pci_answers (pci_machine cfg) cfg"
  by (simp add: pci_answers_def pci_machine_def)

definition inventory_statics :: "pane \<Rightarrow> inventory" where
  "inventory_statics p = pane.extend p (inventory.fields 0 0 0
     (replicate 256 0) (replicate 256 0) (replicate 256 0) (replicate 256 0) (replicate 256 0))"

lemma inventory_statics_shape [simp]: "inventory_shape (inventory_statics p)"
  by (simp add: inventory_statics_def inventory_shape_def inventory.defs pane.defs)

text \<open>C22. The hardware inventory is complete and exact: on a machine whose PCI configuration space
  answers as documented, \<open>inventory_gather\<close> counts every function that is present (as many as
  \<open>hal_pci_device_count\<close>) and stores bus, class, subclass, vendor and device of the first 256
  in bus order, never writing outside its arrays and changing nothing else.\<close>

theorem inventory_complete:
  assumes "pci_answers hw cfg" and "inventory_shape s"
  shows "wp (inventory_gather hw s) (\<lambda>s'. inventory_shape s' \<and> lists_devices cfg (devices cfg) s' \<and>
    pci_devices s' = fst (hal_pci_device_count hw s) \<and> cpu_cores s' = hal_cpu_core_count hw \<and>
    memory_bytes s' = 67108864 \<and> con_term s' = con_term s)"
proof (rule wp_mono [OF inventory_gather_wp [OF assms]])
  fix t
  assume t: "inventory_shape t \<and> lists_devices cfg (devices cfg) t \<and>
    scan_frame (s\<lparr>cpu_cores := hal_cpu_core_count hw, memory_bytes := hal_memory_size\<rparr>) t"
  have "fst (hal_pci_device_count hw s) = length (devices cfg)"
    using count_fold [OF assms(1), of 0 pci_functions s] length_pci_functions
    by (simp add: hal_pci_device_count_def devices_def)
  moreover have "con_term t = con_term s \<and> cpu_cores t = hal_cpu_core_count hw \<and> memory_bytes t = 67108864"
    using t unfolding scan_frame_def
    by (cases s; cases t) (auto simp: con_term_def sb_lines_def hal_memory_size_def)
  ultimately show "inventory_shape t \<and> lists_devices cfg (devices cfg) t \<and>
    pci_devices t = fst (hal_pci_device_count hw s) \<and> cpu_cores t = hal_cpu_core_count hw \<and>
    memory_bytes t = 67108864 \<and> con_term t = con_term s"
    using t by (simp add: lists_devices_def)
qed

theorem inventory_complete_witness:
  "wp (inventory_gather (pci_machine (\<lambda>a. 0x12378086)) (inventory_statics one_pane))
    (\<lambda>s'. lists_devices (\<lambda>a. 0x12378086) (devices (\<lambda>a. 0x12378086)) s')"
  by (rule wp_mono [OF inventory_complete [OF pci_machine_answers inventory_statics_shape]]) simp

text \<open>Class names: the table has one distinct, terminated name for each of the class codes
  0 to \<open>0x13\<close>, in order, and every other code is reported as unknown.\<close>

theorem pci_class_names:
  "(pci_class_name code = c_lit ''Unknown'' \<longleftrightarrow> 0x13 < code) \<and> terminated (pci_class_name code) \<and>
   pci_class_name code = (if code \<le> 0x13 then snd (pci_class_map ! unat code) else c_lit ''Unknown'') \<and>
   distinct (map snd pci_class_map)"
proof -
  have dist: "distinct (map snd pci_class_map)" by code_simp
  have codes: "map fst pci_class_map = map of_nat [0..<20]" by code_simp
  have len: "length pci_class_map = 20" by code_simp
  have unk: "c_lit ''Unknown'' \<notin> set (map snd pci_class_map)" by code_simp
  show ?thesis
  proof (cases "code \<le> 0x13")
    case True
    then have u: "unat code < 20" by (simp add: word_le_nat_alt)
    have "map fst pci_class_map ! unat code = (map of_nat [0..<20] :: u8 list) ! unat code"
      by (simp only: codes)
    then have "fst (pci_class_map ! unat code) = code" using u len by simp
    moreover have "distinct (map fst pci_class_map)" by code_simp
    ultimately have "map_of pci_class_map code = Some (snd (pci_class_map ! unat code))"
      using u len by (metis map_of_eq_Some_iff nth_mem prod.collapse)
    moreover have "snd (pci_class_map ! unat code) \<noteq> c_lit ''Unknown''"
    proof
      assume "snd (pci_class_map ! unat code) = c_lit ''Unknown''"
      moreover have "snd (pci_class_map ! unat code) \<in> set (map snd pci_class_map)" using u len by simp
      ultimately show False using unk by metis
    qed
    ultimately show ?thesis
      using True dist terminated_class_name [of code]
      by (simp add: pci_class_name_def class_lookup_map)
  next
    case False
    then have "code \<notin> set (map fst pci_class_map)"
    proof -
      have "\<forall>c \<in> set (map fst pci_class_map). c \<le> 0x13" by code_simp
      with False show ?thesis by blast
    qed
    then have "map_of pci_class_map code = None" by (simp add: map_of_eq_None_iff)
    with False dist show ?thesis by (auto simp: pci_class_name_def class_lookup_map)
  qed
qed

end
