(* ===== verification/Acpi.thy ===== *)
theory Acpi
  imports Inventory
begin

text \<open>
  \<open>src/kernel/acpi/acpi.c\<close>: the search for the ACPI root pointer in the EBDA and the BIOS area, the
  walk over the tables listed by the RSDT or XSDT, and the lookup of a table by signature.
  Physical memory is the parameter \<open>mem8\<close>; a read of an unmapped byte has no result. The lemmas
  show the search finds the first aligned signature, and that the walk records exactly the
  first sixteen usable entries and the power-management ports of the FADT among them.
\<close>

section \<open>Memory\<close>

text \<open>A little-endian load of \<open>n\<close> bytes, and the byte-by-byte comparison with a signature, which
  stops at the first difference.\<close>

fun ld :: "hardware \<Rightarrow> nat \<Rightarrow> nat \<Rightarrow> nat option" where
  "ld hw 0 a = Some 0"
| "ld hw (Suc n) a = do { b \<leftarrow> mem8 hw a; r \<leftarrow> ld hw n (a + 1); Some (unat b + 256 * r) }"

fun sig_match :: "hardware \<Rightarrow> nat \<Rightarrow> string \<Rightarrow> bool option" where
  "sig_match hw a [] = Some True"
| "sig_match hw a (c # cs) = do {
     b \<leftarrow> mem8 hw a;
     if b = byte_of c then sig_match hw (a + 1) cs else Some False }"

section \<open>Layout of the tables\<close>

text \<open>The packed structures, field by field with the size of each, and what they make of \<open>offsetof\<close> and
  \<open>sizeof\<close>: the distances at which the code below reads.\<close>

type_synonym layout_of = "(string \<times> nat) list"

definition acpi_sdt_header :: layout_of where
  "acpi_sdt_header = [(''signature'', 4), (''length'', 4), (''revision'', 1), (''checksum'', 1), (''oem_id'', 6),
     (''oem_table_id'', 8), (''oem_revision'', 4), (''creator_id'', 4), (''creator_revision'', 4)]"

definition acpi_rsdp :: layout_of where
  "acpi_rsdp = [(''signature'', 8), (''checksum'', 1), (''oem_id'', 6), (''revision'', 1), (''rsdt_address'', 4),
     (''length'', 4), (''xsdt_address'', 8), (''ext_checksum'', 1), (''reserved'', 3)]"

definition acpi_fadt_table :: layout_of where
  "acpi_fadt_table = acpi_sdt_header @ [(''firmware_ctrl'', 4), (''dsdt'', 4), (''reserved1'', 1),
     (''preferred_pm_profile'', 1), (''sci_int'', 2), (''smi_cmd'', 4), (''acpi_enable'', 1), (''acpi_disable'', 1),
     (''S4bios_req'', 1), (''pstate_cnt'', 1), (''pm1a_evt_blk'', 4), (''pm1b_evt_blk'', 4), (''pm1a_cnt_blk'', 4),
     (''pm1b_cnt_blk'', 4)]"

fun offset_of :: "layout_of \<Rightarrow> string \<Rightarrow> nat option" where
  "offset_of [] f = None"
| "offset_of ((g, n) # l) f = (if f = g then Some 0 else map_option ((+) n) (offset_of l f))"

definition size_of :: "layout_of \<Rightarrow> nat" where
  "size_of l = sum_list (map snd l)"

lemma acpi_layout:
  "offset_of acpi_sdt_header ''length'' = Some 4" "size_of acpi_sdt_header = 36"
  "offset_of acpi_rsdp ''revision'' = Some 15" "offset_of acpi_rsdp ''rsdt_address'' = Some 16"
  "offset_of acpi_rsdp ''xsdt_address'' = Some 24" "size_of acpi_rsdp = 36"
  "offset_of acpi_fadt_table ''pm1a_cnt_blk'' = Some 64" "offset_of acpi_fadt_table ''pm1b_cnt_blk'' = Some 68"
  by code_simp+

section \<open>State and operations\<close>

record acpi_fadt =
  pm1a_cnt_blk :: u16
  pm1b_cnt_blk :: u16
  slp_typa :: u16
  slp_typb :: u16

text \<open>\<open>fadt_table\<close> is a pointer that is null or points to \<open>fadt_data\<close>; table pointers are addresses,
  0 is null.\<close>

record acpi = inventory +
  fadt_data :: acpi_fadt
  fadt_table :: bool
  acpi_tables :: "nat list"
  acpi_table_count :: nat

abbreviation MAX_ACPI_TABLES :: nat where "MAX_ACPI_TABLES \<equiv> 16"
abbreviation RSDP_SIZE :: nat where "RSDP_SIZE \<equiv> 36"
abbreviation SDT_SIZE :: nat where "SDT_SIZE \<equiv> 36"
abbreviation MAPPED :: nat where "MAPPED \<equiv> 0x80000000"

function scan_rsdp :: "hardware \<Rightarrow> nat \<Rightarrow> nat \<Rightarrow> nat option option" where
  "scan_rsdp hw p e =
     (if p + RSDP_SIZE \<le> e then do {
        found \<leftarrow> sig_match hw p ''RSD PTR '';
        if found then Some (Some p) else scan_rsdp hw (p + 16) e }
      else Some None)"
  by pat_completeness auto
termination
  by (relation "measure (\<lambda>(hw, p, e). e - p)") auto

declare scan_rsdp.simps [simp del]

definition find_rsdp :: "hardware \<Rightarrow> nat option option" where
  "find_rsdp hw = do {
     ebda_seg \<leftarrow> ld hw 2 0x40e;
     let start = ebda_seg * 16;
     rsdp \<leftarrow> scan_rsdp hw start (start + 1024);
     case rsdp of Some p \<Rightarrow> Some (Some p) | None \<Rightarrow> scan_rsdp hw 0xE0000 0x100000 }"

text \<open>Which root table to use, and where it is.\<close>

definition root_table :: "hardware \<Rightarrow> nat \<Rightarrow> (bool \<times> nat) option" where
  "root_table hw rsdp = do {
     revision \<leftarrow> ld hw 1 (rsdp + 15);
     use_xsdt \<leftarrow> (if revision \<ge> 2 then map_option (\<lambda>x. x \<noteq> 0) (ld hw 8 (rsdp + 24)) else Some False);
     a \<leftarrow> (if use_xsdt then ld hw 8 (rsdp + 24) else ld hw 4 (rsdp + 16));
     Some (use_xsdt, if a < MAPPED then a else 0) }"

definition root_signature :: "hardware \<Rightarrow> nat \<Rightarrow> bool option" where
  "root_signature hw sdt = do {
     r \<leftarrow> sig_match hw sdt ''RSDT'';
     if r then Some True else sig_match hw sdt ''XSDT'' }"

definition entry_size :: "bool \<Rightarrow> nat" where
  "entry_size use_xsdt = (if use_xsdt then 8 else 4)"

text \<open>The number of entries, computed in 64 bits and stored in an \<open>unsigned int\<close>.\<close>

definition entry_count :: "bool \<Rightarrow> nat \<Rightarrow> nat" where
  "entry_count use_xsdt len = unat (ucast ((of_nat len - 36 :: u64) div of_nat (entry_size use_xsdt)) :: u32)"

definition record_fadt :: "hardware \<Rightarrow> nat \<Rightarrow> 'a acpi_scheme \<Rightarrow> 'a acpi_scheme option" where
  "record_fadt hw addr s = do {
     a \<leftarrow> ld hw 4 (addr + 64);
     b \<leftarrow> ld hw 4 (addr + 68);
     let s = s\<lparr>fadt_data := \<lparr>pm1a_cnt_blk = of_nat a, pm1b_cnt_blk = of_nat b, slp_typa = 0, slp_typb = 0\<rparr>,
               fadt_table := True\<rparr>;
     s \<leftarrow> console_write hw (c_lit ''FADT at 0x'') s;
     s \<leftarrow> console_write_hex32 hw (of_nat addr) s;
     s \<leftarrow> console_write hw (c_lit '' PM1a='') s;
     s \<leftarrow> console_write_hex16 hw (pm1a_cnt_blk (fadt_data s)) s;
     s \<leftarrow> console_write hw (c_lit '' PM1b='') s;
     s \<leftarrow> console_write_hex16 hw (pm1b_cnt_blk (fadt_data s)) s;
     console_putc hw NEWLINE s }"

text \<open>The body of the loop over the entries; the guard is the loop's second condition.\<close>

definition parse_entry :: "hardware \<Rightarrow> bool \<Rightarrow> nat \<Rightarrow> nat \<Rightarrow> 'a acpi_scheme \<Rightarrow> 'a acpi_scheme option" where
  "parse_entry hw use_xsdt sdt i s =
     (if acpi_table_count s < MAX_ACPI_TABLES then do {
        addr \<leftarrow> ld hw (entry_size use_xsdt) (sdt + SDT_SIZE + i * entry_size use_xsdt);
        let hdr = (if addr < MAPPED then addr else 0);
        if hdr = 0 then Some s else do {
          ts \<leftarrow> wr (acpi_tables s) (acpi_table_count s) hdr;
          let s = s\<lparr>acpi_tables := ts, acpi_table_count := acpi_table_count s + 1\<rparr>;
          facp \<leftarrow> sig_match hw hdr ''FACP'';
          if facp then record_fadt hw hdr s else Some s } }
      else Some s)"

definition parse_tables :: "hardware \<Rightarrow> bool \<Rightarrow> nat \<Rightarrow> 'a acpi_scheme \<Rightarrow> 'a acpi_scheme option" where
  "parse_tables hw use_xsdt sdt s = do {
     let s = s\<lparr>acpi_table_count := 0\<rparr>;
     len \<leftarrow> ld hw 4 (sdt + 4);
     s \<leftarrow> for_each [0..<entry_count use_xsdt len] (parse_entry hw use_xsdt sdt) s;
     console_write hw (c_lit ''ACPI tables parsed\<newline>'') s }"

definition acpi_defaults :: "hardware \<Rightarrow> 'a acpi_scheme \<Rightarrow> 'a acpi_scheme option" where
  "acpi_defaults hw s =
     console_write hw (c_lit ''ACPI tables not found, using defaults\<newline>'')
       (s\<lparr>fadt_data := \<lparr>pm1a_cnt_blk = 0x604, pm1b_cnt_blk = 0xB004, slp_typa = 0, slp_typb = 0\<rparr>,
          fadt_table := True\<rparr>)"

definition acpi_init :: "hardware \<Rightarrow> 'a acpi_scheme \<Rightarrow> 'a acpi_scheme option" where
  "acpi_init hw s = do {
     s \<leftarrow> console_write hw (c_lit ''ACPI parser initializing\<newline>'') s;
     rsdp \<leftarrow> find_rsdp hw;
     case rsdp of
       None \<Rightarrow> acpi_defaults hw s
     | Some p \<Rightarrow> do {
         s \<leftarrow> console_write hw (c_lit ''RSDP found at 0x'') s;
         s \<leftarrow> console_write_hex32 hw (of_nat p) s;
         s \<leftarrow> console_putc hw NEWLINE s;
         (use_xsdt, sdt) \<leftarrow> root_table hw p;
         if sdt = 0 then acpi_defaults hw s else do {
           s \<leftarrow> console_write hw (c_lit (if use_xsdt then ''XSDT at 0x'' else ''RSDT at 0x'')) s;
           s \<leftarrow> console_write_hex32 hw (of_nat sdt) s;
           s \<leftarrow> console_putc hw NEWLINE s;
           ok \<leftarrow> root_signature hw sdt;
           if ok then parse_tables hw use_xsdt sdt s else acpi_defaults hw s } } }"

definition acpi_get_fadt :: "'a acpi_scheme \<Rightarrow> acpi_fadt option" where
  "acpi_get_fadt s = (if fadt_table s then Some (fadt_data s) else None)"

primrec find_table :: "hardware \<Rightarrow> string \<Rightarrow> nat list \<Rightarrow> nat list \<Rightarrow> nat option option" where
  "find_table hw sig ts [] = Some None"
| "find_table hw sig ts (i # is) = do {
     h \<leftarrow> rd ts i;
     m \<leftarrow> sig_match hw h sig;
     if m then Some (Some h) else find_table hw sig ts is }"

definition acpi_get_table :: "hardware \<Rightarrow> string \<Rightarrow> 'a acpi_scheme \<Rightarrow> nat option option" where
  "acpi_get_table hw sig s = find_table hw sig (acpi_tables s) [0..<acpi_table_count s]"

section \<open>Readable memory\<close>

definition readable :: "hardware \<Rightarrow> nat \<Rightarrow> nat \<Rightarrow> bool" where
  "readable hw a n \<longleftrightarrow> (\<forall>i < n. mem8 hw (a + i) \<noteq> None)"

definition le_value :: "hardware \<Rightarrow> nat \<Rightarrow> nat \<Rightarrow> nat" where
  "le_value hw n a = the (ld hw n a)"

definition bytes :: "hardware \<Rightarrow> nat \<Rightarrow> nat \<Rightarrow> u8 list" where
  "bytes hw a n = map (\<lambda>i. the (mem8 hw (a + i))) [0..<n]"

lemma readable_sub: "readable hw a n \<Longrightarrow> a \<le> b \<Longrightarrow> b + m \<le> a + n \<Longrightarrow> readable hw b m"
proof -
  assume r: "readable hw a n" and "a \<le> b" and "b + m \<le> a + n"
  have "mem8 hw (b + i) \<noteq> None" if "i < m" for i
  proof -
    have "b + i = a + (b - a + i)" "b - a + i < n" using that \<open>a \<le> b\<close> \<open>b + m \<le> a + n\<close> by simp_all
    with r show ?thesis unfolding readable_def by metis
  qed
  then show ?thesis by (simp add: readable_def)
qed

lemma readable_Suc: "readable hw a (Suc n) \<longleftrightarrow> mem8 hw a \<noteq> None \<and> readable hw (a + 1) n"
proof
  assume r: "readable hw a (Suc n)"
  then have "mem8 hw (a + 0) \<noteq> None" unfolding readable_def by blast
  moreover have "readable hw (a + 1) n" by (rule readable_sub [OF r]) simp_all
  ultimately show "mem8 hw a \<noteq> None \<and> readable hw (a + 1) n" by simp
next
  assume r: "mem8 hw a \<noteq> None \<and> readable hw (a + 1) n"
  have "mem8 hw (a + i) \<noteq> None" if "i < Suc n" for i
    using r that by (cases i) (auto simp: readable_def)
  then show "readable hw a (Suc n)" by (simp add: readable_def)
qed

lemma ld_readable: "readable hw a n \<Longrightarrow> ld hw n a = Some (le_value hw n a)"
proof -
  assume "readable hw a n"
  then have "\<exists>v. ld hw n a = Some v"
  proof (induction n arbitrary: a)
    case (Suc n)
    then have "mem8 hw a \<noteq> None" "readable hw (a + 1) n" by (simp_all add: readable_Suc)
    then obtain b v where "mem8 hw a = Some b" "ld hw n (a + 1) = Some v"
      using Suc.IH by blast
    then show ?case by simp
  qed simp
  then show ?thesis by (auto simp: le_value_def)
qed

lemma bytes_Suc: "bytes hw a (Suc n) = the (mem8 hw a) # bytes hw (a + 1) n"
  by (simp add: bytes_def upt_conv_Cons map_Suc_upt [symmetric] del: upt_Suc map_Suc_upt)

definition has_sig :: "hardware \<Rightarrow> nat \<Rightarrow> string \<Rightarrow> bool" where
  "has_sig hw a sig \<longleftrightarrow> bytes hw a (length sig) = map byte_of sig"

lemma sig_match_readable:
  "readable hw a (length sig) \<Longrightarrow> sig_match hw a sig = Some (has_sig hw a sig)"
  unfolding has_sig_def
proof (induction sig arbitrary: a)
  case Nil
  then show ?case by (simp add: bytes_def)
next
  case (Cons c sig)
  then have "mem8 hw a \<noteq> None" "readable hw (a + 1) (length sig)" by (simp_all add: readable_Suc)
  then show ?case using Cons.IH [of "a + 1"] by (auto simp: bytes_Suc)
qed

section \<open>The search for the root pointer\<close>

definition rsdp_at :: "hardware \<Rightarrow> nat \<Rightarrow> bool" where
  "rsdp_at hw p \<longleftrightarrow> has_sig hw p ''RSD PTR ''"

text \<open>The places at which the scan of a region looks: every 16 bytes, as long as a whole root pointer fits.
  The scan yields the first of them that holds the signature.\<close>

definition rsdp_places :: "nat \<Rightarrow> nat \<Rightarrow> nat list" where
  "rsdp_places p len = map (\<lambda>k. p + 16 * k) [0..<(len - 20) div 16]"

lemma rsdp_places_fit: "q \<in> set (rsdp_places p len) \<Longrightarrow> p \<le> q \<and> q + 36 \<le> p + len"
  by (auto simp: rsdp_places_def)

lemma rsdp_places_Cons: "36 \<le> len \<Longrightarrow> rsdp_places p len = p # rsdp_places (p + 16) (len - 16)"
proof -
  assume "36 \<le> len"
  then have "(len - 20) div 16 = Suc ((len - 16 - 20) div 16)" by simp
  then show ?thesis
    unfolding rsdp_places_def by (simp add: upt_conv_Cons map_Suc_upt [symmetric] del: upt_Suc map_Suc_upt)
qed

lemma scan_rsdp_find:
  assumes "readable hw p (e - p)"
  shows "scan_rsdp hw p e = Some (find (rsdp_at hw) (rsdp_places p (e - p)))"
  using assms
proof (induction hw p e rule: scan_rsdp.induct)
  case (1 hw p e)
  show ?case
  proof (cases "p + 36 \<le> e")
    case False
    then have "rsdp_places p (e - p) = []" by (simp add: rsdp_places_def)
    with False show ?thesis by (subst scan_rsdp.simps) simp
  next
    case True
    have "readable hw p (length ''RSD PTR '')" by (rule readable_sub [OF "1.prems"]) (use True in simp_all)
    then have m: "sig_match hw p ''RSD PTR '' = Some (rsdp_at hw p)"
      using sig_match_readable [of hw p "''RSD PTR ''"] unfolding rsdp_at_def by blast
    have places: "rsdp_places p (e - p) = p # rsdp_places (p + 16) (e - (p + 16))"
      using True rsdp_places_Cons [of "e - p" p] by (simp add: diff_diff_left)
    have r: "readable hw (p + 16) (e - (p + 16))" by (rule readable_sub [OF "1.prems"]) (use True in simp_all)
    show ?thesis
    proof (cases "rsdp_at hw p")
      case here: True
      then show ?thesis unfolding places using True m by (subst scan_rsdp.simps) (simp del: sig_match.simps)
    next
      case False
      note IH = "1.IH" [OF True m False r]
      from False show ?thesis
        unfolding places using True m IH by (subst scan_rsdp.simps) (simp del: sig_match.simps)
    qed
  qed
qed

section \<open>The walk over the tables\<close>

lemma acpi_fields:
  fixes s s' :: "'a acpi_scheme"
  assumes "console.more s' = console.more s"
  shows "fadt_data s' = fadt_data s" "fadt_table s' = fadt_table s" "acpi_tables s' = acpi_tables s"
    "acpi_table_count s' = acpi_table_count s" "acpi.more s' = acpi.more s"
  using assms by (cases s; cases s'; simp)+

text \<open>Two states that agree above the console still do after the same update of ACPI variables.\<close>

lemma acpi_more_upd:
  fixes s t :: "'a acpi_scheme"
  assumes "console.more t = console.more s"
  shows "console.more (t\<lparr>fadt_data := d, fadt_table := b\<rparr>) = console.more (s\<lparr>fadt_data := d, fadt_table := b\<rparr>)"
    "console.more (t\<lparr>acpi_tables := ts, acpi_table_count := n\<rparr>) = console.more (s\<lparr>acpi_tables := ts, acpi_table_count := n\<rparr>)"
    "console.more (t\<lparr>acpi_table_count := n\<rparr>) = console.more (s\<lparr>acpi_table_count := n\<rparr>)"
  using assms by (cases s; cases t; simp)+

lemma con_acpi_upd [simp]:
  fixes s :: "'a acpi_scheme"
  shows "con_inv (s\<lparr>fadt_data := d\<rparr>) = con_inv s" "con_inv (s\<lparr>fadt_table := b\<rparr>) = con_inv s"
    "con_inv (s\<lparr>acpi_tables := ts\<rparr>) = con_inv s" "con_inv (s\<lparr>acpi_table_count := n\<rparr>) = con_inv s"
    "con_term (s\<lparr>fadt_data := d\<rparr>) = con_term s" "con_term (s\<lparr>fadt_table := b\<rparr>) = con_term s"
    "con_term (s\<lparr>acpi_tables := ts\<rparr>) = con_term s" "con_term (s\<lparr>acpi_table_count := n\<rparr>) = con_term s"
    "con_keep (s\<lparr>fadt_data := d\<rparr>) = con_keep s" "con_keep (s\<lparr>fadt_table := b\<rparr>) = con_keep s"
    "con_keep (s\<lparr>acpi_tables := ts\<rparr>) = con_keep s" "con_keep (s\<lparr>acpi_table_count := n\<rparr>) = con_keep s"
  by (simp_all add: con_inv_def con_shape_def mirrored_def con_term_def sb_lines_def con_keep_def)

text \<open>What recording one entry does to the ACPI variables.\<close>

definition fadt_of :: "hardware \<Rightarrow> nat \<Rightarrow> acpi_fadt" where
  "fadt_of hw a = \<lparr>pm1a_cnt_blk = of_nat (le_value hw 4 (a + 64)), pm1b_cnt_blk = of_nat (le_value hw 4 (a + 68)),
     slp_typa = 0, slp_typb = 0\<rparr>"

definition usable :: "nat \<Rightarrow> bool" where
  "usable a \<longleftrightarrow> 0 < a \<and> a < MAPPED"

definition add_table :: "hardware \<Rightarrow> nat \<Rightarrow> 'a acpi_scheme \<Rightarrow> 'a acpi_scheme" where
  "add_table hw a s =
     (if acpi_table_count s < 16 \<and> usable a then
        let s = s\<lparr>acpi_tables := (acpi_tables s)[acpi_table_count s := a], acpi_table_count := acpi_table_count s + 1\<rparr>
        in if has_sig hw a ''FACP'' then s\<lparr>fadt_data := fadt_of hw a, fadt_table := True\<rparr> else s
      else s)"

lemma add_table_con [simp]:
  "con_inv (add_table hw a s) = con_inv s" "con_term (add_table hw a s) = con_term s"
  "con_keep (add_table hw a s) = con_keep s"
  by (simp_all add: add_table_def Let_def)

lemma add_table_more:
  fixes s t :: "'a acpi_scheme"
  assumes "console.more t = console.more s"
  shows "console.more (add_table hw a t) = console.more (add_table hw a s)"
  using assms by (cases s; cases t) (simp add: add_table_def Let_def)

definition entry :: "hardware \<Rightarrow> bool \<Rightarrow> nat \<Rightarrow> nat \<Rightarrow> nat" where
  "entry hw x sdt i = le_value hw (entry_size x) (sdt + 36 + i * entry_size x)"

lemma record_fadt_wp:
  fixes s :: "'a acpi_scheme"
  assumes "con_inv s" and "uart_ready hw" and "readable hw (a + 64) 8"
  shows "wp (record_fadt hw a s) (says (s\<lparr>fadt_data := fadt_of hw a, fadt_table := True\<rparr>))"
proof -
  have l: "ld hw 4 (a + 64) = Some (le_value hw 4 (a + 64))" "ld hw 4 (a + 68) = Some (le_value hw 4 (a + 68))"
    by (rule ld_readable, rule readable_sub [OF assms(3)], simp_all)+
  let ?s = "s\<lparr>fadt_data := fadt_of hw a, fadt_table := True\<rparr>"
  have i: "con_inv ?s" using assms(1) by simp
  show ?thesis
    unfolding record_fadt_def l Option.bind.bind_lunit Let_def fadt_of_def [symmetric]
    by (intro says_seq says_simps [OF assms(2)] i) simp_all
qed

lemma parse_entry_wp:
  fixes s :: "'a acpi_scheme"
  assumes "con_inv s" and "uart_ready hw" and "length (acpi_tables s) = 16"
    and "readable hw 0 (MAPPED + 72)" and "readable hw (sdt + 36 + i * entry_size x) (entry_size x)"
  shows "wp (parse_entry hw x sdt i s) (says (add_table hw (entry hw x sdt i) s))"
proof (cases "acpi_table_count s < 16 \<and> usable (entry hw x sdt i)")
  case False
  then show ?thesis
    using assms(1) ld_readable [OF assms(5)]
    by (auto simp: parse_entry_def add_table_def entry_def usable_def intro: says_refl)
next
  case True
  let ?a = "entry hw x sdt i"
  let ?s = "s\<lparr>acpi_tables := (acpi_tables s)[acpi_table_count s := ?a], acpi_table_count := acpi_table_count s + 1\<rparr>"
  have a: "ld hw (entry_size x) (sdt + 36 + i * entry_size x) = Some ?a" "?a < MAPPED" "?a \<noteq> 0"
    using ld_readable [OF assms(5)] True by (simp_all add: entry_def usable_def)
  have m: "sig_match hw ?a ''FACP'' = Some (has_sig hw ?a ''FACP'')"
    by (rule sig_match_readable, rule readable_sub [OF assms(4)]) (use a in simp_all)
  have f: "readable hw (?a + 64) 8" by (rule readable_sub [OF assms(4)]) (use a in simp_all)
  have i: "con_inv ?s" using assms(1) by simp
  have "parse_entry hw x sdt i s = (if has_sig hw ?a ''FACP'' then record_fadt hw ?a ?s else Some ?s)"
    using True a m assms(3) by (simp add: parse_entry_def Let_def del: sig_match.simps)
  then show ?thesis
    using True record_fadt_wp [OF i assms(2) f] says_refl [OF i] by (simp add: add_table_def Let_def)
qed

text \<open>The whole loop: a fold of \<open>add_table\<close> over the entries.\<close>

definition add_tables :: "hardware \<Rightarrow> nat list \<Rightarrow> 'a acpi_scheme \<Rightarrow> 'a acpi_scheme" where
  "add_tables hw es s = fold (add_table hw) es s"

lemma talks_cong:
  "con_keep s = con_keep t \<Longrightarrow> con_term s = con_term t \<Longrightarrow> talks s u = talks t u"
  using con_keep_color [of s t] by (simp add: talks_def)

lemma says_talks_add:
  fixes s t u :: "'a acpi_scheme"
  assumes "says (add_tables hw es s) t" and "says (add_table hw e t) u"
  shows "says (add_tables hw (es @ [e]) s) u"
proof -
  have eq: "add_tables hw (es @ [e]) s = add_table hw e (add_tables hw es s)" by (simp add: add_tables_def)
  have "console.more u = console.more (add_table hw e (add_tables hw es s))"
    using add_table_more [OF saysD(3) [OF assms(1)]] saysD(3) [OF assms(2)] by simp
  moreover have "talks (add_tables hw es s) u"
    using talks_trans [of "add_tables hw es s" t u] assms talks_cong [of "add_table hw e t" t u]
    by (simp add: says_def)
  then have "talks (add_table hw e (add_tables hw es s)) u" by (subst talks_cong) simp_all
  ultimately show ?thesis unfolding eq says_def by simp
qed

lemma add_table_length [simp]: "length (acpi_tables (add_table hw a s)) = length (acpi_tables s)"
  by (simp add: add_table_def Let_def)

lemma add_tables_length [simp]: "length (acpi_tables (add_tables hw es s)) = length (acpi_tables s)"
  unfolding add_tables_def by (induction es arbitrary: s) simp_all

lemma parse_loop_wp:
  fixes s :: "'a acpi_scheme"
  assumes "con_inv s" and "uart_ready hw" and "length (acpi_tables s) = 16"
    and "readable hw 0 (MAPPED + 72)"
    and "\<And>i. i < n \<Longrightarrow> readable hw (sdt + 36 + i * entry_size x) (entry_size x)"
  shows "wp (for_each [0..<n] (parse_entry hw x sdt) s) (says (add_tables hw (map (entry hw x sdt) [0..<n]) s))"
proof (rule wp_for_upt [where I = "\<lambda>k. says (add_tables hw (map (entry hw x sdt) [0..<k]) s)"])
  fix k and t :: "'a acpi_scheme"
  assume k: "k < n" and t: "says (add_tables hw (map (entry hw x sdt) [0..<k]) s) t"
  have "length (acpi_tables t) = 16"
    using acpi_fields(3) [OF saysD(3) [OF t]] assms(3) by simp
  from parse_entry_wp [OF saysD(1) [OF t] assms(2) this assms(4) assms(5) [OF k]]
  show "wp (parse_entry hw x sdt k t) (says (add_tables hw (map (entry hw x sdt) [0..<Suc k]) s))"
    by (rule wp_mono) (use says_talks_add [OF t] in simp)
qed (use assms(1) in \<open>simp_all add: add_tables_def says_refl\<close>)

text \<open>What the fold records: the first sixteen usable entries, and the last FADT among them.\<close>

definition known_tables :: "'a acpi_scheme \<Rightarrow> nat list" where
  "known_tables s = take (acpi_table_count s) (acpi_tables s)"

definition last_fadt :: "hardware \<Rightarrow> nat list \<Rightarrow> acpi_fadt option \<Rightarrow> acpi_fadt option" where
  "last_fadt hw ts d = (let fs = filter (\<lambda>a. has_sig hw a ''FACP'') ts
     in if fs = [] then d else Some (fadt_of hw (last fs)))"

lemma last_fadt_snoc:
  "last_fadt hw (ts @ [a]) d = (if has_sig hw a ''FACP'' then Some (fadt_of hw a) else last_fadt hw ts d)"
  by (simp add: last_fadt_def Let_def)

lemma add_table_step:
  assumes "acpi_table_count s < 16 \<and> usable a"
  shows "acpi_get_fadt (add_table hw a s) = (if has_sig hw a ''FACP'' then Some (fadt_of hw a) else acpi_get_fadt s)"
    "acpi_table_count (add_table hw a s) = Suc (acpi_table_count s)"
    "acpi_tables (add_table hw a s) = (acpi_tables s)[acpi_table_count s := a]"
  using assms by (simp_all add: add_table_def Let_def acpi_get_fadt_def)

lemma add_tables_result:
  assumes "length (acpi_tables s) = 16" and "acpi_table_count s = 0"
  shows "acpi_table_count (add_tables hw es s) = length (take 16 (filter usable es)) \<and>
    known_tables (add_tables hw es s) = take 16 (filter usable es) \<and>
    acpi_get_fadt (add_tables hw es s) = last_fadt hw (take 16 (filter usable es)) (acpi_get_fadt s)"
proof (induction es rule: rev_induct)
  case Nil
  then show ?case using assms(2) by (simp add: add_tables_def known_tables_def last_fadt_def)
next
  case (snoc e es)
  let ?t = "add_tables hw es s"
  let ?ts = "take 16 (filter usable es)"
  have eq: "add_tables hw (es @ [e]) s = add_table hw e ?t" by (simp add: add_tables_def)
  have len: "length (acpi_tables ?t) = 16" using assms(1) by simp
  show ?case
  proof (cases "acpi_table_count ?t < 16 \<and> usable e")
    case True
    then have "length (filter usable es) < 16" using snoc by auto
    then have ts: "take 16 (filter usable (es @ [e])) = ?ts @ [e]" using True by simp
    note n1 = conjunct1 [OF snoc] and n2 = conjunct1 [OF conjunct2 [OF snoc], unfolded known_tables_def]
    note n = n1 n2 [unfolded n1]
    have "take (Suc (length ?ts)) ((acpi_tables ?t)[length ?ts := e]) = ?ts @ [e]"
      using n(2) True n(1) len by (intro take_store) simp_all
    then show ?thesis
      using snoc n unfolding eq ts last_fadt_snoc known_tables_def add_table_step [OF True]
      by simp
  next
    case False
    then have same: "take 16 (filter usable (es @ [e])) = ?ts" using snoc by auto
    have "add_table hw e ?t = ?t" using False by (simp only: add_table_def if_False)
    then show ?thesis using snoc unfolding eq same by (simp only: simp_thms)
  qed
qed

section \<open>Initialisation\<close>

text \<open>The root table the code ends up with, if any.\<close>

definition acpi_root :: "hardware \<Rightarrow> (bool \<times> nat) option" where
  "acpi_root hw = (case find_rsdp hw of Some (Some p) \<Rightarrow>
     (case root_table hw p of Some (x, sdt) \<Rightarrow>
        if sdt \<noteq> 0 \<and> root_signature hw sdt = Some True then Some (x, sdt) else None
      | None \<Rightarrow> None) | _ \<Rightarrow> None)"

text \<open>What the code relies on: the bootloader maps the first two gigabytes (and a table that
  starts there may reach 72 bytes past the end), and the root table's own length field is
  not smaller than its header and stays in the mapped region.\<close>

definition firmware_ok :: "hardware \<Rightarrow> bool" where
  "firmware_ok hw \<longleftrightarrow> readable hw 0 (MAPPED + 72) \<and>
     (\<forall>x sdt. acpi_root hw = Some (x, sdt) \<longrightarrow>
        36 \<le> le_value hw 4 (sdt + 4) \<and> sdt + le_value hw 4 (sdt + 4) \<le> MAPPED)"

definition root_entries :: "hardware \<Rightarrow> bool \<Rightarrow> nat \<Rightarrow> nat list" where
  "root_entries hw x sdt = map (entry hw x sdt) [0..<(le_value hw 4 (sdt + 4) - 36) div entry_size x]"

lemma ld_bound: "ld hw n a = Some v \<Longrightarrow> v < 256 ^ n"
proof (induction n arbitrary: a v)
  case (Suc n)
  then obtain b r where b: "mem8 hw a = Some b" "ld hw n (a + 1) = Some r" "v = unat b + 256 * r"
    by (auto split: Option.bind_splits)
  then have "r < 256 ^ n" using Suc.IH by blast
  moreover have "unat b < 256" using unsigned_less [of b] by simp
  ultimately show ?case using b(3) by simp
qed simp

lemma entry_count_eq:
  assumes "36 \<le> n" and "n < 4294967296"
  shows "entry_count x n = (n - 36) div entry_size x"
proof -
  have "(of_nat n - 36 :: u64) = of_nat (n - 36)" using assms(1) by (simp add: of_nat_diff)
  moreover have "unat (of_nat (n - 36) :: u64) = n - 36"
    by (simp only: unat_of_nat) (use assms in simp)
  moreover have "unat (of_nat (entry_size x) :: u64) = entry_size x" by (simp add: entry_size_def)
  ultimately have "unat ((of_nat n - 36 :: u64) div of_nat (entry_size x)) = (n - 36) div entry_size x"
    by (simp only: unat_div)
  moreover have "(n - 36) div entry_size x < 4294967296"
    using div_le_dividend [of "n - 36" "entry_size x"] assms(2) by linarith
  ultimately show ?thesis by (simp add: entry_count_def unat_ucast)
qed

text \<open>The root pointer and the root table as ACPI has them found: the first signature at a 16-byte step
  in the first kilobyte of the extended BIOS data area, whose segment stands at \<open>0x40E\<close>, and then
  in the BIOS area from \<open>0xE0000\<close> to 1 MiB; from revision 2 on the XSDT when there is one, else the
  RSDT, provided it lies in the mapped region and carries either signature.\<close>

definition rsdp_reference :: "hardware \<Rightarrow> nat option" where
  "rsdp_reference hw = find (\<lambda>p. has_sig hw p ''RSD PTR '')
     (rsdp_places (16 * le_value hw 2 0x40E) 1024 @ rsdp_places 0xE0000 0x20000)"

definition root_reference :: "hardware \<Rightarrow> (bool \<times> nat) option" where
  "root_reference hw = (case rsdp_reference hw of None \<Rightarrow> None
   | Some p \<Rightarrow>
      let xsdt = (2 \<le> le_value hw 1 (p + 15) \<and> le_value hw 8 (p + 24) \<noteq> 0);
          a = (if xsdt then le_value hw 8 (p + 24) else le_value hw 4 (p + 16))
      in if 0 < a \<and> a < 0x80000000 \<and> (has_sig hw a ''RSDT'' \<or> has_sig hw a ''XSDT'') then Some (xsdt, a) else None)"

lemma find_append: "find P (xs @ ys) = (case find P xs of None \<Rightarrow> find P ys | Some x \<Rightarrow> Some x)"
  by (induction xs) simp_all

lemma find_rsdp_eq:
  assumes "readable hw 0 (MAPPED + 72)"
  shows "find_rsdp hw = Some (rsdp_reference hw)" and "rsdp_reference hw = Some p \<Longrightarrow> p + 36 \<le> 0x100400"
proof -
  let ?seg = "le_value hw 2 0x40e"
  have l: "ld hw 2 0x40e = Some ?seg" by (rule ld_readable, rule readable_sub [OF assms]) simp_all
  then have seg: "?seg < 65536" using ld_bound by fastforce
  have r1: "readable hw (?seg * 16) (?seg * 16 + 1024 - ?seg * 16)"
    by (rule readable_sub [OF assms]) (use seg in simp_all)
  have r2: "readable hw 0xE0000 (0x100000 - 0xE0000)" by (rule readable_sub [OF assms]) simp_all
  have at: "rsdp_at hw = (\<lambda>p. has_sig hw p ''RSD PTR '')" by (intro ext) (simp add: rsdp_at_def)
  show "find_rsdp hw = Some (rsdp_reference hw)"
    using l scan_rsdp_find [OF r1] scan_rsdp_find [OF r2]
    by (simp add: find_rsdp_def rsdp_reference_def Let_def at find_append mult.commute split: option.split)
  show "p + 36 \<le> 0x100400" if "rsdp_reference hw = Some p"
  proof -
    have "p \<in> set (rsdp_places (16 * ?seg) 1024 @ rsdp_places 0xE0000 0x20000)"
      using that by (auto simp: rsdp_reference_def find_Some_iff set_conv_nth)
    then have "p + 36 \<le> 16 * ?seg + 1024 \<or> p + 36 \<le> 0xE0000 + 0x20000"
      unfolding set_append Un_iff using rsdp_places_fit by blast
    with seg show ?thesis by linarith
  qed
qed

lemma root_table_eq:
  assumes "readable hw 0 (MAPPED + 72)" and "p + 36 \<le> 0x100400"
  shows "root_table hw p = Some (let x = (2 \<le> le_value hw 1 (p + 15) \<and> le_value hw 8 (p + 24) \<noteq> 0);
      a = (if x then le_value hw 8 (p + 24) else le_value hw 4 (p + 16)) in (x, if a < MAPPED then a else 0))"
proof -
  have "ld hw 1 (p + 15) = Some (le_value hw 1 (p + 15))" "ld hw 8 (p + 24) = Some (le_value hw 8 (p + 24))"
    "ld hw 4 (p + 16) = Some (le_value hw 4 (p + 16))"
    by (rule ld_readable, rule readable_sub [OF assms(1)], use assms(2) in simp_all)+
  then show ?thesis by (simp add: root_table_def Let_def)
qed

lemma root_signature_eq:
  assumes "readable hw 0 (MAPPED + 72)" and "a < MAPPED"
  shows "root_signature hw a = Some (has_sig hw a ''RSDT'' \<or> has_sig hw a ''XSDT'')"
proof -
  have "readable hw a (length ''RSDT'')" "readable hw a (length ''XSDT'')"
    by (rule readable_sub [OF assms(1)], use assms(2) in simp_all)+
  note sig_match_readable [OF this(1)] sig_match_readable [OF this(2)]
  then show ?thesis by (simp add: root_signature_def del: sig_match.simps)
qed

lemma acpi_root_eq:
  assumes "readable hw 0 (MAPPED + 72)"
  shows "acpi_root hw = root_reference hw"
proof (cases "rsdp_reference hw")
  case None
  then show ?thesis by (simp add: acpi_root_def root_reference_def find_rsdp_eq(1) [OF assms])
next
  case (Some p)
  note t = root_table_eq [OF assms find_rsdp_eq(2) [OF assms Some]]
  show ?thesis
    using root_signature_eq [OF assms]
    by (simp add: acpi_root_def root_reference_def find_rsdp_eq(1) [OF assms] Some t Let_def)
qed

definition acpi_frame :: "'a acpi_scheme \<Rightarrow> 'a acpi_scheme \<Rightarrow> bool" where
  "acpi_frame s s' \<longleftrightarrow> talks s s' \<and> console.more s' = console.more (s\<lparr>fadt_data := fadt_data s',
     fadt_table := fadt_table s', acpi_tables := acpi_tables s', acpi_table_count := acpi_table_count s'\<rparr>)"

lemma says_frame: "says s t \<Longrightarrow> acpi_frame s t"
  using acpi_fields [of t s] by (simp add: acpi_frame_def says_def)

lemma acpi_frame_trans:
  fixes s t u :: "'a acpi_scheme"
  assumes "acpi_frame s t" and "acpi_frame t u"
  shows "acpi_frame s u"
proof -
  have "console.more u = console.more (s\<lparr>fadt_data := fadt_data u,
     fadt_table := fadt_table u, acpi_tables := acpi_tables u, acpi_table_count := acpi_table_count u\<rparr>)"
    using assms unfolding acpi_frame_def by (cases s; cases t; cases u) simp
  then show ?thesis using assms talks_trans unfolding acpi_frame_def by blast
qed

lemma acpi_frame_upd:
  fixes s t :: "'a acpi_scheme"
  assumes "con_keep s0 = con_keep s" and "con_term s0 = con_term s"
    and "console.more s0 = console.more (s\<lparr>fadt_data := d, fadt_table := b, acpi_tables := ts, acpi_table_count := n\<rparr>)"
    and "says s0 t"
  shows "acpi_frame s t"
proof -
  have "talks s t" using talks_cong [OF assms(1,2)] saysD(2) [OF assms(4)] by simp
  moreover have "console.more t = console.more (s\<lparr>fadt_data := fadt_data t,
     fadt_table := fadt_table t, acpi_tables := acpi_tables t, acpi_table_count := acpi_table_count t\<rparr>)"
    using assms(3) saysD(3) [OF assms(4)] by (cases s; cases s0; cases t) simp
  ultimately show ?thesis by (simp add: acpi_frame_def)
qed

lemma acpi_defaults_wp:
  fixes s :: "'a acpi_scheme"
  assumes "con_inv s" and "uart_ready hw"
  shows "wp (acpi_defaults hw s) (\<lambda>s'. acpi_frame s s' \<and> acpi_tables s' = acpi_tables s \<and>
    acpi_table_count s' = acpi_table_count s \<and>
    acpi_get_fadt s' = Some \<lparr>pm1a_cnt_blk = 0x604, pm1b_cnt_blk = 0xB004, slp_typa = 0, slp_typb = 0\<rparr>)"
proof -
  let ?d = "\<lparr>pm1a_cnt_blk = 0x604, pm1b_cnt_blk = 0xB004, slp_typa = 0, slp_typb = 0\<rparr>"
  let ?s = "s\<lparr>fadt_data := ?d, fadt_table := True\<rparr>"
  have i: "con_inv ?s" using assms(1) by simp
  show ?thesis
    unfolding acpi_defaults_def
  proof (rule wp_mono [OF says_simps(1) [OF assms(2) i terminated_lit]])
    fix t :: "'a acpi_scheme" assume t: "says ?s t"
    have "acpi_frame s t"
      by (rule acpi_frame_upd [OF _ _ _ t, where ts = "acpi_tables s" and n = "acpi_table_count s"]) simp_all
    then show "acpi_frame s t \<and> acpi_tables t = acpi_tables s \<and>
        acpi_table_count t = acpi_table_count s \<and> acpi_get_fadt t = Some ?d"
      using acpi_fields [OF saysD(3) [OF t]] by (simp add: acpi_get_fadt_def)
  qed
qed

lemma add_tables_frame:
  fixes u :: "'a acpi_scheme"
  shows "console.more (add_tables hw es u) = console.more (u\<lparr>fadt_data := fadt_data (add_tables hw es u),
        fadt_table := fadt_table (add_tables hw es u), acpi_tables := acpi_tables (add_tables hw es u),
        acpi_table_count := acpi_table_count (add_tables hw es u)\<rparr>) \<and>
      con_keep (add_tables hw es u) = con_keep u \<and> con_term (add_tables hw es u) = con_term u"
proof (induction es arbitrary: u)
  case (Cons e es)
  have "add_tables hw (e # es) u = add_tables hw es (add_table hw e u)" by (simp add: add_tables_def)
  moreover have "console.more ((add_table hw e u)\<lparr>fadt_data := d, fadt_table := b, acpi_tables := ts, acpi_table_count := k\<rparr>)
      = console.more (u\<lparr>fadt_data := d, fadt_table := b, acpi_tables := ts, acpi_table_count := k\<rparr>)" for d b ts k
    by (cases u) (simp add: add_table_def Let_def)
  ultimately show ?case using Cons.IH [of "add_table hw e u"] by simp
qed (simp add: add_tables_def)

lemma parse_tables_wp:
  fixes s :: "'a acpi_scheme"
  assumes "con_inv s" and "uart_ready hw" and "length (acpi_tables s) = 16"
    and "readable hw 0 (MAPPED + 72)" and "36 \<le> le_value hw 4 (sdt + 4)"
    and "sdt + le_value hw 4 (sdt + 4) \<le> MAPPED"
  shows "wp (parse_tables hw x sdt s) (\<lambda>s'. acpi_frame s s' \<and> length (acpi_tables s') = 16 \<and>
    (let ts = take 16 (filter usable (root_entries hw x sdt)) in
      known_tables s' = ts \<and> acpi_table_count s' = length ts \<and>
      acpi_get_fadt s' = last_fadt hw ts (acpi_get_fadt s)))"
proof -
  let ?ts = "take 16 (filter usable (root_entries hw x sdt))"
  let ?len = "le_value hw 4 (sdt + 4)" and ?e = "entry_size x"
  let ?n = "(?len - 36) div ?e" and ?s = "s\<lparr>acpi_table_count := 0\<rparr>"
  have l: "ld hw 4 (sdt + 4) = Some ?len"
    by (rule ld_readable, rule readable_sub [OF assms(4)]) (use assms(5,6) in simp_all)
  then have n: "entry_count x ?len = ?n" using ld_bound [of hw 4 "sdt + 4" ?len] assms(5) by (intro entry_count_eq) simp_all
  have r: "readable hw (sdt + 36 + i * ?e) ?e" if "i < ?n" for i
  proof (rule readable_sub [OF assms(4)])
    have "(i + 1) * ?e \<le> ?n * ?e" using that by (intro mult_le_mono1) simp
    also have "\<dots> \<le> ?len - 36" by simp
    finally have "(i + 1) * ?e \<le> ?len - 36" .
    then show "sdt + 36 + i * ?e + ?e \<le> 0 + (MAPPED + 72)" using assms(5,6) by simp
  qed simp
  have i: "con_inv ?s" "length (acpi_tables ?s) = 16" using assms(1,3) by simp_all
  note loop = parse_loop_wp [OF i(1) assms(2) i(2) assms(4) r]
  let ?t = "add_tables hw (root_entries hw x sdt) ?s"
  have res: "acpi_table_count ?t = length ?ts"
    "known_tables ?t = ?ts"
    "acpi_get_fadt ?t = last_fadt hw ?ts (acpi_get_fadt s)"
    using add_tables_result [OF i(2), of hw "root_entries hw x sdt"] by (simp_all add: acpi_get_fadt_def)
  have frame: "console.more ?t = console.more (s\<lparr>fadt_data := fadt_data ?t, fadt_table := fadt_table ?t,
      acpi_tables := acpi_tables ?t, acpi_table_count := acpi_table_count ?t\<rparr>)"
    and keep: "con_keep ?t = con_keep s" "con_term ?t = con_term s"
    using add_tables_frame [of hw "root_entries hw x sdt" ?s] by simp_all
  show ?thesis
    unfolding parse_tables_def Let_def l Option.bind.bind_lunit n
  proof (rule wp_seq [OF loop], assumption)
    fix u :: "'a acpi_scheme"
    assume "says (add_tables hw (map (entry hw x sdt) [0..<?n]) ?s) u"
    then have u: "says ?t u" by (simp add: root_entries_def)
    show "wp (console_write hw (c_lit ''ACPI tables parsed\<newline>'') u) (\<lambda>s'. acpi_frame s s' \<and>
      length (acpi_tables s') = 16 \<and> known_tables s' = ?ts \<and>
      acpi_table_count s' = length ?ts \<and>
      acpi_get_fadt s' = last_fadt hw ?ts (acpi_get_fadt s))"
    proof (rule wp_mono [OF says_simps(1) [OF assms(2) saysD(1) [OF u] terminated_lit]])
      fix v :: "'a acpi_scheme" assume "says u v"
      then have v: "says ?t v" using u says_trans by blast
      note f = acpi_fields [OF saysD(3) [OF v]]
      have "acpi_frame s v" by (rule acpi_frame_upd [OF keep frame v])
      moreover have "length (acpi_tables v) = 16"
        unfolding f(3) add_tables_length using assms(3) by simp
      ultimately show "acpi_frame s v \<and>
        length (acpi_tables v) = 16 \<and> known_tables v = ?ts \<and>
        acpi_table_count v = length ?ts \<and>
        acpi_get_fadt v = last_fadt hw ?ts (acpi_get_fadt s)"
        using f res by (simp only: known_tables_def acpi_get_fadt_def simp_thms)
    qed
  qed
qed

text \<open>What \<open>acpi_init\<close> leaves: the tables of the root table, or the defaults.\<close>

definition acpi_ready :: "hardware \<Rightarrow> 'a acpi_scheme \<Rightarrow> 'a acpi_scheme \<Rightarrow> bool" where
  "acpi_ready hw s s' \<longleftrightarrow> length (acpi_tables s') = length (acpi_tables s) \<and> (case acpi_root hw of
     None \<Rightarrow> known_tables s' = known_tables s \<and> acpi_table_count s' = acpi_table_count s \<and>
       acpi_get_fadt s' = Some \<lparr>pm1a_cnt_blk = 0x604, pm1b_cnt_blk = 0xB004, slp_typa = 0, slp_typb = 0\<rparr>
   | Some (x, sdt) \<Rightarrow> let ts = take 16 (filter usable (root_entries hw x sdt)) in
       known_tables s' = ts \<and> acpi_table_count s' = length ts \<and>
       acpi_get_fadt s' = last_fadt hw ts (acpi_get_fadt s))"

lemma says_acpi:
  assumes "says s t"
  shows "known_tables t = known_tables s" "acpi_get_fadt t = acpi_get_fadt s" "acpi_tables t = acpi_tables s"
    "acpi_table_count t = acpi_table_count s"
  using acpi_fields [OF saysD(3) [OF assms]] by (simp_all add: known_tables_def acpi_get_fadt_def)

lemma defaults_ready:
  fixes s t :: "'a acpi_scheme"
  assumes "says s t" and "uart_ready hw" and "acpi_root hw = None"
  shows "wp (acpi_defaults hw t) (\<lambda>s'. acpi_frame s s' \<and> acpi_ready hw s s')"
  by (rule wp_mono [OF acpi_defaults_wp [OF saysD(1) [OF assms(1)] assms(2)]])
    (use says_acpi [OF assms(1)] in \<open>auto simp: acpi_ready_def assms(3) known_tables_def
      intro: acpi_frame_trans says_frame [OF assms(1)]\<close>)

lemma parse_ready:
  fixes s t :: "'a acpi_scheme"
  assumes "says s t" and "uart_ready hw" and "acpi_root hw = Some (x, sdt)" and "firmware_ok hw"
    and "length (acpi_tables s) = 16"
  shows "wp (parse_tables hw x sdt t) (\<lambda>s'. acpi_frame s s' \<and> acpi_ready hw s s')"
proof -
  have f: "readable hw 0 (MAPPED + 72)" "36 \<le> le_value hw 4 (sdt + 4)" "sdt + le_value hw 4 (sdt + 4) \<le> MAPPED"
    using assms(3,4) by (simp_all add: firmware_ok_def)
  have "length (acpi_tables t) = 16" using says_acpi(3) [OF assms(1)] assms(5) by simp
  from parse_tables_wp [OF saysD(1) [OF assms(1)] assms(2) this f(1-3), of x] show ?thesis
    by (rule wp_mono) (use says_acpi [OF assms(1)] assms(5) in \<open>auto simp: acpi_ready_def assms(3) Let_def
      intro: acpi_frame_trans says_frame [OF assms(1)]\<close>)
qed

text \<open>A message with an address, followed by \<open>f\<close>.\<close>

lemma message_wp:
  assumes "uart_ready hw" and "says s v" and "\<And>u. says s u \<Longrightarrow> wp (f u) Q"
  shows "wp (do { s \<leftarrow> console_write hw (c_lit a) v; s \<leftarrow> console_write_hex32 hw n s;
    s \<leftarrow> console_putc hw c s; f s }) Q"
proof (rule wp_seq [OF says_simps(1) [OF assms(1) saysD(1) [OF assms(2)] terminated_lit]])
  fix t assume t: "says v t"
  show "wp (do { s \<leftarrow> console_write_hex32 hw n t; s \<leftarrow> console_putc hw c s; f s }) Q"
  proof (rule wp_seq [OF says_simps(4) [OF assms(1) saysD(1) [OF t]]])
    fix u assume u: "says t u"
    show "wp (do { s \<leftarrow> console_putc hw c u; f s }) Q"
      by (rule wp_seq [OF says_simps(2) [OF assms(1) saysD(1) [OF u]]])
        (rule assms(3), rule says_trans [OF says_trans [OF says_trans [OF assms(2) t] u]])
  qed
qed

lemma acpi_init_wp:
  fixes s :: "'a acpi_scheme"
  assumes "con_inv s" and "uart_ready hw" and "firmware_ok hw" and "length (acpi_tables s) = 16"
  shows "wp (acpi_init hw s) (\<lambda>s'. acpi_frame s s' \<and> acpi_ready hw s s')"
proof -
  have rd: "readable hw 0 (MAPPED + 72)" using assms(3) by (simp add: firmware_ok_def)
  note out = says_simps [OF assms(2)]
  obtain r where r: "find_rsdp hw = Some r" using find_rsdp_eq(1) [OF rd] by blast
  show ?thesis
    unfolding acpi_init_def r Option.bind.bind_lunit
  proof (rule wp_seq [OF out(1) [OF assms(1) terminated_lit]])
    fix t :: "'a acpi_scheme"
    assume t: "says s t"
    show "wp (case r of None \<Rightarrow> acpi_defaults hw t
     | Some p \<Rightarrow> do {
         s \<leftarrow> console_write hw (c_lit ''RSDP found at 0x'') t;
         s \<leftarrow> console_write_hex32 hw (of_nat p) s;
         s \<leftarrow> console_putc hw NEWLINE s;
         (use_xsdt, sdt) \<leftarrow> root_table hw p;
         if sdt = 0 then acpi_defaults hw s else do {
           s \<leftarrow> console_write hw (c_lit (if use_xsdt then ''XSDT at 0x'' else ''RSDT at 0x'')) s;
           s \<leftarrow> console_write_hex32 hw (of_nat sdt) s;
           s \<leftarrow> console_putc hw NEWLINE s;
           ok \<leftarrow> root_signature hw sdt;
           if ok then parse_tables hw use_xsdt sdt s else acpi_defaults hw s } })
      (\<lambda>s'. acpi_frame s s' \<and> acpi_ready hw s s')"
    proof (cases r)
      case None
      then have "acpi_root hw = None" by (simp add: acpi_root_def r)
      with None defaults_ready [OF t assms(2)] show ?thesis by simp
    next
      case (Some p)
      have "p + 36 \<le> 0x100400" using find_rsdp_eq [OF rd] r Some by simp
      from root_table_eq [OF rd this] obtain x sdt where x: "root_table hw p = Some (x, sdt)" "sdt < MAPPED"
        by (auto simp: Let_def)
      obtain ok where ok: "root_signature hw sdt = Some ok" using root_signature_eq [OF rd x(2)] by blast
      have root: "acpi_root hw = (if sdt \<noteq> 0 \<and> ok then Some (x, sdt) else None)"
        by (simp add: acpi_root_def r Some x(1) ok)
      have last: "wp (if ok then parse_tables hw x sdt u else acpi_defaults hw u)
          (\<lambda>s'. acpi_frame s s' \<and> acpi_ready hw s s')" if "says s u" "sdt \<noteq> 0" for u
        using that parse_ready [OF that(1) assms(2) _ assms(3,4)] defaults_ready [OF that(1) assms(2)] root by simp
      show ?thesis
        unfolding Some option.case x(1) Option.bind.bind_lunit prod.case ok
        by (intro message_wp [OF assms(2) t]) (auto intro!: message_wp [OF assms(2)] defaults_ready assms(2) last
            simp del: wp_bind simp: root)
    qed
  qed
qed

section \<open>Looking a table up\<close>

lemma find_table_eq:
  assumes "\<forall>i \<in> set is. i < length ts \<and> readable hw (ts ! i) (length sig)"
  shows "find_table hw sig ts is = Some (find (\<lambda>h. has_sig hw h sig) (map (\<lambda>i. ts ! i) is))"
  using assms by (induction "is") (simp_all add: sig_match_readable)

lemma acpi_get_table_eq:
  assumes "acpi_table_count s \<le> length (acpi_tables s)"
    and "\<forall>a \<in> set (known_tables s). readable hw a (length sig)"
  shows "acpi_get_table hw sig s = Some (find (\<lambda>h. has_sig hw h sig) (known_tables s))"
proof -
  have k: "map (\<lambda>i. acpi_tables s ! i) [0..<acpi_table_count s] = known_tables s"
    using assms(1) by (auto simp: known_tables_def intro!: nth_equalityI)
  have "\<forall>i \<in> set [0..<acpi_table_count s]. i < length (acpi_tables s) \<and> readable hw (acpi_tables s ! i) (length sig)"
    using assms by (auto simp: k [symmetric])
  from find_table_eq [OF this] show ?thesis by (simp add: acpi_get_table_def k)
qed

section \<open>Properties\<close>

definition acpi_statics :: "inventory \<Rightarrow> acpi" where
  "acpi_statics i = inventory.extend i (acpi.fields
     \<lparr>pm1a_cnt_blk = 0, pm1b_cnt_blk = 0, slp_typa = 0, slp_typb = 0\<rparr> False (replicate 16 0) 0)"

text \<open>A machine with an RSDP at the start of its EBDA, an RSDT with two entries, one of them null,
  and a FADT with its control registers at ports \<open>0x404\<close> and 0.\<close>

definition acpi_image :: "(nat \<times> u8) list" where
  "acpi_image =
     [(0x40E, 0xC0), (0x40F, 0x9F), (0x9FC00, 0x52), (0x9FC01, 0x53), (0x9FC02, 0x44), (0x9FC03, 0x20),
      (0x9FC04, 0x50), (0x9FC05, 0x54), (0x9FC06, 0x52), (0x9FC07, 0x20), (0x9FC12, 0x10), (0x100000, 0x52),
      (0x100001, 0x53), (0x100002, 0x44), (0x100003, 0x54), (0x100004, 0x2C), (0x100029, 0x01), (0x10002A, 0x10),
      (0x100100, 0x46), (0x100101, 0x41), (0x100102, 0x43), (0x100103, 0x50), (0x100140, 0x04), (0x100141, 0x04)]"

definition acpi_machine :: hardware where
  "acpi_machine = quiet_machine\<lparr>mem8 := \<lambda>a. Some (case map_of acpi_image a of None \<Rightarrow> 0 | Some b \<Rightarrow> b)\<rparr>"

lemma acpi_machine_ready [simp]: "uart_ready acpi_machine"
  using quiet_machine_ready
  by (simp add: acpi_machine_def uart_ready_def ready_after_def quiet_machine_def)

lemma acpi_machine_readable: "readable acpi_machine a n"
  by (simp add: readable_def acpi_machine_def)

lemma ld_numeral: "ld hw (numeral k) a = do { b \<leftarrow> mem8 hw a; r \<leftarrow> ld hw (pred_numeral k) (a + 1); Some (unat b + 256 * r) }"
  by (simp add: numeral_eq_Suc)

lemma acpi_machine_mem: "mem8 acpi_machine a = Some (case map_of acpi_image a of None \<Rightarrow> 0 | Some b \<Rightarrow> b)"
  by (simp add: acpi_machine_def)

lemma acpi_machine_rsdp: "find_rsdp acpi_machine = Some (Some 0x9FC00)"
proof -
  have "scan_rsdp acpi_machine 0x9FC00 0xA0000 = Some (Some 0x9FC00)"
    by (subst scan_rsdp.simps) (simp add: acpi_machine_mem acpi_image_def byte_of_def)
  moreover have "ld acpi_machine 2 0x40e = Some 0x9FC0"
    by (simp add: ld_numeral acpi_machine_mem acpi_image_def)
  ultimately show ?thesis by (simp add: find_rsdp_def del: ld.simps)
qed

lemma acpi_machine_root: "acpi_root acpi_machine = Some (False, 0x100000)"
proof -
  note acpi_machine_rsdp
  moreover have "root_table acpi_machine 0x9FC00 = Some (False, 0x100000)"
    by (simp add: root_table_def ld_numeral acpi_machine_mem acpi_image_def)
  moreover have "root_signature acpi_machine 0x100000 = Some True"
    by (simp add: root_signature_def acpi_machine_mem acpi_image_def byte_of_def)
  ultimately show ?thesis by (simp add: acpi_root_def)
qed

lemma acpi_machine_firmware: "firmware_ok acpi_machine"
  by (simp add: firmware_ok_def acpi_machine_readable acpi_machine_root le_value_def ld_numeral
      acpi_machine_mem acpi_image_def)

lemma acpi_machine_entries: "root_entries acpi_machine False 0x100000 = [0, 0x100100]"
  by (simp add: root_entries_def entry_def entry_size_def le_value_def ld_numeral acpi_machine_mem acpi_image_def)

lemma acpi_machine_fadt: "has_sig acpi_machine 0x100100 ''FACP''"
    "fadt_of acpi_machine 0x100100 = \<lparr>pm1a_cnt_blk = 0x404, pm1b_cnt_blk = 0, slp_typa = 0, slp_typb = 0\<rparr>"
  by (simp_all add: has_sig_def bytes_def fadt_of_def le_value_def ld_numeral acpi_machine_mem acpi_image_def
      byte_of_def)

definition booting_acpi :: acpi where
  "booting_acpi = acpi_statics (inventory_statics one_pane)"

lemma booting_acpi_inv [simp]: "con_inv booting_acpi" "length (acpi_tables booting_acpi) = 16"
  using pane_invD(4) [OF one_pane_inv] length_concat_grid [of 25 80 "screen_buffer one_pane"]
  by (simp_all add: booting_acpi_def acpi_statics_def acpi.defs inventory_statics_def inventory.defs pane.defs
      shell.defs console.defs con_inv_def con_shape_def mirrored_def)



text \<open>C15. ACPI initialisation on firmware whose root table states a consistent length, with the
  first two gigabytes mapped: it returns, records exactly the first sixteen entries of the
  RSDT or XSDT (the one that the reference search finds) that are not null and lie in the mapped region, takes the power-management
  ports from the last FADT among them (and none when no entry is a FADT, so that the pointer
  keeps its old value), falls back to the QEMU defaults when there is no root table, and
  changes nothing else but the text on the console.\<close>

theorem acpi_init_records:
  assumes "con_inv s" and "uart_ready hw" and "firmware_ok hw" and "length (acpi_tables s) = 16"
  shows "wp (acpi_init hw s) (\<lambda>s'. acpi_frame s s' \<and> (case root_reference hw of
     None \<Rightarrow> known_tables s' = known_tables s \<and>
       acpi_get_fadt s' = Some \<lparr>pm1a_cnt_blk = 0x604, pm1b_cnt_blk = 0xB004, slp_typa = 0, slp_typb = 0\<rparr>
   | Some (x, sdt) \<Rightarrow> known_tables s' = take 16 (filter usable (root_entries hw x sdt)) \<and>
       acpi_get_fadt s' = last_fadt hw (take 16 (filter usable (root_entries hw x sdt))) (acpi_get_fadt s)))"
proof -
  have "acpi_root hw = root_reference hw" using assms(3) by (intro acpi_root_eq) (simp add: firmware_ok_def)
  then show ?thesis
    by (intro wp_mono [OF acpi_init_wp [OF assms]]) (auto simp: acpi_ready_def Let_def split: option.splits)
qed

theorem acpi_init_records_witness:
  "wp (acpi_init acpi_machine booting_acpi) (\<lambda>s'. known_tables s' = [0x100100] \<and>
    acpi_get_fadt s' = Some \<lparr>pm1a_cnt_blk = 0x404, pm1b_cnt_blk = 0, slp_typa = 0, slp_typb = 0\<rparr>)"
  by (rule wp_mono [OF acpi_init_records [OF booting_acpi_inv(1) acpi_machine_ready acpi_machine_firmware booting_acpi_inv(2)]])
    (simp add: acpi_root_eq [OF acpi_machine_readable, symmetric] acpi_machine_root acpi_machine_entries usable_def last_fadt_def acpi_machine_fadt)

text \<open>The table lookup returns the first recorded table with the signature, or null when
  there is none.\<close>

theorem acpi_get_table_finds:
  assumes "acpi_table_count s \<le> length (acpi_tables s)"
    and "\<forall>a \<in> set (known_tables s). readable hw a (length sig)"
  shows "acpi_get_table hw sig s = Some (find (\<lambda>h. has_sig hw h sig) (known_tables s))"
  by (rule acpi_get_table_eq [OF assms])

theorem acpi_get_table_finds_witness:
  "acpi_get_table acpi_machine ''FACP'' (booting_acpi\<lparr>acpi_tables := 0x100100 # replicate 15 0, acpi_table_count := 1\<rparr>)
    = Some (Some 0x100100)"
  using acpi_get_table_finds [of "booting_acpi\<lparr>acpi_tables := 0x100100 # replicate 15 0, acpi_table_count := 1\<rparr>"
      acpi_machine "''FACP''"] acpi_machine_readable acpi_machine_fadt
  by (simp add: known_tables_def)

end
