(* ===== verification/Framebuffer.thy ===== *)
theory Framebuffer
  imports Acpi Font
begin

text \<open>
  \<open>src/gui/framebuffer.c\<close>: drawing into a linear framebuffer of 32-bit pixels at a fixed physical
  address. A store outside mapped memory has no result. The lemmas read the framebuffer as a
  picture, and show that every operation colours exactly the on-screen part of the points it is
  meant to colour.
\<close>

section \<open>State\<close>

text \<open>\<open>fb\<close> is the address of the first pixel, \<open>vram\<close> the 32-bit words of memory by their address.\<close>

record framebuffer = acpi +
  fb :: nat
  fb_width :: u32
  fb_height :: u32
  fb_pitch :: u32
  vram :: "nat \<Rightarrow> u32"

abbreviation FRAMEBUFFER_ADDR :: nat where "FRAMEBUFFER_ADDR \<equiv> 0xE0000000"
abbreviation FRAMEBUFFER_WIDTH :: u32 where "FRAMEBUFFER_WIDTH \<equiv> 1024"
abbreviation FRAMEBUFFER_HEIGHT :: u32 where "FRAMEBUFFER_HEIGHT \<equiv> 768"
abbreviation FRAMEBUFFER_PITCH :: u32 where "FRAMEBUFFER_PITCH \<equiv> FRAMEBUFFER_WIDTH * 4"

text \<open>Addition of \<open>int\<close>s, which has no result on overflow.\<close>

definition fits :: "int \<Rightarrow> bool" where
  "fits v \<longleftrightarrow> - 2147483648 \<le> v \<and> v < 2147483648"

definition add_int :: "int \<Rightarrow> int \<Rightarrow> int option" where
  "add_int a b = (if fits (a + b) then Some (a + b) else None)"

section \<open>Operations\<close>

definition fb_init :: "'a framebuffer_scheme \<Rightarrow> 'a framebuffer_scheme" where
  "fb_init s = s\<lparr>fb := FRAMEBUFFER_ADDR, fb_width := FRAMEBUFFER_WIDTH,
     fb_height := FRAMEBUFFER_HEIGHT, fb_pitch := FRAMEBUFFER_PITCH\<rparr>"

definition fb_get_width :: "'a framebuffer_scheme \<Rightarrow> u32" where
  "fb_get_width s = fb_width s"

definition fb_get_height :: "'a framebuffer_scheme \<Rightarrow> u32" where
  "fb_get_height s = fb_height s"

text \<open>The store \<open>fb[i] = color\<close>.\<close>

definition put_pixel :: "hardware \<Rightarrow> u32 \<Rightarrow> u32 \<Rightarrow> 'a framebuffer_scheme \<Rightarrow> 'a framebuffer_scheme option" where
  "put_pixel hw i color s =
     (let a = fb s + 4 * unat i in
      if list_all (\<lambda>k. mem8 hw (a + k) \<noteq> None) [0..<4] then Some (s\<lparr>vram := (vram s)(a := color)\<rparr>) else None)"

definition fb_clear :: "hardware \<Rightarrow> u32 \<Rightarrow> 'a framebuffer_scheme \<Rightarrow> 'a framebuffer_scheme option" where
  "fb_clear hw color s =
     for_each [0..<unat (fb_height s)] (\<lambda>y s.
       for_each [0..<unat (fb_width s)] (\<lambda>x s.
         put_pixel hw (of_nat y * (fb_pitch s div 4) + of_nat x) color s) s) s"

definition fb_draw_pixel ::
    "hardware \<Rightarrow> int \<Rightarrow> int \<Rightarrow> u32 \<Rightarrow> 'a framebuffer_scheme \<Rightarrow> 'a framebuffer_scheme option" where
  "fb_draw_pixel hw x y color s =
     (if x < 0 \<or> y < 0 \<or> x \<ge> sint (fb_width s) \<or> y \<ge> sint (fb_height s) then Some s
      else put_pixel hw (of_int y * (fb_pitch s div 4) + of_int x) color s)"

definition fb_draw_rect ::
    "hardware \<Rightarrow> int \<Rightarrow> int \<Rightarrow> int \<Rightarrow> int \<Rightarrow> u32 \<Rightarrow> 'a framebuffer_scheme \<Rightarrow> 'a framebuffer_scheme option" where
  "fb_draw_rect hw x y w h color s =
     for_each [0..<nat h] (\<lambda>j s.
       for_each [0..<nat w] (\<lambda>i s. do {
         x' \<leftarrow> add_int x (int i); y' \<leftarrow> add_int y (int j); fb_draw_pixel hw x' y' color s }) s) s"

definition fb_draw_char ::
    "hardware \<Rightarrow> char \<Rightarrow> int \<Rightarrow> int \<Rightarrow> u32 \<Rightarrow> 'a framebuffer_scheme \<Rightarrow> 'a framebuffer_scheme option" where
  "fb_draw_char hw c x y color s = do {
     glyph \<leftarrow> rd font8x8_basic (of_char c);
     for_each [0..<8] (\<lambda>row s. do {
       bits \<leftarrow> rd glyph row;
       for_each [0..<8] (\<lambda>col s.
         if (ucast bits :: u32) AND push_bit col 1 \<noteq> 0 then do {
           x' \<leftarrow> add_int x (int col); y' \<leftarrow> add_int y (int row); fb_draw_pixel hw x' y' color s }
         else Some s) s }) s }"

fun fb_draw_text ::
    "hardware \<Rightarrow> char list \<Rightarrow> int \<Rightarrow> int \<Rightarrow> u32 \<Rightarrow> 'a framebuffer_scheme \<Rightarrow> 'a framebuffer_scheme option" where
  "fb_draw_text hw [] x y color s = None"
| "fb_draw_text hw (c # str) x y color s =
     (if c = NUL then Some s
      else do {
        s \<leftarrow> fb_draw_char hw c x y color s;
        x \<leftarrow> add_int x 8;
        fb_draw_text hw str x y color s })"

section \<open>Pictures\<close>

text \<open>The points of the screen, and the address of a point.\<close>

definition on_screen :: "int \<Rightarrow> int \<Rightarrow> bool" where
  "on_screen x y \<longleftrightarrow> 0 \<le> x \<and> x < 1024 \<and> 0 \<le> y \<and> y < 768"

definition address :: "int \<Rightarrow> int \<Rightarrow> nat" where
  "address x y = FRAMEBUFFER_ADDR + 4 * nat (y * 1024 + x)"

definition fb_mapped :: "hardware \<Rightarrow> bool" where
  "fb_mapped hw \<longleftrightarrow> (\<forall>k < 4 * 1024 * 768. mem8 hw (FRAMEBUFFER_ADDR + k) \<noteq> None)"

definition fb_inv :: "'a framebuffer_scheme \<Rightarrow> bool" where
  "fb_inv s \<longleftrightarrow> fb s = FRAMEBUFFER_ADDR \<and> fb_width s = 1024 \<and> fb_height s = 768 \<and> fb_pitch s = 4096"

type_synonym picture = "int \<Rightarrow> int \<Rightarrow> u32 option"

definition picture :: "'a framebuffer_scheme \<Rightarrow> picture" where
  "picture s x y = (if on_screen x y then Some (vram s (address x y)) else None)"

text \<open>Colouring a set of points; points off the screen stay off it.\<close>

definition colour :: "(int \<Rightarrow> int \<Rightarrow> bool) \<Rightarrow> u32 \<Rightarrow> picture \<Rightarrow> picture" where
  "colour P c p x y = (if P x y then map_option (\<lambda>_. c) (p x y) else p x y)"

text \<open>What a drawing operation does: it colours a set of points and touches nothing else.\<close>

definition coloured :: "(int \<Rightarrow> int \<Rightarrow> bool) \<Rightarrow> u32 \<Rightarrow> 'a framebuffer_scheme \<Rightarrow> 'a framebuffer_scheme \<Rightarrow> bool" where
  "coloured P c s t \<longleftrightarrow> t = s\<lparr>vram := vram t\<rparr> \<and> picture t = colour P c (picture s) \<and>
     (\<forall>a. (\<forall>x y. on_screen x y \<longrightarrow> a \<noteq> address x y) \<longrightarrow> vram t a = vram s a)"

lemma colour_none [simp]: "colour (\<lambda>x y. False) c p = p"
  by (simp add: colour_def fun_eq_iff)

lemma colour_colour: "colour Q c (colour P c p) = colour (\<lambda>x y. P x y \<or> Q x y) c p"
  by (simp add: colour_def fun_eq_iff option.map_comp comp_def)

lemma address_inj:
  assumes "on_screen x y" and "on_screen u v" and "address x y = address u v"
  shows "x = u \<and> y = v"
proof -
  have "nat (y * 1024 + x) = nat (v * 1024 + u)" using assms(3) by (simp add: address_def)
  moreover have "0 \<le> y * 1024 + x" "0 \<le> v * 1024 + u" using assms(1,2) by (simp_all add: on_screen_def)
  ultimately have e: "y * 1024 + x = v * 1024 + u" by simp
  have "\<not> y < v" "\<not> v < y" using e assms(1,2) unfolding on_screen_def by linarith+
  then show ?thesis using e by simp
qed

lemma colouredD:
  assumes "coloured P c s t"
  shows "fb_inv t = fb_inv s" "picture t = colour P c (picture s)" "framebuffer.more t = framebuffer.more s"
proof -
  obtain m where "t = s\<lparr>vram := m\<rparr>" using assms by (auto simp: coloured_def)
  then show "fb_inv t = fb_inv s" "framebuffer.more t = framebuffer.more s" by (simp_all add: fb_inv_def)
  show "picture t = colour P c (picture s)" using assms by (simp add: coloured_def)
qed

lemma coloured_refl: "coloured (\<lambda>x y. False) c s s"
  by (simp add: coloured_def)

lemma coloured_trans:
  assumes "coloured P c s t" and "coloured Q c t u"
  shows "coloured (\<lambda>x y. P x y \<or> Q x y) c s u"
proof -
  obtain m where "t = s\<lparr>vram := m\<rparr>" using assms(1) by (auto simp: coloured_def)
  moreover obtain n where "u = t\<lparr>vram := n\<rparr>" using assms(2) by (auto simp: coloured_def)
  ultimately have "u = s\<lparr>vram := vram u\<rparr>" by simp
  then show ?thesis using assms by (simp add: coloured_def colour_colour)
qed

lemma coloured_cong:
  assumes "coloured P c s t" and "\<And>x y. P x y = Q x y"
  shows "coloured Q c s t"
proof -
  have "P = Q" using assms(2) by (intro ext)
  then show ?thesis using assms(1) by simp
qed

text \<open>The effect of a drawing loop is the union of the effects of its rounds.\<close>

lemma wp_coloured_loop_inv:
  assumes "J s" and "\<And>P t u. J t \<Longrightarrow> coloured P c t u \<Longrightarrow> J u"
    and "\<And>i t. i \<in> set xs \<Longrightarrow> J t \<Longrightarrow> wp (f i t) (coloured (P i) c t)"
  shows "wp (for_each xs f s) (coloured (\<lambda>x y. \<exists>i \<in> set xs. P i x y) c s)"
  using assms(1,3)
proof (induction xs arbitrary: s)
  case Nil
  then show ?case by (simp add: coloured_refl)
next
  case (Cons i xs)
  have "wp (f i s) (coloured (P i) c s)" using Cons.prems by simp
  then have "wp (f i s) (\<lambda>t. wp (for_each xs f t) (coloured (\<lambda>x y. \<exists>i \<in> set (i # xs). P i x y) c s))"
  proof (rule wp_mono)
    fix t assume t: "coloured (P i) c s t"
    have "J t" by (rule assms(2) [OF Cons.prems(1) t])
    then have "wp (for_each xs f t) (coloured (\<lambda>x y. \<exists>i \<in> set xs. P i x y) c t)"
      by (rule Cons.IH) (use Cons.prems(2) in simp)
    then show "wp (for_each xs f t) (coloured (\<lambda>x y. \<exists>i \<in> set (i # xs). P i x y) c s)"
      by (rule wp_mono) (rule coloured_cong [OF coloured_trans [OF t]], auto)
  qed
  then show ?case by simp
qed

lemma wp_coloured_loop:
  assumes "fb_inv s" and "\<And>i t. i \<in> set xs \<Longrightarrow> fb_inv t \<Longrightarrow> wp (f i t) (coloured (P i) c t)"
  shows "wp (for_each xs f s) (coloured (\<lambda>x y. \<exists>i \<in> set xs. P i x y) c s)"
proof (rule wp_coloured_loop_inv [where J = fb_inv])
  show "fb_inv u" if "fb_inv t" "coloured Q c t u" for Q and t u :: "'a framebuffer_scheme"
    using colouredD(1) [OF that(2)] that(1) by simp
qed (use assms in auto)

section \<open>The operations colour\<close>

lemma pixel_index:
  assumes "on_screen x y"
  shows "unat (of_int y * 1024 + of_int x :: u32) = nat (y * 1024 + x)"
proof -
  obtain n where n: "y * 1024 + x = int n" using assms zero_le_imp_eq_int [of "y * 1024 + x"] by (auto simp: on_screen_def)
  then have "int n < 786432" using assms by (simp add: on_screen_def)
  have "(of_int y * 1024 + of_int x :: u32) = of_int (y * 1024 + x)" by simp
  also have "\<dots> = of_nat n" by (simp only: n of_int_of_nat_eq)
  finally show ?thesis using \<open>int n < 786432\<close> by (simp add: unat_of_nat n)
qed

lemma put_pixel_wp:
  assumes "fb_mapped hw" and "fb_inv s" and "on_screen x y"
  shows "wp (put_pixel hw (of_int y * (fb_pitch s div 4) + of_int x) c s) (coloured (\<lambda>u v. u = x \<and> v = y) c s)"
proof -
  have p: "fb_pitch s div 4 = 1024" "fb s = FRAMEBUFFER_ADDR" using assms(2) by (simp_all add: fb_inv_def)
  have "nat (y * 1024 + x) < 1024 * 768" using assms(3) by (auto simp: on_screen_def)
  then have m: "mem8 hw (FRAMEBUFFER_ADDR + (4 * nat (y * 1024 + x) + k)) \<noteq> None" if "k < 4" for k
    using assms(1) that unfolding fb_mapped_def by auto
  have "list_all (\<lambda>k. mem8 hw (address x y + k) \<noteq> None) [0..<4]"
    unfolding list_all_iff address_def add.assoc by (intro ballI m) auto
  moreover have "coloured (\<lambda>u v. u = x \<and> v = y) c s (s\<lparr>vram := (vram s)(address x y := c)\<rparr>)"
    unfolding coloured_def
  proof (intro conjI ext)
    fix u v
    show "picture (s\<lparr>vram := (vram s)(address x y := c)\<rparr>) u v = colour (\<lambda>u v. u = x \<and> v = y) c (picture s) u v"
      using address_inj [OF assms(3), of u v] by (auto simp: picture_def colour_def)
  qed (use assms(3) in auto)
  ultimately show ?thesis by (simp add: put_pixel_def p pixel_index [OF assms(3)] address_def)
qed

lemma draw_pixel_wp:
  assumes "fb_mapped hw" and "fb_inv s"
  shows "wp (fb_draw_pixel hw x y c s) (coloured (\<lambda>u v. u = x \<and> v = y) c s)"
proof (cases "on_screen x y")
  case True
  then show ?thesis using put_pixel_wp [OF assms True] assms(2) by (simp add: fb_draw_pixel_def on_screen_def fb_inv_def)
next
  case False
  then have "coloured (\<lambda>u v. u = x \<and> v = y) c s s"
    by (auto simp: coloured_def colour_def picture_def fun_eq_iff)
  then show ?thesis using False assms(2) by (auto simp: fb_draw_pixel_def on_screen_def fb_inv_def)
qed

lemma clear_wp:
  assumes "fb_mapped hw" and "fb_inv s"
  shows "wp (fb_clear hw c s) (coloured on_screen c s)"
proof -
  have w: "unat (fb_width t) = 1024" "unat (fb_height t) = 768" if "fb_inv t" for t :: "'a framebuffer_scheme"
    using that by (simp_all add: fb_inv_def)
  have "wp (fb_clear hw c s) (coloured (\<lambda>u v. \<exists>y \<in> set [0..<768]. \<exists>x \<in> set [0..<1024]. u = int x \<and> v = int y) c s)"
    unfolding fb_clear_def w(2) [OF assms(2)]
  proof (rule wp_coloured_loop [OF assms(2)])
    fix y t assume y: "y \<in> set [0..<768 :: nat]" and t: "fb_inv (t :: 'a framebuffer_scheme)"
    show "wp (for_each [0..<unat (fb_width t)] (\<lambda>x s. put_pixel hw (of_nat y * (fb_pitch s div 4) + of_nat x) c s) t)
        (coloured (\<lambda>u v. \<exists>x \<in> set [0..<1024]. u = int x \<and> v = int y) c t)"
      unfolding w(1) [OF t]
    proof (rule wp_coloured_loop [OF t])
      fix x u assume x: "x \<in> set [0..<1024 :: nat]" and u: "fb_inv (u :: 'a framebuffer_scheme)"
      have "on_screen (int x) (int y)" using x y by (auto simp: on_screen_def)
      from put_pixel_wp [OF assms(1) u this]
      show "wp (put_pixel hw (of_nat y * (fb_pitch u div 4) + of_nat x) c u) (coloured (\<lambda>u v. u = int x \<and> v = int y) c u)"
        by simp
    qed
  qed
  then show ?thesis
  proof (rule wp_mono [OF _ coloured_cong])
    fix u v
    have "u = int (nat u) \<and> v = int (nat v) \<and> nat u < 1024 \<and> nat v < 768" if "on_screen u v"
      using that by (auto simp: on_screen_def)
    then show "(\<exists>y \<in> set [0..<768]. \<exists>x \<in> set [0..<1024]. u = int x \<and> v = int y) = on_screen u v"
      by (fastforce simp: on_screen_def)
  qed
qed

lemma add_int_fits: "fits (a + b) \<Longrightarrow> add_int a b = Some (a + b)"
  by (simp add: add_int_def)

lemma fits_between: "fits a \<Longrightarrow> fits b \<Longrightarrow> a \<le> v \<Longrightarrow> v \<le> b \<Longrightarrow> fits v"
  by (simp add: fits_def)

text \<open>The points of a rectangle and of a glyph.\<close>

definition rectangle :: "int \<Rightarrow> int \<Rightarrow> int \<Rightarrow> int \<Rightarrow> int \<Rightarrow> int \<Rightarrow> bool" where
  "rectangle x y w h u v \<longleftrightarrow> x \<le> u \<and> u < x + w \<and> y \<le> v \<and> v < y + h"

definition glyph_ink :: "char \<Rightarrow> int \<Rightarrow> int \<Rightarrow> int \<Rightarrow> int \<Rightarrow> bool" where
  "glyph_ink c x y u v \<longleftrightarrow> rectangle x y 8 8 u v \<and> bit (font8x8_basic ! of_char c ! nat (v - y)) (nat (u - x))"

lemma offset_ex: "(\<exists>i < n. u = x + int i) \<longleftrightarrow> x \<le> u \<and> u < x + int n"
proof -
  have "u = x + int (nat (u - x)) \<and> nat (u - x) < n" if "x \<le> u" "u < x + int n"
    using that by auto
  then show ?thesis by auto
qed

lemma draw_rect_wp:
  assumes "fb_mapped hw" and "fb_inv s" and "fits x" and "fits y" and "fits (x + w - 1)" and "fits (y + h - 1)"
  shows "wp (fb_draw_rect hw x y w h c s) (coloured (rectangle x y w h) c s)"
proof -
  have "wp (fb_draw_rect hw x y w h c s)
      (coloured (\<lambda>u v. \<exists>j \<in> set [0..<nat h]. \<exists>i \<in> set [0..<nat w]. u = x + int i \<and> v = y + int j) c s)"
    unfolding fb_draw_rect_def
  proof (intro wp_coloured_loop assms(2))
    fix j i and t :: "'a framebuffer_scheme"
    assume j: "j \<in> set [0..<nat h]" and i: "i \<in> set [0..<nat w]" and t: "fb_inv t"
    have "fits (x + int i)" by (rule fits_between [OF assms(3,5)]) (use i in auto)
    moreover have "fits (y + int j)" by (rule fits_between [OF assms(4,6)]) (use j in auto)
    ultimately show "wp (do { x' \<leftarrow> add_int x (int i); y' \<leftarrow> add_int y (int j); fb_draw_pixel hw x' y' c t })
        (coloured (\<lambda>u v. u = x + int i \<and> v = y + int j) c t)"
      using draw_pixel_wp [OF assms(1) t] by (simp add: add_int_fits)
  qed
  then show ?thesis
  proof (rule wp_mono [OF _ coloured_cong])
    fix u v
    have "(\<exists>j \<in> set [0..<nat h]. \<exists>i \<in> set [0..<nat w]. u = x + int i \<and> v = y + int j) \<longleftrightarrow>
        (\<exists>i < nat w. u = x + int i) \<and> (\<exists>j < nat h. v = y + int j)" by auto
    also have "\<dots> = rectangle x y w h u v" unfolding offset_ex rectangle_def by (cases "0 \<le> w"; cases "0 \<le> h") auto
    finally show "(\<exists>j \<in> set [0..<nat h]. \<exists>i \<in> set [0..<nat w]. u = x + int i \<and> v = y + int j) = rectangle x y w h u v" .
  qed
qed

lemma glyph_bit: "((ucast (b :: u8) :: u32) AND push_bit k 1 \<noteq> 0) = bit b k" if "k < 8"
proof -
  have "((ucast b :: u32) AND push_bit k 1 \<noteq> 0) = bit (ucast b :: u32) k"
    by (simp add: bit_iff_and_push_bit_not_eq_0)
  then show ?thesis using that by (simp add: bit_simps)
qed

lemma draw_char_wp:
  assumes "fb_mapped hw" and "fb_inv s" and "fits x" and "fits y" and "fits (x + 7)" and "fits (y + 7)"
    and "of_char ch < (128 :: nat)"
  shows "wp (fb_draw_char hw ch x y c s) (coloured (glyph_ink ch x y) c s)"
proof -
  let ?g = "font8x8_basic ! of_char ch"
  have g: "rd font8x8_basic (of_char ch) = Some ?g" "\<And>r. r < 8 \<Longrightarrow> rd ?g r = Some (?g ! r)"
    using assms(7) by (simp_all add: font_length glyph_length)
  have "wp (fb_draw_char hw ch x y c s)
      (coloured (\<lambda>u v. \<exists>j \<in> set [0..<8]. \<exists>i \<in> set [0..<8]. bit (?g ! j) i \<and> u = x + int i \<and> v = y + int j) c s)"
    unfolding fb_draw_char_def g(1) bind.bind_lunit
  proof (rule wp_coloured_loop [OF assms(2)])
    fix j and t :: "'a framebuffer_scheme"
    assume j: "j \<in> set [0..<8 :: nat]" and t: "fb_inv t"
    then have j8: "j < 8" by simp
    show "wp (do { bits \<leftarrow> rd ?g j; for_each [0..<8] (\<lambda>col s.
         if (ucast bits :: u32) AND push_bit col 1 \<noteq> 0 then do {
           x' \<leftarrow> add_int x (int col); y' \<leftarrow> add_int y (int j); fb_draw_pixel hw x' y' c s }
         else Some s) t })
       (coloured (\<lambda>u v. \<exists>i \<in> set [0..<8]. bit (?g ! j) i \<and> u = x + int i \<and> v = y + int j) c t)"
      unfolding g(2) [OF j8] bind.bind_lunit
    proof (rule wp_coloured_loop [OF t])
      fix i and r :: "'a framebuffer_scheme"
      assume i: "i \<in> set [0..<8 :: nat]" and r: "fb_inv r"
      have "fits (x + int i)" by (rule fits_between [OF assms(3,5)]) (use i in auto)
      moreover have "fits (y + int j)" by (rule fits_between [OF assms(4,6)]) (use j in auto)
      ultimately show "wp (if (ucast (?g ! j) :: u32) AND push_bit i 1 \<noteq> 0 then do {
           x' \<leftarrow> add_int x (int i); y' \<leftarrow> add_int y (int j); fb_draw_pixel hw x' y' c r }
         else Some r) (coloured (\<lambda>u v. bit (?g ! j) i \<and> u = x + int i \<and> v = y + int j) c r)"
        using draw_pixel_wp [OF assms(1) r] i glyph_bit [of i "?g ! j"] coloured_refl [of c r] by (simp add: add_int_fits)
    qed
  qed
  then show ?thesis
  proof (rule wp_mono [OF _ coloured_cong])
    fix u v
    have "(\<exists>j \<in> set [0..<8]. \<exists>i \<in> set [0..<8]. bit (?g ! j) i \<and> u = x + int i \<and> v = y + int j) \<longleftrightarrow>
        (\<exists>i < 8. u = x + int i) \<and> (\<exists>j < 8. v = y + int j) \<and> bit (?g ! nat (v - y)) (nat (u - x))" by auto
    also have "\<dots> = glyph_ink ch x y u v" unfolding offset_ex glyph_ink_def rectangle_def by auto
    finally show "(\<exists>j \<in> set [0..<8]. \<exists>i \<in> set [0..<8]. bit (?g ! j) i \<and> u = x + int i \<and> v = y + int j) = glyph_ink ch x y u v" .
  qed
qed

text \<open>A text is its glyphs side by side.\<close>

definition text_ink :: "string \<Rightarrow> int \<Rightarrow> int \<Rightarrow> int \<Rightarrow> int \<Rightarrow> bool" where
  "text_ink t x y u v \<longleftrightarrow> (\<exists>i < length t. glyph_ink (t ! i) (x + 8 * int i) y u v)"

lemma text_ink_Cons: "text_ink (c # t) x y u v \<longleftrightarrow> glyph_ink c x y u v \<or> text_ink t (x + 8) y u v"
  unfolding text_ink_def by (auto simp: less_Suc_eq_0_disj algebra_simps)

lemma draw_text_wp:
  assumes "fb_mapped hw" and "fb_inv s" and "fits x" and "fits y" and "fits (y + 7)"
    and "fits (x + 8 * int (length (c_str str)))" and "terminated str" and "\<forall>c \<in> set (c_str str). of_char c < (128 :: nat)"
  shows "wp (fb_draw_text hw str x y c s) (coloured (text_ink (c_str str) x y) c s)"
  using assms
proof (induction str arbitrary: x s)
  case Nil
  then show ?case by simp
next
  case (Cons ch str)
  show ?case
  proof (cases "ch = NUL")
    case True
    then show ?thesis by (simp add: text_ink_def coloured_refl)
  next
    case False
    have f: "fits (x + 7)" "fits (x + 8)" by (rule fits_between [OF Cons.prems(3,6)]; use False in simp)+
    have "wp (fb_draw_char hw ch x y c s) (coloured (glyph_ink ch x y) c s)"
      by (rule draw_char_wp) (use Cons.prems f False in auto)
    then have "wp (fb_draw_char hw ch x y c s) (\<lambda>t. wp (fb_draw_text hw str (x + 8) y c t)
        (coloured (text_ink (ch # c_str str) x y) c s))"
    proof (rule wp_mono)
      fix t assume t: "coloured (glyph_ink ch x y) c s t"
      have "wp (fb_draw_text hw str (x + 8) y c t) (coloured (text_ink (c_str str) (x + 8) y) c t)"
        by (rule Cons.IH) (use Cons.prems f False colouredD(1) [OF t] in \<open>auto simp: algebra_simps\<close>)
      then show "wp (fb_draw_text hw str (x + 8) y c t) (coloured (text_ink (ch # c_str str) x y) c s)"
        by (rule wp_mono) (rule coloured_cong [OF coloured_trans [OF t]], auto simp: text_ink_Cons)
    qed
    then show ?thesis using False f(2) by (simp add: add_int_fits)
  qed
qed

section \<open>Properties\<close>

text \<open>A machine whose memory is all mapped, and the file's variables at boot.\<close>

definition mapped_machine :: hardware where
  "mapped_machine = \<lparr>port_in = \<lambda>t p. 0x20, cpuid_ebx = \<lambda>leaf. 0, mem8 = \<lambda>a. Some 0,
     image_end = 0x200000, nmi_wakes = 0, stack_word = \<lambda>i. 0\<rparr>"

definition fb_statics :: "acpi \<Rightarrow> framebuffer" where
  "fb_statics a = acpi.extend a
     (framebuffer.fields FRAMEBUFFER_ADDR FRAMEBUFFER_WIDTH FRAMEBUFFER_HEIGHT FRAMEBUFFER_PITCH (\<lambda>a. 0))"

lemma fb_statics_inv: "fb_inv (fb_statics a)" "picture (fb_statics a) u v = (if on_screen u v then Some 0 else None)"
  by (simp_all add: fb_inv_def fb_statics_def acpi.defs framebuffer.defs picture_def)

lemma mapped_machine_fb: "fb_mapped mapped_machine"
  by (simp add: fb_mapped_def mapped_machine_def)

text \<open>C32. A glyph is drawn for every ASCII character at any position, also one that is partly or
  wholly off the screen: exactly the points of its set bits that lie on the screen get the
  colour and nothing else changes. For any other character the code reads past the font.\<close>

theorem fb_draw_char_ascii:
  assumes "fb_mapped hw" and "fb_inv s" and "fits x" and "fits y" and "fits (x + 7)" and "fits (y + 7)"
  shows "if of_char ch < (128 :: nat) then wp (fb_draw_char hw ch x y c s) (coloured (glyph_ink ch x y) c s)
    else fb_draw_char hw ch x y c s = None"
  using draw_char_wp [OF assms] by (simp add: fb_draw_char_def font_length)

theorem fb_draw_char_ascii_witness:
  "wp (fb_draw_char mapped_machine (CHR ''I'') (-4) 0 7 (fb_statics booting_acpi)) (\<lambda>t.
    picture t 0 0 = Some 7 \<and> picture t 1 0 = Some 0 \<and> picture t (-1) 0 = None) \<and>
   fb_draw_char mapped_machine (CHR 0x80) 0 0 7 (fb_statics booting_acpi) = None"
proof
  have bits: "bit (font8x8_basic ! 73 ! 0) 4" "\<not> bit (font8x8_basic ! 73 ! 0) 5"
    by (simp_all add: font8x8_basic_def bit_simps bit_numeral_rec)
  show "wp (fb_draw_char mapped_machine (CHR ''I'') (-4) 0 7 (fb_statics booting_acpi)) (\<lambda>t.
    picture t 0 0 = Some 7 \<and> picture t 1 0 = Some 0 \<and> picture t (-1) 0 = None)"
    using fb_draw_char_ascii [OF mapped_machine_fb fb_statics_inv(1), of "-4" 0 "CHR ''I''" 7 booting_acpi] bits
    by (auto simp: fits_def elim!: wp_mono dest!: colouredD(2) simp: fb_statics_inv(2) colour_def on_screen_def glyph_ink_def rectangle_def)
  show "fb_draw_char mapped_machine (CHR 0x80) 0 0 7 (fb_statics booting_acpi) = None"
    using fb_draw_char_ascii [OF mapped_machine_fb fb_statics_inv(1), of 0 0 "CHR 0x80" 7 booting_acpi] by (simp add: fits_def)
qed

text \<open>A text is drawn as its glyphs side by side, eight pixels apart, clipped to the screen.\<close>

theorem fb_draw_text_draws:
  assumes "fb_mapped hw" and "fb_inv s" and "fits x" and "fits y" and "fits (y + 7)"
    and "fits (x + 8 * int (length (c_str str)))" and "terminated str" and "\<forall>c \<in> set (c_str str). of_char c < (128 :: nat)"
  shows "wp (fb_draw_text hw str x y c s) (coloured (text_ink (c_str str) x y) c s)"
  using draw_text_wp [OF assms] .

theorem fb_draw_text_draws_witness:
  "wp (fb_draw_text mapped_machine (c_lit ''II'') 0 0 7 (fb_statics booting_acpi))
    (coloured (text_ink ''II'' 0 0) 7 (fb_statics booting_acpi))"
  using fb_draw_text_draws [OF mapped_machine_fb fb_statics_inv(1), of 0 0 "c_lit ''II''" 7 booting_acpi] by (simp add: fits_def)

end
