(* ===== verification/Power_Control.thy ===== *)
theory Power_Control
  imports Acpi
begin

text \<open>
  \<open>src/kernel/power.c\<close>: the three ways the kernel ends. Each writes a message and enters a loop
  that disables interrupts, pokes a port and executes \<open>hlt\<close>. With interrupts disabled only a
  non-maskable event resumes the processor; the machine parameter \<open>nmi_wakes\<close> says how often
  that happens, after which the processor stays halted. The result of these functions is the
  state in which it stays.
\<close>

section \<open>Operations\<close>

text \<open>What running a piece of code leads to: it returns, or the processor stays halted in it.\<close>

datatype 's control = Continue 's | Halted 's

definition halt_loop :: "hardware \<Rightarrow> ('s \<Rightarrow> 's) \<Rightarrow> 's \<Rightarrow> 's control" where
  "halt_loop hw poke s = Halted ((poke ^^ Suc (nmi_wakes hw)) s)"

definition kernel_halt :: "hardware \<Rightarrow> 'a console_scheme \<Rightarrow> 'a console_scheme control option" where
  "kernel_halt hw s = do {
     s \<leftarrow> console_write hw (c_lit ''Halting system...\<newline>'') s;
     Some (halt_loop hw (\<lambda>s. s) s) }"

definition kernel_reboot :: "hardware \<Rightarrow> 'a console_scheme \<Rightarrow> 'a console_scheme control option" where
  "kernel_reboot hw s = do {
     s \<leftarrow> console_write hw (c_lit ''Rebooting system...\<newline>'') s;
     Some (halt_loop hw (outb 0x64 0xFE) s) }"

text \<open>The ports and values \<open>kernel_shutdown\<close> chooses.\<close>

definition power_ports :: "acpi_fadt option \<Rightarrow> u16 \<times> u16 \<times> u16 \<times> u16" where
  "power_ports f =
     (let pm1a = 0x604; pm1b = 0xB004; val_a = 0x2000; val_b = 0x2000 in
      case f of None \<Rightarrow> (pm1a, pm1b, val_a, val_b)
      | Some fadt \<Rightarrow>
          (if pm1a_cnt_blk fadt \<noteq> 0 then pm1a_cnt_blk fadt else pm1a,
           if pm1b_cnt_blk fadt \<noteq> 0 then pm1b_cnt_blk fadt else pm1b,
           slp_typa fadt OR 0x2000, slp_typb fadt OR 0x2000))"

definition kernel_shutdown :: "hardware \<Rightarrow> 'a acpi_scheme \<Rightarrow> 'a acpi_scheme control option" where
  "kernel_shutdown hw s = do {
     s \<leftarrow> console_write hw (c_lit ''Shutting down...\<newline>'') s;
     let (pm1a, pm1b, val_a, val_b) = power_ports (acpi_get_fadt s);
     Some (halt_loop hw (\<lambda>s.
       let s = (if pm1a \<noteq> 0 then outw pm1a val_a s else s)
       in if pm1b \<noteq> 0 then outw pm1b val_b s else s) s) }"

section \<open>Exact output\<close>

text \<open>Writing \<open>str\<close> and nothing else.\<close>

definition outputs :: "string \<Rightarrow> 'a console_scheme \<Rightarrow> 'a console_scheme \<Rightarrow> bool" where
  "outputs str s s' \<longleftrightarrow> con_inv s' \<and> con_term s' = term_write (vga_color s) str (con_term s) \<and>
     con_frame s' = con_frame s \<and> serial_out (trace s') = serial_out (trace s) @ map byte_of str"

lemma writes_outputs: "writes str s s' \<Longrightarrow> outputs str s s'"
  by (simp add: writes_def prints_def outputs_def)

lemma outputs_Nil: "con_inv s \<Longrightarrow> outputs [] s s"
  by (simp add: outputs_def)

lemma outputs_says: "outputs str s s' \<Longrightarrow> says s s'"
  by (auto simp: outputs_def says_def talks_def con_frame_def con_keep_def)

lemma outputs_more: "outputs str s s' \<Longrightarrow> console.more s' = console.more s"
  by (simp add: outputs_def con_frame_def)

lemma outputs_inv: "outputs str s s' \<Longrightarrow> con_inv s'"
  by (simp add: outputs_def)

lemma outputs_trans: "outputs a s t \<Longrightarrow> outputs b t u \<Longrightarrow> outputs (a @ b) s u"
  using con_frame_color [of t s] by (auto simp: outputs_def)

lemma outputs_seq:
  assumes "wp m (outputs a s)" and "\<And>t. outputs a s t \<Longrightarrow> wp (f t) (outputs b t)"
  shows "wp (Option.bind m f) (outputs (a @ b) s)"
  by (rule wp_seq [OF assms(1)]) (rule wp_mono [OF assms(2)], auto intro: outputs_trans)

lemma outputs_loop:
  assumes "con_inv s"
    and "\<And>i t. i \<in> set xs \<Longrightarrow> con_inv t \<Longrightarrow> console.more t = console.more s \<Longrightarrow> wp (f i t) (outputs (g i) t)"
  shows "wp (for_each xs f s) (outputs (concat (map g xs)) s)"
  using assms
proof (induction xs arbitrary: s)
  case Nil
  then show ?case by (simp add: outputs_Nil)
next
  case (Cons x xs)
  have x: "wp (f x s) (outputs (g x) s)" using Cons.prems by simp
  have "wp (Option.bind (f x s) (for_each xs f)) (outputs (g x @ concat (map g xs)) s)"
  proof (rule outputs_seq [OF x])
    fix t assume t: "outputs (g x) s t"
    have "console.more t = console.more s" by (rule outputs_more [OF t])
    then show "wp (for_each xs f t) (outputs (concat (map g xs)) t)"
      using Cons.prems(2) by (intro Cons.IH outputs_inv [OF t]) simp
  qed
  then show ?case by simp
qed

lemma outputs_simps:
  assumes "uart_ready hw" and "con_inv s"
  shows "terminated a \<Longrightarrow> wp (console_write hw a s) (outputs (c_str a) s)"
    and "wp (console_write_hex16 hw h s) (outputs (hex_string 4 (unat h)) s)"
    and "n < 2 ^ 64 \<Longrightarrow> wp (console_write_dec hw n s) (outputs (decimal n) s)"
proof -
  show "terminated a \<Longrightarrow> wp (console_write hw a s) (outputs (c_str a) s)"
    by (rule wp_mono [OF console_write_wp [OF assms(2,1)] writes_outputs])
  show "wp (console_write_hex16 hw h s) (outputs (hex_string 4 (unat h)) s)"
    by (rule wp_mono [OF write_hex16_wp [OF assms(2,1)] writes_outputs])
  show "n < 2 ^ 64 \<Longrightarrow> wp (console_write_dec hw n s) (outputs (decimal n) s)"
    by (rule wp_mono [OF console_write_dec_wp [OF assms(2,1)] writes_outputs])
qed

lemma write_lit_outputs:
  assumes "uart_ready hw" and "con_inv s" and "NUL \<notin> set a"
  shows "wp (console_write hw (c_lit a) s) (outputs a s)"
  using outputs_simps(1) [OF assms(1,2), of "c_lit a"] assms(3) by simp

section \<open>Facts\<close>

lemma funpow_trace:
  assumes "\<And>s :: 'a io_scheme. f s = s\<lparr>trace := evs @ trace s\<rparr>"
  shows "(f ^^ n) s = s\<lparr>trace := concat (replicate n evs) @ trace s\<rparr>"
proof (induction n)
  case (Suc n)
  have "concat (replicate n evs) @ evs = evs @ concat (replicate n evs)"
    by (induction n) simp_all
  then show ?case using Suc by (simp add: assms)
qed simp

lemma halt_loop_trace:
  assumes "\<And>s :: 'a io_scheme. f s = s\<lparr>trace := evs @ trace s\<rparr>"
  shows "halt_loop hw f s = Halted (s\<lparr>trace := concat (replicate (Suc (nmi_wakes hw)) evs) @ trace s\<rparr>)"
  unfolding halt_loop_def funpow_trace [where f = f and evs = evs, OF assms] ..

text \<open>The processor stays halted after the text \<open>str\<close>, having done the port accesses \<open>evs\<close> (newest
  first) before it halted and again each time it was woken.\<close>

definition stops :: "hardware \<Rightarrow> string \<Rightarrow> io_event list \<Rightarrow> 'a console_scheme \<Rightarrow> 'a console_scheme control \<Rightarrow> bool" where
  "stops hw str evs s r \<longleftrightarrow> (\<exists>t. outputs str s t \<and>
     r = Halted (t\<lparr>trace := concat (replicate (Suc (nmi_wakes hw)) evs) @ trace t\<rparr>))"

text \<open>The writes that power the machine off: sleep enable and sleep type to both control registers.\<close>

definition power_off_writes :: "acpi_fadt option \<Rightarrow> io_event list" where
  "power_off_writes f = (case f of
     None \<Rightarrow> [OutW 0xB004 0x2000, OutW 0x604 0x2000]
   | Some f \<Rightarrow> [OutW (if pm1b_cnt_blk f = 0 then 0xB004 else pm1b_cnt_blk f) (slp_typb f OR 0x2000),
       OutW (if pm1a_cnt_blk f = 0 then 0x604 else pm1a_cnt_blk f) (slp_typa f OR 0x2000)])"

lemma stops_wp:
  assumes "con_inv s" and "uart_ready hw" and "NUL \<notin> set str"
    and "\<And>t (u :: 'a console_scheme). outputs str s t \<Longrightarrow> f t u = u\<lparr>trace := evs @ trace u\<rparr>"
  shows "wp (do { t \<leftarrow> console_write hw (c_lit str) s; Some (halt_loop hw (f t) t) }) (stops hw str evs s)"
proof (rule wp_seq [OF write_lit_outputs [OF assms(2,1,3)]])
  fix t assume t: "outputs str s t"
  note halt_loop_trace [where f = "f t" and evs = evs and s = t, OF assms(4) [OF t]]
  with t show "wp (Some (halt_loop hw (f t) t)) (stops hw str evs s)" by (auto simp: stops_def)
qed

lemma kernel_shutdown_wp:
  fixes s :: "'a acpi_scheme"
  assumes "con_inv s" and "uart_ready hw"
  shows "wp (kernel_shutdown hw s) (stops hw ''Shutting down...\<newline>'' (power_off_writes (acpi_get_fadt s)) s)"
  unfolding kernel_shutdown_def Let_def case_prod_beta
proof (rule stops_wp [OF assms])
  fix t u :: "'a acpi_scheme"
  assume "outputs ''Shutting down...\<newline>'' s t"
  then have "acpi_get_fadt t = acpi_get_fadt s" by (rule says_acpi(2) [OF outputs_says])
  then show "(if fst (snd (power_ports (acpi_get_fadt t))) \<noteq> 0
      then outw (fst (snd (power_ports (acpi_get_fadt t)))) (snd (snd (snd (power_ports (acpi_get_fadt t)))))
        (if fst (power_ports (acpi_get_fadt t)) \<noteq> 0
         then outw (fst (power_ports (acpi_get_fadt t))) (fst (snd (snd (power_ports (acpi_get_fadt t))))) u else u)
      else (if fst (power_ports (acpi_get_fadt t)) \<noteq> 0
         then outw (fst (power_ports (acpi_get_fadt t))) (fst (snd (snd (power_ports (acpi_get_fadt t))))) u else u))
      = u\<lparr>trace := power_off_writes (acpi_get_fadt s) @ trace u\<rparr>"
    by (simp add: power_ports_def power_off_writes_def outw_def Let_def split: option.split)
qed simp

lemma kernel_reboot_wp:
  assumes "con_inv s" and "uart_ready hw"
  shows "wp (kernel_reboot hw s) (stops hw ''Rebooting system...\<newline>'' [OutB 0x64 0xFE] s)"
  unfolding kernel_reboot_def by (rule stops_wp [OF assms]) (simp_all add: outb_def)

lemma kernel_halt_wp:
  assumes "con_inv s" and "uart_ready hw"
  shows "wp (kernel_halt hw s) (stops hw ''Halting system...\<newline>'' [] s)"
  unfolding kernel_halt_def by (rule stops_wp [OF assms]) simp_all

section \<open>Properties\<close>

text \<open>C34. Shutting down: after the message the processor stays halted, and every time it was
  woken the PM1a control register and then the PM1b control register were written with sleep
  enable and the sleep type: at the FADT's ports where it names one, and otherwise at the
  QEMU defaults \<open>0x604\<close> and \<open>0xB004\<close>, PM1b included, also on a machine that has no PM1b.\<close>

theorem shutdown_writes:
  assumes "con_inv s" and "uart_ready hw"
  shows "wp (kernel_shutdown hw s) (\<lambda>r. \<exists>t. outputs ''Shutting down...\<newline>'' s t \<and>
    (let (a, b, va, vb) = (case acpi_get_fadt s of None \<Rightarrow> (0x604, 0xB004, 0x2000, 0x2000)
       | Some f \<Rightarrow> (if pm1a_cnt_blk f = 0 then 0x604 else pm1a_cnt_blk f,
           if pm1b_cnt_blk f = 0 then 0xB004 else pm1b_cnt_blk f, slp_typa f OR 0x2000, slp_typb f OR 0x2000))
     in r = Halted (t\<lparr>trace := concat (replicate (Suc (nmi_wakes hw)) [OutW b vb, OutW a va]) @ trace t\<rparr>)))"
  by (rule wp_mono [OF kernel_shutdown_wp [OF assms]])
    (auto simp: stops_def power_off_writes_def Let_def split: option.splits)

theorem shutdown_writes_witness:
  "wp (kernel_shutdown quiet_machine booting_acpi) (\<lambda>r. \<exists>t.
    r = Halted (t\<lparr>trace := [OutW 0xB004 0x2000, OutW 0x604 0x2000] @ trace t\<rparr>))"
proof -
  have "acpi_get_fadt booting_acpi = None"
    by (simp add: booting_acpi_def acpi_statics_def acpi.defs inventory.defs acpi_get_fadt_def)
  moreover have "nmi_wakes quiet_machine = 0" by (simp add: quiet_machine_def)
  ultimately show ?thesis
    using shutdown_writes [OF booting_acpi_inv(1) quiet_machine_ready] by (auto elim!: wp_mono)
qed

end
