(* ===== verification/Command.thy ===== *)
theory Command
  imports Power_Control
begin

text \<open>
  \<open>src/kernel/console/cmd.c\<close>: the shell's commands. The lemmas give the exact text of \<open>help\<close> and of
  \<open>info\<close> (which reports the inventory), and the effect of every command line.
\<close>

section \<open>Operations\<close>

definition help_lines :: "string list" where
  "help_lines =
     [''Available commands:\<newline>'',
      ''  help  - Display this message\<newline>'',
      ''  clear - Clear the screen\<newline>'',
      ''  info  - Display hardware information\<newline>'',
      ''  gui start - Enable quadrant layout\<newline>'',
      ''  restart - Reboot the system\<newline>'',
      ''  shutdown - Power off the system\<newline>'',
      ''  exit  - Halt the system\<newline>'']"

definition show_help :: "hardware \<Rightarrow> 'a console_scheme \<Rightarrow> 'a console_scheme option" where
  "show_help hw = for_each help_lines (\<lambda>l. console_write hw (c_lit l))"

definition show_device :: "hardware \<Rightarrow> nat \<Rightarrow> 'a inventory_scheme \<Rightarrow> 'a inventory_scheme option" where
  "show_device hw i s = do {
     s \<leftarrow> console_write hw (c_lit ''  Bus '') s;
     b \<leftarrow> rd (pci_bus s) i;
     s \<leftarrow> console_write_dec hw (unat b) s;
     s \<leftarrow> console_write hw (c_lit ''  Vend 0x'') s;
     v \<leftarrow> rd (pci_vendor s) i;
     s \<leftarrow> console_write_hex16 hw v s;
     s \<leftarrow> console_write hw (c_lit '' Dev 0x'') s;
     d \<leftarrow> rd (pci_device s) i;
     s \<leftarrow> console_write_hex16 hw d s;
     s \<leftarrow> console_write hw (c_lit '' : '') s;
     c \<leftarrow> rd (pci_class s) i;
     s \<leftarrow> console_write hw (pci_class_name c) s;
     console_write hw (c_lit ''\<newline>'') s }"

definition show_info :: "hardware \<Rightarrow> 'a inventory_scheme \<Rightarrow> 'a inventory_scheme option" where
  "show_info hw s = do {
     s \<leftarrow> console_write hw (c_lit ''CPU cores: '') s;
     s \<leftarrow> console_write_dec hw (unat (cpu_cores s)) s;
     s \<leftarrow> console_write hw (c_lit ''\<newline>Memory bytes: '') s;
     s \<leftarrow> console_write_dec hw (unat (memory_bytes s)) s;
     s \<leftarrow> console_write hw (c_lit ''\<newline>PCI devices: '') s;
     s \<leftarrow> console_write_dec hw (pci_devices s) s;
     s \<leftarrow> console_write hw (c_lit ''\<newline>PCI device list:\<newline>'') s;
     for_each [0..<min (pci_devices s) MAX_INVENTORY_PCI] (show_device hw) s }"

definition continue :: "'s option \<Rightarrow> 's control option" where
  "continue m = map_option Continue m"

definition console_execute_command ::
    "hardware \<Rightarrow> char list \<Rightarrow> 'a acpi_scheme \<Rightarrow> 'a acpi_scheme control option" where
  "console_execute_command hw cmd s = do {
     help \<leftarrow> str_eq cmd (c_lit ''help'');
     if help then continue (show_help hw s) else do {
     clear \<leftarrow> str_eq cmd (c_lit ''clear'');
     if clear then continue (console_clear s) else do {
     info \<leftarrow> str_eq cmd (c_lit ''info'');
     if info then continue (show_info hw s) else do {
     restart \<leftarrow> str_eq cmd (c_lit ''restart'');
     if restart then kernel_reboot hw s else do {
     shutdown \<leftarrow> str_eq cmd (c_lit ''shutdown'');
     if shutdown then kernel_shutdown hw s else do {
     exit \<leftarrow> str_eq cmd (c_lit ''exit'');
     if exit then kernel_halt hw s else do {
     gui \<leftarrow> str_eq cmd (c_lit ''gui start'');
     if gui then continue (pane_gui_start hw s) else do {
     c \<leftarrow> rd cmd 0;
     if c \<noteq> NUL then continue (console_write hw (c_lit ''Unknown command\<newline>'') s)
     else Some (Continue s) }}}}}}}}"

section \<open>The texts\<close>

lemma inventory_fields:
  fixes s s' :: "'a inventory_scheme"
  assumes "console.more s' = console.more s"
  shows "pci_bus s' = pci_bus s" "pci_class s' = pci_class s" "pci_subclass s' = pci_subclass s"
    "pci_vendor s' = pci_vendor s" "pci_device s' = pci_device s" "pci_devices s' = pci_devices s"
    "cpu_cores s' = cpu_cores s" "memory_bytes s' = memory_bytes s"
  using assms by (cases s; cases s'; simp)+

lemma show_help_wp:
  assumes "con_inv s" and "uart_ready hw"
  shows "wp (show_help hw s) (outputs (concat help_lines) s)"
proof -
  have n: "\<forall>l \<in> set help_lines. NUL \<notin> set l" by (simp add: help_lines_def)
  have "wp (for_each help_lines (\<lambda>l. console_write hw (c_lit l)) s) (outputs (concat (map (\<lambda>l. l) help_lines)) s)"
    by (rule outputs_loop [OF assms(1)]) (use n write_lit_outputs [OF assms(2)] in blast)
  then show ?thesis by (simp add: show_help_def)
qed

text \<open>One line of the device list, and the whole report.\<close>

definition device_text :: "'a inventory_scheme \<Rightarrow> nat \<Rightarrow> string" where
  "device_text s i = ''  Bus '' @ decimal (unat (pci_bus s ! i)) @ ''  Vend 0x'' @
     hex_string 4 (unat (pci_vendor s ! i)) @ '' Dev 0x'' @ hex_string 4 (unat (pci_device s ! i)) @
     '' : '' @ c_str (pci_class_name (pci_class s ! i)) @ ''\<newline>''"

definition info_text :: "'a inventory_scheme \<Rightarrow> string" where
  "info_text s = ''CPU cores: '' @ decimal (unat (cpu_cores s)) @
     ''\<newline>Memory bytes: '' @ decimal (unat (memory_bytes s)) @
     ''\<newline>PCI devices: '' @ decimal (pci_devices s) @ ''\<newline>PCI device list:\<newline>'' @
     concat (map (device_text s) [0..<min (pci_devices s) 256])"

lemma unat_small: "unat (b :: u8) < 2 ^ 64" "unat (w :: u32) < 2 ^ 64" "unat (l :: u64) < 2 ^ 64"
proof -
  have "unat b < 2 ^ LENGTH(8)" "unat w < 2 ^ LENGTH(32)" "unat l < 2 ^ LENGTH(64)" by (rule unsigned_less)+
  then show "unat b < 2 ^ 64" "unat w < 2 ^ 64" "unat l < 2 ^ 64" by simp_all
qed

text \<open>Steps through code whose variables above the console stay those of a state \<open>s0\<close>.\<close>

lemma outputs_step:
  assumes "console.more s = M" and "wp m (outputs a s)"
    and "\<And>t. con_inv t \<Longrightarrow> console.more t = M \<Longrightarrow> wp (f t) (outputs b t)"
  shows "wp (Option.bind m f) (outputs (a @ b) s)"
  by (rule outputs_seq [OF assms(2)]) (use assms(1,3) outputs_inv outputs_more in metis)

lemma rd_step: "rd xs i = Some v \<Longrightarrow> wp (f v) Q \<Longrightarrow> wp (Option.bind (rd xs i) f) Q"
  by simp

lemma rd_inventory:
  fixes s0 t :: "'a inventory_scheme"
  assumes "inventory_shape s0" and "i < 256" and "console.more t = console.more s0"
  shows "rd (pci_bus t) i = Some (pci_bus s0 ! i)" "rd (pci_vendor t) i = Some (pci_vendor s0 ! i)"
    "rd (pci_device t) i = Some (pci_device s0 ! i)" "rd (pci_class t) i = Some (pci_class s0 ! i)"
  using assms inventory_fields [OF assms(3)] by (simp_all add: inventory_shape_def)

lemma show_device_wp:
  fixes s :: "'a inventory_scheme"
  assumes "con_inv s" and "uart_ready hw" and "inventory_shape s" and "i < 256"
  shows "wp (show_device hw i s) (outputs (device_text s i) s)"
  unfolding show_device_def device_text_def
  by (rule outputs_step [where M = "console.more s"] rd_step rd_inventory [OF assms(3,4)] refl assms(1)
      write_lit_outputs [OF assms(2)] outputs_simps [OF assms(2)] unat_small terminated_class_name
      | assumption | (simp; fail))+

lemma show_info_wp:
  fixes s :: "'a inventory_scheme"
  assumes "con_inv s" and "uart_ready hw" and "inventory_shape s" and "pci_devices s < 2 ^ 32"
  shows "wp (show_info hw s) (outputs (info_text s) s)"
proof -
  have n: "pci_devices s < 2 ^ 64" using assms(4) by simp
  have loop: "wp (for_each [0..<min (pci_devices t) 256] (show_device hw) t)
      (outputs (concat (map (device_text s) [0..<min (pci_devices s) 256])) t)"
    if t: "con_inv t" "console.more t = console.more s" for t
    unfolding inventory_fields(6) [OF t(2)]
  proof (rule outputs_loop [OF t(1)])
    fix i and u :: "'a inventory_scheme"
    assume i: "i \<in> set [0..<min (pci_devices s) 256]" and u: "con_inv u" "console.more u = console.more t"
    have f: "console.more u = console.more s" using u(2) t(2) by simp
    have "inventory_shape u" "device_text u i = device_text s i"
      using assms(3) inventory_fields [OF f] by (simp_all add: inventory_shape_def device_text_def)
    with show_device_wp [OF u(1) assms(2), of i] i show "wp (show_device hw i u) (outputs (device_text s i) u)"
      by simp
  qed
  have dec: "wp (console_write_dec hw (unat (cpu_cores t)) t) (outputs (decimal (unat (cpu_cores s))) t)"
    "wp (console_write_dec hw (unat (memory_bytes t)) t) (outputs (decimal (unat (memory_bytes s))) t)"
    "wp (console_write_dec hw (pci_devices t) t) (outputs (decimal (pci_devices s)) t)"
    if t: "con_inv t" "console.more t = console.more s" for t
    using outputs_simps(3) [OF assms(2) t(1)] inventory_fields [OF t(2)] unat_small n by simp_all
  show ?thesis
    unfolding show_info_def info_text_def
    by (rule outputs_step [where M = "console.more s"] refl assms(1) write_lit_outputs [OF assms(2)] dec loop
      | assumption | (simp; fail))+
qed

section \<open>Commands\<close>

text \<open>The invariant of the whole state the shell works on.\<close>

definition system_inv :: "'a acpi_scheme \<Rightarrow> bool" where
  "system_inv s \<longleftrightarrow> ui_inv s \<and> inventory_shape s \<and> pci_devices s < 2 ^ 32 \<and> length (acpi_tables s) = 16 \<and>
     acpi_table_count s \<le> 16"

lemma ui_inv_more:
  fixes s s' :: "'a pane_scheme"
  assumes "console.more s' = console.more s" and "con_inv s'" and "con_keep s' = con_keep s" and "ui_inv s"
  shows "ui_inv s'"
  using assms(2,4) shell_fields [OF assms(1)] pane_fields [OF assms(1)] input_inv_keep [OF assms(3)]
  by (simp add: ui_inv_def pane_inv_def shell_inv_def history_inv_def line_inv_def line_def pane_ok_def)

lemma system_inv_says:
  fixes s t :: "'a acpi_scheme"
  assumes "says s t" and "system_inv s"
  shows "system_inv t"
proof -
  have m: "console.more t = console.more s" by (rule saysD(3) [OF assms(1)])
  have "ui_inv t"
    by (rule ui_inv_more [OF m]) (use assms in \<open>auto simp: says_def talks_def system_inv_def\<close>)
  then show ?thesis
    using assms(2) acpi_fields [OF m] inventory_fields [OF m] by (simp add: system_inv_def inventory_shape_def)
qed

lemma system_invD:
  assumes "system_inv s"
  shows "con_inv s" "con_shape s" "ui_inv s" "pane_inv s" "inventory_shape s" "pci_devices s < 2 ^ 32"
  using assms pane_invD [of s] by (simp_all add: system_inv_def ui_inv_def)

lemma continue_wp: "wp m (\<lambda>s. Q (Continue s)) \<Longrightarrow> wp (continue m) Q"
  by (cases m) (simp_all add: continue_def)

text \<open>The machine after a command: running with the invariant, or halted.\<close>

definition command_ok :: "'a acpi_scheme control \<Rightarrow> bool" where
  "command_ok r = (case r of Continue s \<Rightarrow> system_inv s | Halted s \<Rightarrow> con_inv s)"

definition commands :: "string list" where
  "commands = [''help'', ''clear'', ''info'', ''restart'', ''shutdown'', ''exit'', ''gui start'']"

lemma execute_eq:
  assumes "terminated cmd"
  shows "console_execute_command hw cmd s =
    (if c_str cmd = ''help'' then continue (show_help hw s)
     else if c_str cmd = ''clear'' then continue (console_clear s)
     else if c_str cmd = ''info'' then continue (show_info hw s)
     else if c_str cmd = ''restart'' then kernel_reboot hw s
     else if c_str cmd = ''shutdown'' then kernel_shutdown hw s
     else if c_str cmd = ''exit'' then kernel_halt hw s
     else if c_str cmd = ''gui start'' then continue (pane_gui_start hw s)
     else if c_str cmd \<noteq> [] then continue (console_write hw (c_lit ''Unknown command\<newline>'') s)
     else Some (Continue s))"
proof -
  obtain c cs where "cmd = c # cs" using assms by (cases cmd) auto
  then have c: "rd cmd 0 = Some c" "c = NUL \<longleftrightarrow> c_str cmd = []" by simp_all
  show ?thesis
    unfolding console_execute_command_def
    by (simp only: str_eq_terminated [OF assms terminated_lit] Option.bind.bind_lunit c)
      (simp cong: if_cong)
qed

text \<open>What a command that returns leaves alone: the keyboard queue and decoder, the colour, the
  history and the command buffer, and the layers above the panes.\<close>

definition keeps :: "'a pane_scheme \<Rightarrow> 'a pane_scheme \<Rightarrow> bool" where
  "keeps s t \<longleftrightarrow> con_keep t = con_keep s \<and> shell_keep t = shell_keep s"

lemma keeps_refl [simp]: "keeps s s"
  by (simp add: keeps_def)

lemma says_keeps:
  fixes s t :: "'a pane_scheme"
  assumes "says s t"
  shows "keeps s t"
  using assms shell_fields [OF saysD(3) [OF assms]] pane_fields [OF saysD(3) [OF assms]]
  by (simp add: keeps_def shell_keep_def says_def talks_def)

lemma clear_system:
  fixes s :: "'a acpi_scheme"
  assumes "system_inv s"
  shows "wp (console_clear s) (\<lambda>t. system_inv t \<and> keeps s t \<and> con_term t = term_blank (vga_color s) (con_term s))"
proof (rule wp_mono [OF console_clear_wp [OF system_invD(2) [OF assms]]])
  fix t :: "'a acpi_scheme"
  assume t: "prints (term_blank (vga_color s)) [] s t \<and> sb_view t = 0"
  then have d: "draws (term_blank (vga_color s)) s t" "console.more t = console.more s"
    using prints_draws by blast+
  have "ui_inv t"
    by (rule ui_inv_more [OF d(2)]) (use d(1) system_invD(3) [OF assms] in \<open>auto simp: draws_def\<close>)
  then have "system_inv t"
    using assms acpi_fields [OF d(2)] inventory_fields [OF d(2)] by (simp add: system_inv_def inventory_shape_def)
  then show "system_inv t \<and> keeps s t \<and> con_term t = term_blank (vga_color s) (con_term s)"
    using d(1) shell_fields [OF d(2)] pane_fields [OF d(2)]
    by (simp add: draws_def keeps_def shell_keep_def)
qed

lemma gui_start_system:
  fixes s :: "'a acpi_scheme"
  assumes "system_inv s" and "uart_ready hw"
  shows "wp (pane_gui_start hw s) (\<lambda>t. system_inv t \<and> keeps s t \<and>
    (if gui_active s then t = s else pane_drawn t \<and> pane_grid t = (2, 2, 0, 1, True)))"
proof (cases "gui_active s")
  case True
  then show ?thesis using assms(1) by (simp add: pane_gui_start_def)
next
  case False
  note p = system_invD(4) [OF assms(1)]
  show ?thesis
  proof (rule wp_mono [OF pane_gui_start_wp [OF p False assms(2)]])
    fix t :: "'a acpi_scheme"
    assume t: "redrawn s (2, 2, 0, 1, True) t"
    have "ui_inv t" using redrawn_ui_inv [OF t] system_invD(3) [OF assms(1)] by (simp add: ui_inv_def)
    moreover have "pane.more t = pane.more s" using t by (simp add: redrawn_def shell_keep_def)
    then have "inventory_shape t \<and> pci_devices t < 2 ^ 32 \<and> length (acpi_tables t) = 16 \<and> acpi_table_count t \<le> 16"
      using assms(1) unfolding system_inv_def by (cases s; cases t) (simp add: inventory_shape_def)
    ultimately show "system_inv t \<and> keeps s t \<and>
      (if gui_active s then t = s else pane_drawn t \<and> pane_grid t = (2, 2, 0, 1, True))"
      using t False by (simp add: system_inv_def redrawn_def keeps_def)
  qed
qed

text \<open>What each command line does.\<close>

definition command_effect :: "hardware \<Rightarrow> string \<Rightarrow> 'a acpi_scheme \<Rightarrow> 'a acpi_scheme control \<Rightarrow> bool" where
  "command_effect hw cl s r =
    (if cl = ''restart'' then stops hw ''Rebooting system...\<newline>'' [OutB 0x64 0xFE] s r
     else if cl = ''shutdown'' then stops hw ''Shutting down...\<newline>'' (power_off_writes (acpi_get_fadt s)) s r
     else if cl = ''exit'' then stops hw ''Halting system...\<newline>'' [] s r
     else (\<exists>t. r = Continue t \<and> keeps s t \<and>
       (if cl = ''help'' then outputs (concat help_lines) s t
        else if cl = ''clear'' then con_term t = term_blank (vga_color s) (con_term s)
        else if cl = ''info'' then outputs (info_text s) s t
        else if cl = ''gui start''
        then (if gui_active s then t = s else pane_drawn t \<and> pane_grid t = (2, 2, 0, 1, True))
        else if cl = [] then t = s
        else outputs ''Unknown command\<newline>'' s t)))"

lemma command_effect_control:
  "command_effect hw cl s (Halted t) \<Longrightarrow> cl \<in> {''restart'', ''shutdown'', ''exit''}"
  "command_effect hw cl s (Continue t) \<Longrightarrow> cl \<notin> {''restart'', ''shutdown'', ''exit''} \<and> keeps s t"
  by (auto simp: command_effect_def stops_def split: if_splits)

lemma outputs_command:
  fixes s :: "'a acpi_scheme"
  assumes "wp m (outputs str s)" and "system_inv s"
    and "\<And>t. outputs str s t \<Longrightarrow> keeps s t \<Longrightarrow> command_effect hw cl s (Continue t)"
  shows "wp (continue m) (\<lambda>r. command_ok r \<and> command_effect hw cl s r)"
  by (rule continue_wp, rule wp_mono [OF assms(1)])
    (simp add: command_ok_def assms(3) system_inv_says [OF outputs_says assms(2)] says_keeps [OF outputs_says])

lemma stops_ok: "stops hw str evs s r \<Longrightarrow> command_ok r"
  by (auto simp: stops_def command_ok_def dest: outputs_inv)

lemma halted_command:
  assumes "wp m (stops hw str evs s)" and "\<And>r. stops hw str evs s r \<Longrightarrow> command_effect hw cl s r"
  shows "wp m (\<lambda>r. command_ok r \<and> command_effect hw cl s r)"
  by (rule wp_mono [OF assms(1)]) (use assms(2) stops_ok in blast)

lemma execute_command_wp:
  fixes s :: "'a acpi_scheme"
  assumes "system_inv s" and "uart_ready hw" and "terminated cmd"
  shows "wp (console_execute_command hw cmd s) (\<lambda>r. command_ok r \<and> command_effect hw (c_str cmd) s r)"
proof -
  note i = system_invD [OF assms(1)]
  consider "c_str cmd = ''help''" | "c_str cmd = ''clear''" | "c_str cmd = ''info''"
    | "c_str cmd = ''restart''" | "c_str cmd = ''shutdown''" | "c_str cmd = ''exit''"
    | "c_str cmd = ''gui start''" | "c_str cmd = []" | "c_str cmd \<notin> set commands" "c_str cmd \<noteq> []"
    by (auto simp: commands_def)
  then show ?thesis
  proof cases
    case 1
    then have run: "console_execute_command hw cmd s = continue (show_help hw s)" by (simp add: execute_eq [OF assms(3)])
    show ?thesis unfolding run
      by (rule outputs_command [OF show_help_wp [OF i(1) assms(2)] assms(1)]) (simp add: 1 command_effect_def)
  next
    case 2
    then have run: "console_execute_command hw cmd s = continue (console_clear s)" by (simp add: execute_eq [OF assms(3)])
    show ?thesis unfolding run
      by (rule continue_wp, rule wp_mono [OF clear_system [OF assms(1)]]) (simp add: 2 command_effect_def command_ok_def)
  next
    case 3
    then have run: "console_execute_command hw cmd s = continue (show_info hw s)" by (simp add: execute_eq [OF assms(3)])
    show ?thesis unfolding run
      by (rule outputs_command [OF show_info_wp [OF i(1) assms(2) i(5,6)] assms(1)]) (simp add: 3 command_effect_def)
  next
    case 4
    then have run: "console_execute_command hw cmd s = kernel_reboot hw s" by (simp add: execute_eq [OF assms(3)])
    show ?thesis unfolding run
      by (rule halted_command [OF kernel_reboot_wp [OF i(1) assms(2)]]) (simp add: 4 command_effect_def)
  next
    case 5
    then have run: "console_execute_command hw cmd s = kernel_shutdown hw s" by (simp add: execute_eq [OF assms(3)])
    show ?thesis unfolding run
      by (rule halted_command [OF kernel_shutdown_wp [OF i(1) assms(2)]]) (simp add: 5 command_effect_def)
  next
    case 6
    then have run: "console_execute_command hw cmd s = kernel_halt hw s" by (simp add: execute_eq [OF assms(3)])
    show ?thesis unfolding run
      by (rule halted_command [OF kernel_halt_wp [OF i(1) assms(2)]]) (simp add: 6 command_effect_def)
  next
    case 7
    then have run: "console_execute_command hw cmd s = continue (pane_gui_start hw s)" by (simp add: execute_eq [OF assms(3)])
    show ?thesis unfolding run
      by (rule continue_wp, rule wp_mono [OF gui_start_system [OF assms(1,2)]])
        (simp add: 7 command_effect_def command_ok_def)
  next
    case 8
    then show ?thesis using assms(1) by (simp add: execute_eq [OF assms(3)] command_effect_def command_ok_def)
  next
    case 9
    then have run: "console_execute_command hw cmd s = continue (console_write hw (c_lit ''Unknown command\<newline>'') s)"
      by (simp add: execute_eq [OF assms(3)] commands_def)
    show ?thesis unfolding run
      by (rule outputs_command [OF write_lit_outputs [OF assms(2) i(1)] assms(1)])
        (use 9 in \<open>simp_all add: command_effect_def commands_def\<close>)
  qed
qed

section \<open>Properties\<close>

lemma booting_system [simp]: "system_inv booting_acpi"
proof -
  have m: "ui_inv (inventory.extend i x) = ui_inv i" "inventory_shape (inventory.extend i x) = inventory_shape i"
    for i :: inventory and x :: "'b"
    by (simp_all add: ui_inv_def pane_inv_def shell_inv_def con_inv_def con_shape_def mirrored_def history_inv_def
        line_inv_def line_def pane_ok_def input_inv_def inventory_shape_def inventory.defs)
  have p: "ui_inv (pane.extend p x) = ui_inv p" for p :: pane and x :: "'b"
    by (simp add: ui_inv_def pane_inv_def shell_inv_def con_inv_def con_shape_def mirrored_def history_inv_def
        line_inv_def line_def pane_ok_def input_inv_def pane.defs)
  have "ui_inv one_pane"
    using one_pane_inv by (simp add: ui_inv_def input_inv_def)
      (simp add: one_pane_def pane_statics_def typing_shell_def shell_statics_def pane.defs shell.defs console.defs
        blank_console_def console_statics_def)
  then have u: "ui_inv booting_acpi" by (simp add: booting_acpi_def acpi_statics_def inventory_statics_def m p)
  have i: "inventory_shape booting_acpi" by (simp add: booting_acpi_def acpi_statics_def m)
  have "pci_devices booting_acpi = 0 \<and> length (acpi_tables booting_acpi) = 16 \<and> acpi_table_count booting_acpi = 0"
    by (simp add: booting_acpi_def acpi_statics_def inventory_statics_def acpi.defs inventory.defs pane.defs)
  then show ?thesis using u i by (simp add: system_inv_def)
qed

text \<open>C8. The command interpreter: for every terminated command line and well-formed system it
  returns, or the processor stays halted, for the three commands that end the kernel. It keeps
  the invariants of console, shell, panes, keyboard queue, inventory and ACPI, and has the
  effect of the command: the exact help text, a cleared screen, the exact inventory report
  with every number in full, the quadrant layout, nothing for an empty line, and
  \<open>Unknown command\<close> for any other. \<open>restart\<close> announces itself and stops after pulsing the reset
  line through the keyboard controller, \<open>shutdown\<close> after writing the power-off values of the FADT
  to both control registers, \<open>exit\<close> without touching a port, each with its own message.\<close>

theorem command_effects:
  assumes "system_inv s" and "uart_ready hw" and "terminated cmd"
  shows "wp (console_execute_command hw cmd s) (\<lambda>r. command_ok r \<and> command_effect hw (c_str cmd) s r)"
  by (rule execute_command_wp [OF assms])

theorem command_effects_witness:
  "wp (console_execute_command quiet_machine (c_lit ''dir'') booting_acpi)
    (\<lambda>r. \<exists>t. r = Continue t \<and> system_inv t \<and> outputs ''Unknown command\<newline>'' booting_acpi t) \<and>
   wp (console_execute_command quiet_machine (c_lit ''restart'') booting_acpi)
    (\<lambda>r. \<exists>t. outputs ''Rebooting system...\<newline>'' booting_acpi t \<and> r = Halted (t\<lparr>trace := OutB 0x64 0xFE # trace t\<rparr>))"
proof
  note run = wp_mono [OF command_effects [OF booting_system quiet_machine_ready terminated_lit]]
  show "wp (console_execute_command quiet_machine (c_lit ''dir'') booting_acpi)
    (\<lambda>r. \<exists>t. r = Continue t \<and> system_inv t \<and> outputs ''Unknown command\<newline>'' booting_acpi t)"
    by (rule run) (auto simp: command_effect_def command_ok_def)
  have "nmi_wakes quiet_machine = 0" by (simp add: quiet_machine_def)
  then show "wp (console_execute_command quiet_machine (c_lit ''restart'') booting_acpi)
    (\<lambda>r. \<exists>t. outputs ''Rebooting system...\<newline>'' booting_acpi t \<and> r = Halted (t\<lparr>trace := OutB 0x64 0xFE # trace t\<rparr>))"
    by (intro run) (auto simp: command_effect_def stops_def)
qed

end
