(* ===== verification/Simulation.thy ===== *)
theory Simulation
  imports LifeOS_Prelude
begin

text \<open>
  An implementation that follows its specification call by call follows it through every
  sequence of calls. \<open>step\<close> is the code's call, \<open>spec\<close> the same call on the abstract state that \<open>abs\<close>
  reads off, \<open>ok\<close> what the caller has to ensure, \<open>frame\<close> what a call leaves alone. The file system
  is such an implementation of a directory; the window and the shell, whose calls are keys and
  return nothing, are such implementations of a text and of a session.
\<close>

section \<open>Sequences of calls\<close>

primrec run_calls :: "('c \<Rightarrow> 's \<Rightarrow> ('r \<times> 's) option) \<Rightarrow> 'c list \<Rightarrow> 's \<Rightarrow> ('r list \<times> 's) option" where
  "run_calls step [] s = Some ([], s)"
| "run_calls step (c # cs) s = do { (r, s) \<leftarrow> step c s; (rs, s) \<leftarrow> run_calls step cs s; Some (r # rs, s) }"

primrec spec_calls :: "('c \<Rightarrow> 'a \<Rightarrow> 'r \<times> 'a) \<Rightarrow> 'c list \<Rightarrow> 'a \<Rightarrow> 'r list \<times> 'a" where
  "spec_calls spec [] a = ([], a)"
| "spec_calls spec (c # cs) a = (let (r, a) = spec c a; (rs, a) = spec_calls spec cs a in (r # rs, a))"

primrec calls_ok :: "('c \<Rightarrow> 'a \<Rightarrow> bool) \<Rightarrow> ('c \<Rightarrow> 'a \<Rightarrow> 'r \<times> 'a) \<Rightarrow> 'c list \<Rightarrow> 'a \<Rightarrow> bool" where
  "calls_ok ok spec [] a = True"
| "calls_ok ok spec (c # cs) a = (ok c a \<and> calls_ok ok spec cs (snd (spec c a)))"

section \<open>Calls with results\<close>

locale simulation =
  fixes step :: "'c \<Rightarrow> 's \<Rightarrow> ('r \<times> 's) option"
    and spec :: "'c \<Rightarrow> 'a \<Rightarrow> 'r \<times> 'a"
    and abs :: "'s \<Rightarrow> 'a"
    and inv :: "'s \<Rightarrow> bool"
    and ok :: "'c \<Rightarrow> 'a \<Rightarrow> bool"
    and frame :: "'s \<Rightarrow> 's \<Rightarrow> bool"
  assumes step_follows: "inv s \<Longrightarrow> ok c (abs s) \<Longrightarrow>
      wp (step c s) (\<lambda>(r, t). inv t \<and> (r, abs t) = spec c (abs s) \<and> frame s t)"
    and frame_refl: "frame s s"
    and frame_trans: "frame s t \<Longrightarrow> frame t u \<Longrightarrow> frame s u"
begin

lemma calls_follow:
  assumes "inv s" and "calls_ok ok spec cs (abs s)"
  shows "wp (run_calls step cs s) (\<lambda>(rs, t). inv t \<and> (rs, abs t) = spec_calls spec cs (abs s) \<and> frame s t)"
  using assms
proof (induction cs arbitrary: s)
  case Nil
  then show ?case by (simp add: frame_refl)
next
  case (Cons c cs)
  then obtain r t where t: "step c s = Some (r, t)" "inv t" "spec c (abs s) = (r, abs t)" "frame s t"
    using step_follows [of s c] by (auto simp: wp_iff_Some)
  then have "wp (run_calls step cs t) (\<lambda>(rs, u). inv u \<and> (rs, abs u) = spec_calls spec cs (abs t) \<and> frame t u)"
    using Cons.IH [of t] Cons.prems(2) by simp
  then obtain rs u where "run_calls step cs t = Some (rs, u)" "inv u" "spec_calls spec cs (abs t) = (rs, abs u)" "frame t u"
    by (auto simp: wp_iff_Some)
  with t frame_trans show ?case by simp
qed

end

section \<open>Calls without results\<close>

lemma for_each_calls: "for_each cs step s = map_option snd (run_calls (\<lambda>c s. map_option (Pair ()) (step c s)) cs s)"
proof (induction cs arbitrary: s)
  case (Cons c cs)
  then show ?case
    by (cases "step c s") (auto simp: map_option_case split: option.splits)
qed simp

lemma fold_calls: "snd (spec_calls (\<lambda>c a. ((), spec c a)) cs a) = fold spec cs a"
  by (induction cs arbitrary: a) (auto simp: split_beta Let_def)

lemma silent_ok: "calls_ok (\<lambda>c a. ok c) spec cs a = list_all ok cs"
  by (induction cs arbitrary: a) simp_all

locale silent_simulation =
  fixes step :: "'c \<Rightarrow> 's \<Rightarrow> 's option"
    and spec :: "'c \<Rightarrow> 'a \<Rightarrow> 'a"
    and abs :: "'s \<Rightarrow> 'a"
    and inv :: "'s \<Rightarrow> bool"
    and ok :: "'c \<Rightarrow> bool"
    and frame :: "'s \<Rightarrow> 's \<Rightarrow> bool"
  assumes step_follows: "inv s \<Longrightarrow> ok c \<Longrightarrow> wp (step c s) (\<lambda>t. inv t \<and> abs t = spec c (abs s) \<and> frame s t)"
    and frame_refl: "frame s s"
    and frame_trans: "frame s t \<Longrightarrow> frame t u \<Longrightarrow> frame s u"

sublocale silent_simulation \<subseteq> calls: simulation "\<lambda>c s. map_option (Pair ()) (step c s)" "\<lambda>c a. ((), spec c a)"
    abs inv "\<lambda>c a. ok c" frame
proof
  fix s c assume "inv s" and "ok c"
  from step_follows [OF this]
  show "wp (map_option (Pair ()) (step c s)) (\<lambda>(r, t). inv t \<and> (r, abs t) = ((), spec c (abs s)) \<and> frame s t)"
    by (cases "step c s") simp_all
qed (auto intro: frame_refl frame_trans)

context silent_simulation
begin

lemma keys_follow:
  assumes "inv s" and "list_all ok cs"
  shows "wp (for_each cs step s) (\<lambda>t. inv t \<and> abs t = fold spec cs (abs s) \<and> frame s t)"
proof -
  have "calls_ok (\<lambda>c a. ok c) (\<lambda>c a. ((), spec c a)) cs (abs s)" using assms(2) by (simp add: silent_ok)
  from calls.calls_follow [OF assms(1) this] fold_calls [of spec cs "abs s"] show ?thesis
    unfolding for_each_calls [of cs step]
    by (cases "run_calls (\<lambda>c s. map_option (Pair ()) (step c s)) cs s") (auto dest: arg_cong [where f = snd])
qed

end

end
