(* ===== verification/Shell_Task.thy ===== *)
theory Shell_Task
  imports Command Simulation
begin

text \<open>
  The loop of \<open>shell_task\<close> in \<open>src/kernel/console/shell.c\<close>: one key at a time is taken from the
  queue and edits the line, walks through the history or runs the command. The specification
  is a session: a text with a cursor, the remembered commands, newest first, and the place in
  them; the lemmas show that the loop implements it and what it leaves on the screen.
\<close>

section \<open>Operations\<close>

definition shell_enter :: "hardware \<Rightarrow> 'a acpi_scheme \<Rightarrow> 'a acpi_scheme control option" where
  "shell_enter hw s = do {
     s \<leftarrow> put_cmd (cmd_len s) NUL s;
     let s = console_set_cursor (to_u8 (prompt_x s + disp_len s)) (prompt_y s) s;
     s \<leftarrow> console_putc hw NEWLINE s;
     s \<leftarrow> (if cmd_len s > 0 then history_add (cmd_buf s) s else Some s);
     let s = s\<lparr>history_nav := -1\<rparr>;
     r \<leftarrow> console_execute_command hw (cmd_buf s) s;
     (case r of Continue s \<Rightarrow> continue (shell_show_prompt hw s) | Halted s \<Rightarrow> Some (Halted s)) }"

definition shell_backspace :: "hardware \<Rightarrow> 'a shell_scheme \<Rightarrow> 'a shell_scheme option" where
  "shell_backspace hw s =
     (if cmd_pos s > 0 then do { s \<leftarrow> line_backspace s; redraw_line hw s } else Some s)"

definition shell_left :: "'a shell_scheme \<Rightarrow> 'a shell_scheme" where
  "shell_left s =
     (if cmd_pos s > 0
      then let s = s\<lparr>cmd_pos := cmd_pos s - 1\<rparr>
           in console_set_cursor (to_u8 (prompt_x s + cmd_pos s)) (prompt_y s) s
      else s)"

definition shell_right :: "'a shell_scheme \<Rightarrow> 'a shell_scheme" where
  "shell_right s =
     (if cmd_pos s < cmd_len s
      then let s = s\<lparr>cmd_pos := cmd_pos s + 1\<rparr>
           in console_set_cursor (to_u8 (prompt_x s + cmd_pos s)) (prompt_y s) s
      else s)"

definition shell_up :: "hardware \<Rightarrow> 'a shell_scheme \<Rightarrow> 'a shell_scheme option" where
  "shell_up hw s =
     (if history_count s > 0 \<and> history_nav s < int (history_count s) - 1 then do {
        let s = s\<lparr>history_nav := history_nav s + 1\<rparr>;
        h \<leftarrow> history_get (history_nav s) s;
        s \<leftarrow> line_load h s;
        redraw_line hw s }
      else Some s)"

definition shell_down :: "hardware \<Rightarrow> 'a shell_scheme \<Rightarrow> 'a shell_scheme option" where
  "shell_down hw s =
     (if history_nav s \<ge> 0 then do {
        let s = s\<lparr>history_nav := history_nav s - 1\<rparr>;
        h \<leftarrow> (if history_nav s \<ge> 0 then history_get (history_nav s) s else Some (c_lit ''''));
        s \<leftarrow> line_load h s;
        redraw_line hw s }
      else Some s)"

definition shell_type :: "hardware \<Rightarrow> char \<Rightarrow> 'a shell_scheme \<Rightarrow> 'a shell_scheme option" where
  "shell_type hw c s = do {
     s \<leftarrow> (if cmd_len s < CMD_BUF_SIZE - 1 then do { s \<leftarrow> line_insert c s; redraw_line hw s } else Some s);
     Some (s\<lparr>history_nav := -1\<rparr>) }"

definition shell_key :: "hardware \<Rightarrow> char \<Rightarrow> 'a acpi_scheme \<Rightarrow> 'a acpi_scheme control option" where
  "shell_key hw c s =
     (if c = NEWLINE then shell_enter hw s
      else if c = BACKSPACE then continue (shell_backspace hw s)
      else if c = KEY_LEFT then Some (Continue (shell_left s))
      else if c = KEY_RIGHT then Some (Continue (shell_right s))
      else if c = KEY_UP then continue (shell_up hw s)
      else if c = KEY_DOWN then continue (shell_down hw s)
      else continue (shell_type hw c s))"

text \<open>One round of the loop, up to its \<open>sched_yield\<close>.\<close>

definition shell_round :: "hardware \<Rightarrow> 'a acpi_scheme \<Rightarrow> 'a acpi_scheme control option" where
  "shell_round hw s = do {
     (c, s) \<leftarrow> console_getc s;
     if c \<noteq> NUL then shell_key hw c s else Some (Continue s) }"

section \<open>The session\<close>

record session =
  ses_text :: string
  ses_pos :: nat
  ses_past :: "string list"             \<comment> \<open>newest first\<close>
  ses_nav :: int                        \<comment> \<open>\<open>-1\<close> when not browsing\<close>

definition session_of :: "'a shell_scheme \<Rightarrow> session" where
  "session_of s = \<lparr>ses_text = line s, ses_pos = cmd_pos s, ses_past = rev (history_slots s),
     ses_nav = history_nav s\<rparr>"

definition ses_recall :: "int \<Rightarrow> session \<Rightarrow> session" where
  "ses_recall k e = (let t = (if k < 0 then [] else ses_past e ! nat k)
     in e\<lparr>ses_text := t, ses_pos := length t, ses_nav := k\<rparr>)"

definition ses_edit :: "editor \<Rightarrow> session \<Rightarrow> session" where
  "ses_edit d e = e\<lparr>ses_text := fst d, ses_pos := snd d\<rparr>"

text \<open>Which keys change the text, and how a key changes the session.\<close>

definition ses_changes :: "char \<Rightarrow> session \<Rightarrow> bool" where
  "ses_changes c e =
     (if c = BACKSPACE then 0 < ses_pos e else if c \<in> {KEY_LEFT, KEY_RIGHT} then False
      else if c = KEY_UP then ses_nav e + 1 < int (length (ses_past e))
      else if c = KEY_DOWN then 0 \<le> ses_nav e else length (ses_text e) < 127)"

definition ses_key :: "char \<Rightarrow> session \<Rightarrow> session" where
  "ses_key c e =
     (if c = BACKSPACE then if 0 < ses_pos e then ses_edit (ed_backspace (ses_text e, ses_pos e)) e else e
      else if c = KEY_LEFT then e\<lparr>ses_pos := ses_pos e - 1\<rparr>
      else if c = KEY_RIGHT then e\<lparr>ses_pos := min (length (ses_text e)) (ses_pos e + 1)\<rparr>
      else if c = KEY_UP
      then if ses_nav e + 1 < int (length (ses_past e)) then ses_recall (ses_nav e + 1) e else e
      else if c = KEY_DOWN then if 0 \<le> ses_nav e then ses_recall (ses_nav e - 1) e else e
      else (if length (ses_text e) < 127 then ses_edit (ed_insert c (ses_text e, ses_pos e)) e
            else e)\<lparr>ses_nav := -1\<rparr>)"

section \<open>Editing keys\<close>

lemma session_of_eqI:
  assumes "editor_of t = editor_of s" "history_slots t = history_slots s" "history_nav t = history_nav s"
  shows "session_of t = session_of s"
  using assms by (simp add: session_of_def editor_of_def)

text \<open>A change of the shell's variables, with the layers above the panes and the keyboard left alone.\<close>

lemma system_inv_shell:
  fixes s t :: "'a acpi_scheme"
  assumes "system_inv s" and "shell_inv t" and "con_keep t = con_keep s" and "shell.more t = shell.more s"
  shows "system_inv t"
proof -
  have "pane_ok t = pane_ok s" using assms(4) by (cases s; cases t) (simp add: pane_ok_def)
  moreover have "inventory_shape t = inventory_shape s" "pci_devices t = pci_devices s"
    "acpi_tables t = acpi_tables s" "acpi_table_count t = acpi_table_count s"
    using assms(4) by (cases s; cases t; simp add: inventory_shape_def)+
  ultimately show ?thesis
    using assms(1,2) input_inv_keep [OF assms(3)] by (simp add: system_inv_def ui_inv_def pane_inv_def)
qed

lemma system_inv_shellD:
  assumes "system_inv s"
  shows "shell_inv s" "con_inv s" "history_inv s" "line_inv s" "prompt_x s < 80" "prompt_y s < 25"
    "-1 \<le> history_nav s" "history_nav s < int (history_count s)" "length (history_slots s) = history_count s"
  using assms by (simp_all add: system_inv_def ui_inv_def pane_inv_def shell_inv_def history_slots_def)

text \<open>The effect of an editing key: the session changes as specified, the screen shows the new
  line or the new cursor, and nothing else changes.\<close>

definition key_shown :: "char \<Rightarrow> 'a acpi_scheme \<Rightarrow> 'a acpi_scheme \<Rightarrow> bool" where
  "key_shown c s t \<longleftrightarrow> con_term t =
     (if ses_changes c (session_of s)
      then term_redraw (vga_color s) (prompt_x s) (prompt_y s) (disp_len s) (line t) (cmd_pos t) (con_term s)
      else if cmd_pos t = cmd_pos s then con_term s
      else term_goto (prompt_x s + cmd_pos t) (prompt_y s) (con_term s))"

definition key_effect :: "char \<Rightarrow> 'a acpi_scheme \<Rightarrow> 'a acpi_scheme \<Rightarrow> bool" where
  "key_effect c s t \<longleftrightarrow> system_inv t \<and> session_of t = ses_key c (session_of s) \<and> key_shown c s t \<and>
     con_keep t = con_keep s \<and> prompt_x t = prompt_x s \<and> prompt_y t = prompt_y s"

text \<open>The redisplay after the variables of the line have changed.\<close>

definition reline :: "'a shell_scheme \<Rightarrow> 'a shell_scheme \<Rightarrow> bool" where
  "reline s u \<longleftrightarrow> line_inv u \<and> -1 \<le> history_nav u \<and> history_nav u < int (history_count s) \<and>
     u = s\<lparr>cmd_buf := cmd_buf u, cmd_len := cmd_len u, cmd_pos := cmd_pos u, history_nav := history_nav u\<rparr>"

lemma relineD:
  fixes s u :: "'a shell_scheme"
  assumes "reline s u"
  shows "con_inv u = con_inv s" "con_term u = con_term s" "con_keep u = con_keep s" "history_inv u = history_inv s"
    "history_slots u = history_slots s" "history_count u = history_count s" "disp_len u = disp_len s"
    "prompt_x u = prompt_x s" "prompt_y u = prompt_y s" "shell.more u = shell.more s" "vga_color u = vga_color s"
proof -
  obtain b n p k where u: "u = s\<lparr>cmd_buf := b, cmd_len := n, cmd_pos := p, history_nav := k\<rparr>"
    using assms unfolding reline_def by blast
  show "con_inv u = con_inv s" "con_term u = con_term s" "con_keep u = con_keep s" "history_inv u = history_inv s"
    "history_slots u = history_slots s" "history_count u = history_count s" "disp_len u = disp_len s"
    "prompt_x u = prompt_x s" "prompt_y u = prompt_y s" "shell.more u = shell.more s" "vga_color u = vga_color s"
    unfolding u by (simp_all add: history_inv_def history_slots_def)
qed

lemma reline_redraw:
  fixes s u :: "'a acpi_scheme"
  assumes "system_inv s" and "reline s u" and "uart_ready hw"
  shows "wp (redraw_line hw u) (\<lambda>t. system_inv t \<and> session_of t = session_of u \<and> line t = line u \<and>
    cmd_pos t = cmd_pos u \<and> con_keep t = con_keep s \<and> prompt_x t = prompt_x s \<and> prompt_y t = prompt_y s \<and>
    shell_keep t = shell_keep u \<and>
    con_term t = term_redraw (vga_color s) (prompt_x s) (prompt_y s) (disp_len s) (line u) (cmd_pos u) (con_term s))"
proof -
  note i = system_inv_shellD [OF assms(1)] and r = relineD [OF assms(2)]
  have u: "con_inv u" "line_inv u" "prompt_x u < 80" using i r assms(2) by (simp_all add: reline_def)
  show ?thesis
  proof (rule wp_mono [OF redraw_line_wp [OF u assms(3)]])
    fix t :: "'a acpi_scheme"
    assume t: "draws (term_redraw (vga_color u) (prompt_x u) (prompt_y u) (disp_len u) (line u) (cmd_pos u)) u t \<and>
      console.more t = console.more (u\<lparr>disp_len := cmd_len u\<rparr>)"
    note f = shell_fields [OF conjunct2 [OF t]]
    have l: "line t = line u" "line_inv t = line_inv u" using f by (simp_all add: line_def line_inv_def)
    have h: "history_slots t = history_slots u" "history_inv t = history_inv u"
      using f by (simp_all add: history_slots_def history_inv_def)
    have "cmd_len u \<le> 127" using u(2) by (simp add: line_inv_def)
    then have "shell_inv t"
      using t f l h u i r assms(2) by (simp add: shell_inv_def draws_def reline_def)
    moreover have "con_keep t = con_keep s" using t r by (simp add: draws_def)
    moreover have m: "shell.more t = shell.more u" using f(11) by simp
    ultimately have "system_inv t" using system_inv_shell [OF assms(1)] r by metis
    moreover have "pane.more t = pane.more u" using m by (cases t; cases u) simp
    ultimately show "system_inv t \<and> session_of t = session_of u \<and> line t = line u \<and>
      cmd_pos t = cmd_pos u \<and> con_keep t = con_keep s \<and> prompt_x t = prompt_x s \<and> prompt_y t = prompt_y s \<and>
      shell_keep t = shell_keep u \<and>
      con_term t = term_redraw (vga_color s) (prompt_x s) (prompt_y s) (disp_len s) (line u) (cmd_pos u) (con_term s)"
      using t f l h r by (simp add: session_of_def draws_def shell_keep_def)
  qed
qed

text \<open>Every editing key changes line and cursor by an operation of the editor, perhaps after moving
  in the history.\<close>

lemma edits_reline:
  fixes s u :: "'a shell_scheme"
  assumes "edits d (s\<lparr>history_nav := k\<rparr>) u" and "-1 \<le> k" and "k < int (history_count s)"
  shows "reline s u" and "session_of u = (session_of s)\<lparr>ses_text := fst d, ses_pos := snd d, ses_nav := k\<rparr>"
    and "shell_base s \<Longrightarrow> cmd_pos u = snd d \<and> line u = fst d \<and> history_nav u = k"
proof -
  have u: "line_inv u" "editor_of u = d"
    "u = s\<lparr>history_nav := k, cmd_buf := cmd_buf u, cmd_len := cmd_len u, cmd_pos := cmd_pos u\<rparr>"
    using assms(1) by (simp_all add: edits_def)
  from arg_cong [OF u(3), of history_nav] have nav: "history_nav u = k" by simp
  have "u = s\<lparr>cmd_buf := cmd_buf u, cmd_len := cmd_len u, cmd_pos := cmd_pos u, history_nav := history_nav u\<rparr>"
    unfolding nav by (rule trans [OF u(3)]) (cases s, simp)
  then show r: "reline s u" using u(1) nav assms(2,3) by (simp add: reline_def)
  show "session_of u = (session_of s)\<lparr>ses_text := fst d, ses_pos := snd d, ses_nav := k\<rparr>"
    using u(2) nav relineD(5) [OF r] by (auto simp: session_of_def editor_of_def)
  show "cmd_pos u = snd d \<and> line u = fst d \<and> history_nav u = k"
    using u(2) nav by (auto simp: editor_of_def)
qed

lemma edit_redraw:
  fixes s :: "'a acpi_scheme"
  assumes "system_inv s" and "uart_ready hw" and "-1 \<le> k" and "k < int (history_count s)"
    and "wp m (edits d (s\<lparr>history_nav := k\<rparr>))" and "ses_changes c (session_of s)"
    and "ses_key c (session_of s) = (session_of s)\<lparr>ses_text := fst d, ses_pos := snd d, ses_nav := k\<rparr>"
  shows "wp (do { u \<leftarrow> m; redraw_line hw u }) (key_effect c s)"
proof (rule wp_seq [OF assms(5)])
  fix u :: "'a acpi_scheme"
  assume "edits d (s\<lparr>history_nav := k\<rparr>) u"
  note e = edits_reline [OF this assms(3,4)]
  show "wp (redraw_line hw u) (key_effect c s)"
    by (rule wp_mono [OF reline_redraw [OF assms(1) e(1) assms(2)]])
      (use e(2) assms(6,7) in \<open>simp add: key_effect_def key_shown_def\<close>)
qed

lemma session_simps [simp]:
  "ses_text (session_of s) = line s" "ses_pos (session_of s) = cmd_pos s"
  "ses_past (session_of s) = rev (history_slots s)" "ses_nav (session_of s) = history_nav s"
  by (simp_all add: session_of_def)

lemma nav_same: "s\<lparr>history_nav := history_nav s\<rparr> = s"
  by simp

text \<open>Keys that change nothing on the screen, and moves of the cursor.\<close>

lemma key_effect_refl:
  assumes "system_inv s" and "\<not> ses_changes c (session_of s)" and "ses_key c (session_of s) = session_of s"
  shows "key_effect c s s"
  using assms by (simp add: key_effect_def key_shown_def)

lemma cursor_key:
  fixes s :: "'a acpi_scheme"
  assumes "system_inv s" and "p \<le> cmd_len s" and "p \<noteq> cmd_pos s" and "\<not> ses_changes c (session_of s)"
    and "ses_key c (session_of s) = (session_of s)\<lparr>ses_pos := p\<rparr>"
  shows "key_effect c s (console_set_cursor (to_u8 (prompt_x s + p)) (prompt_y s) (s\<lparr>cmd_pos := p\<rparr>))"
proof -
  note i = system_inv_shellD [OF assms(1)]
  let ?u = "s\<lparr>cmd_pos := p\<rparr>"
  let ?t = "console_set_cursor (prompt_x s + p) (prompt_y s) ?u"
  have pos: "to_u8 (prompt_x s + p) = prompt_x s + p"
    using i(4,5) assms(2) by (intro to_u8_id) (simp add: line_inv_def)
  have "con_inv ?u" using i(2) by simp
  note t = set_cursor_draws [OF this, of "prompt_x s + p" "prompt_y s"]
  note f = shell_fields [OF conjunct2 [OF t]]
  have l: "line ?t = line s" "line_inv ?t" using f i(4) assms(2) by (simp_all add: line_def line_inv_def)
  have h: "history_slots ?t = history_slots s" "history_inv ?t" using f i(3)
    by (simp_all add: history_slots_def history_inv_def)
  have "shell_inv ?t" using t l h f i by (simp add: shell_inv_def draws_def system_inv_def ui_inv_def pane_inv_def)
  moreover have "con_keep ?t = con_keep s" using t by (simp add: draws_def)
  moreover have "shell.more ?t = shell.more s" using f(11) by simp
  ultimately have "system_inv ?t" using system_inv_shell [OF assms(1)] by metis
  then show ?thesis
    using t f l h assms(3,4,5) unfolding pos
    by (simp add: key_effect_def key_shown_def draws_def session_of_def)
qed

lemma forget_nav:
  fixes s :: "'a acpi_scheme"
  shows "system_inv s \<Longrightarrow> system_inv (s\<lparr>history_nav := -1\<rparr>)"
    and "session_of (s\<lparr>history_nav := -1\<rparr>) = (session_of s)\<lparr>ses_nav := -1\<rparr>"
    and "line (s\<lparr>history_nav := -1\<rparr>) = line s"
    and "history_slots (s\<lparr>history_nav := -1\<rparr>) = history_slots s"
proof -
  show "line (s\<lparr>history_nav := -1\<rparr>) = line s" "history_slots (s\<lparr>history_nav := -1\<rparr>) = history_slots s"
    by (simp_all add: line_def history_slots_def)
  then show "session_of (s\<lparr>history_nav := -1\<rparr>) = (session_of s)\<lparr>ses_nav := -1\<rparr>"
    by (simp add: session_of_def)
  assume s: "system_inv s"
  have "shell_inv (s\<lparr>history_nav := -1\<rparr>)"
    using system_inv_shellD [OF s] s
    by (simp add: shell_inv_def history_inv_def line_inv_def line_def system_inv_def ui_inv_def pane_inv_def)
  then show "system_inv (s\<lparr>history_nav := -1\<rparr>)" by (rule system_inv_shell [OF s]) simp_all
qed

lemma continue_key: "wp m (key_effect c s) \<Longrightarrow> wp (continue m) (\<lambda>r. \<exists>t. r = Continue t \<and> key_effect c s t)"
  by (rule continue_wp) simp

lemma shell_backspace_wp:
  assumes "system_inv s" and "uart_ready hw"
  shows "wp (shell_backspace hw s) (key_effect BACKSPACE s)"
proof (cases "cmd_pos s > 0")
  case True
  note i = system_inv_shellD [OF assms(1)]
  have "wp (line_backspace s) (edits (ed_backspace (editor_of s)) (s\<lparr>history_nav := history_nav s\<rparr>))"
    using line_backspace_wp [OF i(4) True] by simp
  from edit_redraw [OF assms i(7,8) this] True show ?thesis
    by (simp add: shell_backspace_def ses_changes_def ses_key_def ses_edit_def editor_of_def session_of_def)
next
  case False
  with key_effect_refl [OF assms(1)] show ?thesis
    by (simp add: shell_backspace_def ses_changes_def ses_key_def)
qed

lemma shell_left_effect:
  assumes "system_inv s"
  shows "key_effect KEY_LEFT s (shell_left s)"
proof (cases "cmd_pos s > 0")
  case True
  have "cmd_pos s - 1 \<le> cmd_len s" using line_invD(3) [OF system_inv_shellD(4) [OF assms]] by linarith
  from cursor_key [OF assms this] True show ?thesis
    by (simp add: shell_left_def ses_changes_def ses_key_def Let_def)
next
  case False
  with key_effect_refl [OF assms] show ?thesis
    by (simp add: shell_left_def ses_changes_def ses_key_def session_of_def)
qed

lemma shell_right_effect:
  assumes "system_inv s"
  shows "key_effect KEY_RIGHT s (shell_right s)"
proof (cases "cmd_pos s < cmd_len s")
  case True
  then have "cmd_pos s + 1 \<le> cmd_len s" by simp
  from cursor_key [OF assms this] True line_invD [OF system_inv_shellD(4) [OF assms]] show ?thesis
    by (simp add: shell_right_def ses_changes_def ses_key_def Let_def)
next
  case False
  with line_invD [OF system_inv_shellD(4) [OF assms]] key_effect_refl [OF assms] show ?thesis
    by (simp add: shell_right_def ses_changes_def ses_key_def session_of_def)
qed

text \<open>A remembered command fits into the buffer.\<close>

lemma history_slots_short:
  assumes "history_inv s" and "x \<in> set (history_slots s)"
  shows "length x \<le> 127"
proof -
  note d = history_invD [OF assms(1)]
  have "history_count s \<le> 8" by (rule d(6))
  with assms(2) obtain k where k: "k < history_count s"
    "x = map c_str (history s) ! (((history_index s + 8 - history_count s) mod 8 + k) mod 8)"
    unfolding history_slots_def by (auto simp: in_set_conv_nth ring_nth d(2))
  let ?i = "((history_index s + 8 - history_count s) mod 8 + k) mod 8"
  have i: "?i < 8" by simp
  have x: "x = c_str (history s ! ?i)" using k(2) i d(2) by simp
  have "terminated (history s ! ?i)" "length (history s ! ?i) = 128" using d(3,4) i by blast+
  then have "c_str (history s ! ?i) \<noteq> history s ! ?i" using c_str_no_NUL [of "history s ! ?i"]
    by (metis terminated_def)
  then have "length (c_str (history s ! ?i)) \<noteq> 128"
    using \<open>length (history s ! ?i) = 128\<close> takeWhile_eq_take [of "\<lambda>c. c \<noteq> NUL" "history s ! ?i"]
    by (auto simp: c_str_def)
  then have "length (c_str (history s ! ?i)) < 128"
    using length_takeWhile_le [of "\<lambda>c. c \<noteq> NUL" "history s ! ?i"] \<open>length (history s ! ?i) = 128\<close>
    by (simp add: c_str_def)
  then show ?thesis unfolding x by simp
qed

lemma shell_recall:
  fixes s :: "'a acpi_scheme"
  assumes "system_inv s" and "-1 \<le> k" and "k < int (history_count s)"
    and "h = (if k \<ge> 0 then history_get k (s\<lparr>history_nav := k\<rparr>) else Some (c_lit ''''))"
  shows "wp (Option.bind h (\<lambda>h. line_load h (s\<lparr>history_nav := k\<rparr>)))
    (edits (let t = (if k < 0 then [] else rev (history_slots s) ! nat k) in (t, length t)) (s\<lparr>history_nav := k\<rparr>))"
proof -
  note i = system_inv_shellD [OF assms(1)]
  let ?u = "s\<lparr>history_nav := k\<rparr>"
  let ?t = "if k < 0 then [] else rev (history_slots s) ! nat k"
  have u: "history_inv ?u" "line_inv ?u" "history_slots ?u = history_slots s"
    using i by (simp_all add: history_inv_def line_inv_def line_def history_slots_def)
  have short: "length ?t \<le> 127"
  proof (cases "k < 0")
    case False
    then have "nat k < length (rev (history_slots s))" using i(9) assms(3) by auto
    then have "rev (history_slots s) ! nat k \<in> set (rev (history_slots s))" by (rule nth_mem)
    then show ?thesis using history_slots_short [OF i(3), of "rev (history_slots s) ! nat k"] False
      by (simp only: set_rev if_False)
  qed simp
  have h: "wp h (\<lambda>h. terminated h \<and> c_str h = ?t)"
  proof (cases "k < 0")
    case True
    then show ?thesis by (simp add: assms(4))
  next
    case False
    then have k: "0 \<le> k" by simp
    have c: "k < int (history_count ?u)" using assms(3) by simp
    show ?thesis
      using history_get_wp [OF u(1), of k] k c False unfolding u(3) assms(4) by simp
  qed
  show ?thesis
  proof (rule wp_seq [OF h])
    fix h assume "terminated h \<and> c_str h = ?t"
    with line_load_wp [OF u(2), of h] short
    show "wp (line_load h ?u) (edits (let t = ?t in (t, length t)) ?u)" by (simp add: Let_def)
  qed
qed

lemma shell_up_wp:
  assumes "system_inv s" and "uart_ready hw"
  shows "wp (shell_up hw s) (key_effect KEY_UP s)"
proof -
  note i = system_inv_shellD [OF assms(1)]
  let ?k = "history_nav s + 1"
  have len: "length (ses_past (session_of s)) = history_count s" using i(9) by simp
  show ?thesis
  proof (cases "?k < int (history_count s)")
    case True
    have k: "-1 \<le> ?k" "0 \<le> ?k" using i(7) by simp_all
    have run: "shell_up hw s = do { u \<leftarrow> Option.bind (history_get ?k (s\<lparr>history_nav := ?k\<rparr>))
        (\<lambda>h. line_load h (s\<lparr>history_nav := ?k\<rparr>)); redraw_line hw u }"
      using True i(7) by (simp add: shell_up_def Let_def)
    have "history_get ?k (s\<lparr>history_nav := ?k\<rparr>) =
        (if ?k \<ge> 0 then history_get ?k (s\<lparr>history_nav := ?k\<rparr>) else Some (c_lit ''''))"
      using k(2) by simp
    from edit_redraw [OF assms k(1) True shell_recall [OF assms(1) k(1) True this], of KEY_UP] True len k
    show ?thesis
      unfolding run by (simp add: ses_changes_def ses_key_def ses_recall_def Let_def)
  next
    case False
    then have "shell_up hw s = Some s" by (simp add: shell_up_def)
    moreover have "key_effect KEY_UP s s"
      by (rule key_effect_refl [OF assms(1)]) (use False len in \<open>simp_all add: ses_changes_def ses_key_def\<close>)
    ultimately show ?thesis by simp
  qed
qed

lemma shell_down_wp:
  assumes "system_inv s" and "uart_ready hw"
  shows "wp (shell_down hw s) (key_effect KEY_DOWN s)"
proof -
  note i = system_inv_shellD [OF assms(1)]
  let ?k = "history_nav s - 1"
  show ?thesis
  proof (cases "0 \<le> history_nav s")
    case True
    have k: "-1 \<le> ?k" "?k < int (history_count s)" using i(8) True by simp_all
    have run: "shell_down hw s = do { u \<leftarrow> Option.bind (if ?k \<ge> 0 then history_get ?k (s\<lparr>history_nav := ?k\<rparr>)
        else Some (c_lit '''')) (\<lambda>h. line_load h (s\<lparr>history_nav := ?k\<rparr>)); redraw_line hw u }"
      using True by (simp add: shell_down_def Let_def)
    from edit_redraw [OF assms k shell_recall [OF assms(1) k refl], of KEY_DOWN] True
    show ?thesis
      unfolding run by (simp add: ses_changes_def ses_key_def ses_recall_def Let_def)
  next
    case False
    then have "shell_down hw s = Some s" by (simp add: shell_down_def)
    moreover have "key_effect KEY_DOWN s s"
      by (rule key_effect_refl [OF assms(1)]) (use False in \<open>simp_all add: ses_changes_def ses_key_def\<close>)
    ultimately show ?thesis by simp
  qed
qed

lemma shell_type_wp:
  assumes "system_inv s" and "uart_ready hw" and "c \<noteq> NUL"
    and "c \<notin> {BACKSPACE, KEY_LEFT, KEY_RIGHT, KEY_UP, KEY_DOWN}"
  shows "wp (shell_type hw c s) (key_effect c s)"
proof -
  note i = system_inv_shellD [OF assms(1)]
  have key: "ses_key c e = (if length (ses_text e) < 127 then ses_edit (ed_insert c (ses_text e, ses_pos e)) e
      else e)\<lparr>ses_nav := -1\<rparr>" "ses_changes c e \<longleftrightarrow> length (ses_text e) < 127" for e
    using assms(4) by (simp_all add: ses_key_def ses_changes_def)
  have len: "length (line s) = cmd_len s" using line_invD(5) [OF i(4)] .
  show ?thesis
  proof (cases "cmd_len s < 127")
    case True
    have m: "wp (line_insert c s) (edits (ed_insert c (editor_of s)) (s\<lparr>history_nav := history_nav s\<rparr>))"
      using line_insert_wp [OF i(4) True assms(3)] by simp
    have run: "shell_type hw c s = do { t \<leftarrow> do { u \<leftarrow> line_insert c s; redraw_line hw u };
        Some (t\<lparr>history_nav := -1\<rparr>) }"
      using True by (simp add: shell_type_def)
    show ?thesis unfolding run
    proof (rule wp_seq, rule wp_seq [OF m])
      fix u :: "'a acpi_scheme"
      assume "edits (ed_insert c (editor_of s)) (s\<lparr>history_nav := history_nav s\<rparr>) u"
      note e = edits_reline [OF this i(7,8)]
      show "wp (redraw_line hw u) (\<lambda>t. key_effect c s (t\<lparr>history_nav := -1\<rparr>))"
        by (rule wp_mono [OF reline_redraw [OF assms(1) e(1) assms(2)]])
          (use e(2) True len in
            \<open>simp add: key_effect_def key_shown_def key ses_edit_def editor_of_def session_of_def forget_nav\<close>)
    qed simp
  next
    case False
    have "con_term (s\<lparr>history_nav := -1\<rparr>) = con_term s" by simp
    then show ?thesis
      using False len forget_nav(1) [OF assms(1)] forget_nav(2) [of s]
      by (simp add: shell_type_def key_effect_def key_shown_def key)
  qed
qed

lemma shell_key_wp:
  assumes "system_inv s" and "uart_ready hw" and "c \<noteq> NUL" and "c \<noteq> NEWLINE"
  shows "wp (shell_key hw c s) (\<lambda>r. \<exists>t. r = Continue t \<and> key_effect c s t)"
proof -
  consider "c = BACKSPACE" | "c = KEY_LEFT" | "c = KEY_RIGHT" | "c = KEY_UP" | "c = KEY_DOWN"
    | "c \<notin> {BACKSPACE, KEY_LEFT, KEY_RIGHT, KEY_UP, KEY_DOWN}" by blast
  then show ?thesis
  proof cases
    case 1
    with continue_key [OF shell_backspace_wp [OF assms(1,2)]] show ?thesis by (simp add: shell_key_def)
  next
    case 2
    with shell_left_effect [OF assms(1)] show ?thesis by (simp add: shell_key_def)
  next
    case 3
    with shell_right_effect [OF assms(1)] show ?thesis by (simp add: shell_key_def)
  next
    case 4
    with continue_key [OF shell_up_wp [OF assms(1,2)]] show ?thesis by (simp add: shell_key_def)
  next
    case 5
    with continue_key [OF shell_down_wp [OF assms(1,2)]] show ?thesis by (simp add: shell_key_def)
  next
    case 6
    with continue_key [OF shell_type_wp [OF assms(1,2,3)]] assms(4) show ?thesis by (simp add: shell_key_def)
  qed
qed

text \<open>So the shell follows the session through every sequence of editing keys; a round of the loop
  that does not return to it is no step.\<close>

definition shell_edit :: "hardware \<Rightarrow> char \<Rightarrow> 'a acpi_scheme \<Rightarrow> 'a acpi_scheme option" where
  "shell_edit hw c s = do {
     r \<leftarrow> shell_key hw c s;
     (case r of Continue t \<Rightarrow> Some t | Halted t \<Rightarrow> None) }"

lemma shell_edit_wp:
  assumes "system_inv s" and "uart_ready hw" and "c \<notin> {NUL, NEWLINE}"
  shows "wp (shell_edit hw c s) (key_effect c s)"
  unfolding shell_edit_def by (rule wp_seq [OF shell_key_wp]) (use assms in auto)

interpretation editing: silent_simulation "shell_edit hw" ses_key session_of
    "\<lambda>s :: 'a acpi_scheme. uart_ready hw \<and> system_inv s" "\<lambda>c. c \<notin> {NUL, NEWLINE}"
    "\<lambda>s t. con_keep t = con_keep s" for hw
proof
  fix s :: "'a acpi_scheme" and c
  assume "uart_ready hw \<and> system_inv s" and "c \<notin> {NUL, NEWLINE}"
  then show "wp (shell_edit hw c s)
      (\<lambda>t. (uart_ready hw \<and> system_inv t) \<and> session_of t = ses_key c (session_of s) \<and> con_keep t = con_keep s)"
    by (intro wp_mono [OF shell_edit_wp [of s hw c]]) (auto simp: key_effect_def)
qed simp_all

section \<open>Enter\<close>

text \<open>The line, terminated, is what the command interpreter reads.\<close>

lemma c_str_line:
  assumes "line_inv s"
  shows "c_str ((cmd_buf s)[cmd_len s := NUL]) = line s" and "terminated ((cmd_buf s)[cmd_len s := NUL])"
proof -
  note d = line_invD [OF assms]
  let ?b = "(cmd_buf s)[cmd_len s := NUL]"
  have split: "?b = line s @ NUL # drop (cmd_len s + 1) (cmd_buf s)"
    using d by (simp add: line_def upd_conv_take_nth_drop)
  show "c_str ?b = line s" unfolding split c_str_def using d(4)
    by (subst takeWhile_append2) auto
  show "terminated ?b" unfolding split by (simp add: terminated_def)
qed

text \<open>Up to the call of the command interpreter: the line feed, the history and the terminated buffer.\<close>

definition entered :: "'a acpi_scheme \<Rightarrow> 'a acpi_scheme \<Rightarrow> bool" where
  "entered s u \<longleftrightarrow> system_inv u \<and> c_str (cmd_buf u) = line s \<and> terminated (cmd_buf u) \<and>
     con_term u = term_put (vga_color s) NEWLINE
       (term_goto (to_u8 (prompt_x s + disp_len s)) (prompt_y s) (con_term s)) \<and>
     history_slots u = (if line s = [] then history_slots s else lastn 8 (history_slots s @ [line s])) \<and>
     history_nav u = -1 \<and> con_keep u = con_keep s \<and> shell.more u = shell.more s"

definition enter_line :: "hardware \<Rightarrow> 'a shell_scheme \<Rightarrow> 'a shell_scheme option" where
  "enter_line hw s = do {
     s \<leftarrow> put_cmd (cmd_len s) NUL s;
     let s = console_set_cursor (to_u8 (prompt_x s + disp_len s)) (prompt_y s) s;
     s \<leftarrow> console_putc hw NEWLINE s;
     s \<leftarrow> (if cmd_len s > 0 then history_add (cmd_buf s) s else Some s);
     Some (s\<lparr>history_nav := -1\<rparr>) }"

lemma shell_enter_split:
  "shell_enter hw s = do {
     s \<leftarrow> enter_line hw s;
     r \<leftarrow> console_execute_command hw (cmd_buf s) s;
     (case r of Continue s \<Rightarrow> continue (shell_show_prompt hw s) | Halted s \<Rightarrow> Some (Halted s)) }"
  by (simp add: shell_enter_def enter_line_def)

text \<open>After the end of the line is stored, the cursor set and the line feed written, the history may change.\<close>

lemma entered_line:
  fixes s t u :: "'a acpi_scheme"
  assumes "system_inv s" and m: "console.more t = console.more (s\<lparr>cmd_buf := (cmd_buf s)[cmd_len s := NUL]\<rparr>)"
    and con: "con_inv t" "con_keep t = con_keep s"
      "con_term t = term_put (vga_color s) NEWLINE (term_goto (to_u8 (prompt_x s + disp_len s)) (prompt_y s) (con_term s))"
    and u: "history_inv u"
      "u = t\<lparr>history := history u, history_index := history_index u, history_count := history_count u\<rparr>"
      "history_slots u = (if line s = [] then history_slots s else lastn 8 (history_slots s @ [line s]))"
  shows "entered s (u\<lparr>history_nav := -1\<rparr>)"
proof -
  note i = system_inv_shellD [OF assms(1)]
  note d = line_invD [OF i(4)] and c = c_str_line [OF i(4)] and f = shell_fields [OF m]
  let ?u = "u\<lparr>history_nav := -1\<rparr>"
  have line_eq: "take (cmd_len s) ((cmd_buf s)[cmd_len s := NUL]) = line s" by (simp add: line_def)
  have g: "con_inv u = con_inv t" "con_keep u = con_keep t" "con_term u = con_term t" "cmd_buf u = cmd_buf t"
    "cmd_len u = cmd_len t" "cmd_pos u = cmd_pos t" "disp_len u = disp_len t" "prompt_x u = prompt_x t"
    "prompt_y u = prompt_y t" "shell.more u = shell.more t"
    by (subst u(2), simp)+
  have "line_inv ?u" using g f i(4) line_eq d by (simp add: line_inv_def line_def)
  moreover have "history_inv ?u" using u(1) by (simp add: history_inv_def)
  moreover have "disp_len s \<le> 127" using i(1) by (simp add: shell_inv_def)
  ultimately have "shell_inv ?u" using g f con i by (simp add: shell_inv_def)
  then have "system_inv ?u" by (rule system_inv_shell [OF assms(1)]) (use g f con in simp_all)
  moreover have "history_slots ?u = history_slots u" by (simp add: history_slots_def)
  ultimately show ?thesis using g f con c u(3) by (simp add: entered_def)
qed

lemma enter_line_wp:
  fixes s :: "'a acpi_scheme"
  assumes "system_inv s" and "uart_ready hw"
  shows "wp (enter_line hw s) (entered s)"
proof -
  note i = system_inv_shellD [OF assms(1)]
  note d = line_invD [OF i(4)] and c = c_str_line [OF i(4)]
  let ?s1 = "s\<lparr>cmd_buf := (cmd_buf s)[cmd_len s := NUL]\<rparr>"
  let ?s2 = "console_set_cursor (to_u8 (prompt_x s + disp_len s)) (prompt_y s) ?s1"
  have s1: "put_cmd (cmd_len s) NUL s = Some ?s1" using d by (simp add: put_cmd_def)
  have "con_inv ?s1" using i(2) by simp
  note s2 = set_cursor_draws [OF this, of "to_u8 (prompt_x s + disp_len s)" "prompt_y s"]
  then have i2: "con_inv ?s2" and col: "vga_color ?s2 = vga_color s" by (simp_all add: draws_def con_keep_def)
  have run: "enter_line hw s = do {
      t \<leftarrow> for_each [NEWLINE] (console_putc hw) ?s2;
      t \<leftarrow> (if cmd_len t > 0 then history_add (cmd_buf t) t else Some t);
      Some (t\<lparr>history_nav := -1\<rparr>) }"
    by (simp add: enter_line_def s1 Let_def)
  show ?thesis
    unfolding run
  proof (rule wp_seq [OF puts_draws [OF i2 assms(2)]])
    fix t :: "'a acpi_scheme"
    assume t: "draws (term_write (vga_color ?s2) [NEWLINE]) ?s2 t \<and> console.more t = console.more ?s2"
    have m: "console.more t = console.more ?s1" using t s2 by simp
    note f = shell_fields [OF m]
    have con: "con_inv t" "con_keep t = con_keep s"
      "con_term t = term_put (vga_color s) NEWLINE (term_goto (to_u8 (prompt_x s + disp_len s)) (prompt_y s) (con_term s))"
      using t s2 col by (simp_all add: draws_def)
    note fin = entered_line [OF assms(1) m con]
    have hist: "history_inv t" "history_slots t = history_slots s" "terminated (cmd_buf t)"
      using i(3) f c by (simp_all add: history_inv_def history_slots_def)
    show "wp (do { s \<leftarrow> (if cmd_len t > 0 then history_add (cmd_buf t) t else Some t);
        Some (s\<lparr>history_nav := -1\<rparr>) }) (entered s)"
    proof (cases "cmd_len t > 0")
      case True
      then have "line s \<noteq> []" "take 127 (c_str (cmd_buf t)) = line s" using f c d by auto
      then show ?thesis
        using True wp_mono [OF history_add_wp [OF hist(1,3)], of "\<lambda>u. entered s (u\<lparr>history_nav := -1\<rparr>)"]
          fin hist(2) by simp
    next
      case False
      then have "line s = []" using f d by simp
      then have "entered s (t\<lparr>history_nav := -1\<rparr>)" using hist by (intro fin) simp_all
      with False show ?thesis by simp
    qed
  qed
qed

text \<open>The whole Enter key.\<close>

definition enter_effect :: "hardware \<Rightarrow> 'a acpi_scheme \<Rightarrow> 'a acpi_scheme control \<Rightarrow> bool" where
  "enter_effect hw s r \<longleftrightarrow> (\<exists>u e. entered s u \<and> command_effect hw (line s) u e \<and>
     (case e of Halted t \<Rightarrow> r = Halted t
      | Continue t \<Rightarrow> (\<exists>v. r = Continue v \<and> system_inv v \<and> draws (term_write (vga_color t) prompt) t v \<and>
          session_of v = \<lparr>ses_text = [], ses_pos = 0, ses_past = rev (history_slots u), ses_nav = -1\<rparr>)))"

lemma prompt_system:
  fixes t :: "'a acpi_scheme"
  assumes "system_inv t" and "uart_ready hw"
  shows "wp (shell_show_prompt hw t) (\<lambda>v. system_inv v \<and> draws (term_write (vga_color t) prompt) t v \<and>
    session_of v = \<lparr>ses_text = [], ses_pos = 0, ses_past = rev (history_slots t), ses_nav = history_nav t\<rparr>)"
proof -
  note i = system_inv_shellD [OF assms(1)]
  show ?thesis
  proof (rule wp_mono [OF shell_show_prompt_wp [OF i(2) assms(2)]])
    fix v :: "'a acpi_scheme"
    assume v: "draws (term_write (vga_color t) prompt) t v \<and>
      console.more v = console.more (t\<lparr>cmd_len := 0, cmd_pos := 0, disp_len := 0,
        prompt_x := cursor_x v, prompt_y := cursor_y v\<rparr>)"
    note f = shell_fields [OF conjunct2 [OF v]]
    have c: "con_inv v" "con_keep v = con_keep t" using v by (simp_all add: draws_def)
    have "shell_inv v" by (rule after_prompt_inv [OF conjunct2 [OF v] c(1) shell_inv_base [OF i(1)]])
    then have "system_inv v" by (rule system_inv_shell [OF assms(1) _ c(2)]) (use f(11) in simp)
    moreover have "line v = []" "history_slots v = history_slots t" using f by (simp_all add: line_def history_slots_def)
    ultimately show "system_inv v \<and> draws (term_write (vga_color t) prompt) t v \<and>
        session_of v = \<lparr>ses_text = [], ses_pos = 0, ses_past = rev (history_slots t), ses_nav = history_nav t\<rparr>"
      using v f by (simp add: session_of_def)
  qed
qed

lemma shell_enter_wp:
  fixes s :: "'a acpi_scheme"
  assumes "system_inv s" and "uart_ready hw"
  shows "wp (shell_enter hw s) (\<lambda>r. command_ok r \<and> enter_effect hw s r)"
  unfolding shell_enter_split
proof (rule wp_seq [OF enter_line_wp [OF assms]])
  fix u :: "'a acpi_scheme"
  assume u: "entered s u"
  then have d: "system_inv u" "terminated (cmd_buf u)" "c_str (cmd_buf u) = line s" "history_nav u = -1"
    by (simp_all add: entered_def)
  show "wp (do { r \<leftarrow> console_execute_command hw (cmd_buf u) u;
      (case r of Continue s \<Rightarrow> continue (shell_show_prompt hw s) | Halted s \<Rightarrow> Some (Halted s)) })
    (\<lambda>r. command_ok r \<and> enter_effect hw s r)"
  proof (rule wp_seq [OF execute_command_wp [OF d(1) assms(2) d(2)]])
    fix e :: "'a acpi_scheme control"
    assume e: "command_ok e \<and> command_effect hw (c_str (cmd_buf u)) u e"
    show "wp (case e of Continue s \<Rightarrow> continue (shell_show_prompt hw s) | Halted s \<Rightarrow> Some (Halted s))
      (\<lambda>r. command_ok r \<and> enter_effect hw s r)"
    proof (cases e)
      case (Halted t)
      then show ?thesis using e u d(3) by (auto simp: enter_effect_def intro!: exI [of _ u] exI [of _ e])
    next
      case (Continue t)
      then have t: "system_inv t" "keeps u t"
        using e by (auto simp: command_ok_def dest: command_effect_control(2))
      have h: "history_slots t = history_slots u" "history_nav t = -1"
        using t(2) d(4) by (simp_all add: keeps_def shell_keep_def history_slots_def)
      have "wp (continue (shell_show_prompt hw t)) (\<lambda>r. command_ok r \<and> enter_effect hw s r)"
      proof (rule continue_wp, rule wp_mono [OF prompt_system [OF t(1) assms(2)]])
        fix v :: "'a acpi_scheme"
        assume v: "system_inv v \<and> draws (term_write (vga_color t) prompt) t v \<and>
          session_of v = \<lparr>ses_text = [], ses_pos = 0, ses_past = rev (history_slots t), ses_nav = history_nav t\<rparr>"
        then show "command_ok (Continue v) \<and> enter_effect hw s (Continue v)"
          using e u d(3) h Continue
          by (auto simp: enter_effect_def command_ok_def intro!: exI [of _ u] exI [of _ e])
      qed
      then show ?thesis by (simp add: Continue)
    qed
  qed
qed

text \<open>A round of the loop.\<close>

lemma getc_system:
  fixes s :: "'a acpi_scheme"
  assumes "system_inv s"
  shows "wp (console_getc s) (\<lambda>(c, t). system_inv t \<and>
    (case input_queue s of [] \<Rightarrow> c = NUL \<and> t = s | x # xs \<Rightarrow> c = x \<and> input_queue t = xs) \<and>
    t = s\<lparr>input_tail := input_tail t\<rparr>)"
proof (rule wp_mono [OF console_getc_ui [OF system_invD(3) [OF assms]]], clarify)
  fix c and t :: "'a acpi_scheme"
  assume t: "ui_inv t" "t = s\<lparr>input_tail := input_tail t\<rparr>"
    "case input_queue s of [] \<Rightarrow> c = NUL \<and> t = s | x # xs \<Rightarrow> c = x \<and> input_queue t = xs"
  have "inventory_shape t = inventory_shape s" "pci_devices t = pci_devices s" "acpi_tables t = acpi_tables s"
    "acpi_table_count t = acpi_table_count s"
    by (subst t(2), simp add: inventory_shape_def)+
  then have "system_inv t" using assms t(1) by (simp add: system_inv_def)
  then show "system_inv t \<and> (case input_queue s of [] \<Rightarrow> c = NUL \<and> t = s | x # xs \<Rightarrow> c = x \<and> input_queue t = xs) \<and>
      t = s\<lparr>input_tail := input_tail t\<rparr>"
    using t(2,3) by (simp only: simp_thms)
qed

lemma key_effect_ok: "\<exists>t. r = Continue t \<and> key_effect c s t \<Longrightarrow> command_ok r"
  by (auto simp: command_ok_def key_effect_def)

lemma shell_any_key_wp:
  assumes "system_inv s" and "uart_ready hw" and "c \<noteq> NUL"
  shows "wp (shell_key hw c s) command_ok"
proof (cases "c = NEWLINE")
  case True
  then show ?thesis
    using shell_enter_wp [OF assms(1,2)] by (simp add: shell_key_def) (erule wp_mono, simp)
next
  case False
  from shell_key_wp [OF assms False] show ?thesis by (rule wp_mono) (rule key_effect_ok)
qed

lemma shell_round_wp:
  fixes s :: "'a acpi_scheme"
  assumes "system_inv s" and "uart_ready hw"
  shows "wp (shell_round hw s) (\<lambda>r. command_ok r \<and> (input_queue s = [] \<longrightarrow> r = Continue s))"
  unfolding shell_round_def
proof (rule wp_seq [OF getc_system [OF assms(1)]], clarify)
  fix c and t :: "'a acpi_scheme"
  assume t: "system_inv t"
    and q: "case input_queue s of [] \<Rightarrow> c = NUL \<and> t = s | x # xs \<Rightarrow> c = x \<and> input_queue t = xs"
  have e: "c = NUL \<and> t = s" if "input_queue s = []" using q that by simp
  show "wp (if c \<noteq> NUL then shell_key hw c t else Some (Continue t))
      (\<lambda>r. command_ok r \<and> (input_queue s = [] \<longrightarrow> r = Continue s))"
  proof (cases "c = NUL")
    case True
    then show ?thesis using t e by (simp add: command_ok_def)
  next
    case False
    with shell_any_key_wp [OF t assms(2) False] e show ?thesis by (auto elim: wp_mono)
  qed
qed

section \<open>Properties\<close>

lemma booting_session [simp]:
  "session_of booting_acpi = \<lparr>ses_text = ''abc'', ses_pos = 2, ses_past = [], ses_nav = -1\<rparr>"
  by (simp add: session_of_def line_def history_slots_def booting_acpi_def acpi_statics_def inventory_statics_def
      one_pane_def pane_statics_def typing_shell_def shell_statics_def acpi.defs inventory.defs pane.defs
      shell.defs console.defs)

lemma booting_line [simp]: "line booting_acpi = ''abc''" "input_queue booting_acpi = []"
  using arg_cong [OF booting_session, of ses_text]
  by (simp_all add: input_queue_def booting_acpi_def acpi_statics_def inventory_statics_def
      one_pane_def pane_statics_def typing_shell_def shell_statics_def blank_console_def console_statics_def
      acpi.defs inventory.defs pane.defs shell.defs console.defs)

text \<open>C6. The shell's keys implement the session: for every key but Enter, and from every state that
  satisfies the invariants, \<open>shell_task\<close> returns to a state that satisfies them, with the text,
  the cursor, the remembered commands and the place in the history that the specification of
  the key gives, and with exactly that line and cursor on the screen.\<close>

theorem shell_keys_refine:
  assumes "system_inv s" and "uart_ready hw" and "c \<noteq> NUL" and "c \<noteq> NEWLINE"
  shows "wp (shell_key hw c s) (\<lambda>r. \<exists>t. r = Continue t \<and> system_inv t \<and>
    session_of t = ses_key c (session_of s) \<and> key_shown c s t)"
  by (rule wp_mono [OF shell_key_wp [OF assms]]) (auto simp: key_effect_def)

theorem shell_keys_refine_witness:
  "wp (shell_key quiet_machine (CHR ''x'') booting_acpi) (\<lambda>r. \<exists>t. r = Continue t \<and>
    session_of t = \<lparr>ses_text = ''abxc'', ses_pos = 3, ses_past = [], ses_nav = -1\<rparr>)"
  by (rule wp_mono [OF shell_keys_refine [OF booting_system quiet_machine_ready, of "CHR ''x''"]])
    (auto simp: ses_key_def ses_edit_def)

text \<open>C16. A line from its first key to the prompt after it: after any sequence of keys other than
  Enter the session is what the specification of the keys gives, and Enter then moves the
  cursor to the end of the shown text and writes a line feed, remembers a non-empty line as
  the newest of at most eight, runs the command interpreter on exactly the text of the line,
  with that command's effect, and unless it halts the kernel shows a prompt with an empty line.\<close>

theorem shell_enter_runs:
  assumes "system_inv s" and "uart_ready hw" and "list_all (\<lambda>c. c \<notin> {NUL, NEWLINE}) cs"
  shows "wp (do { t \<leftarrow> for_each cs (shell_edit hw) s; r \<leftarrow> shell_key hw NEWLINE t; Some (t, r) })
    (\<lambda>(t, r). system_inv t \<and> session_of t = fold ses_key cs (session_of s) \<and> command_ok r \<and> enter_effect hw t r)"
proof (rule wp_seq [OF editing.keys_follow [OF conjI [OF assms(2,1)] assms(3)]])
  fix t :: "'a acpi_scheme"
  assume t: "(uart_ready hw \<and> system_inv t) \<and> session_of t = fold ses_key cs (session_of s) \<and> con_keep t = con_keep s"
  then have "wp (shell_key hw NEWLINE t) (\<lambda>r. command_ok r \<and> enter_effect hw t r)"
    using shell_enter_wp [of t hw] by (simp add: shell_key_def)
  then show "wp (do { r \<leftarrow> shell_key hw NEWLINE t; Some (t, r) })
      (\<lambda>(t, r). system_inv t \<and> session_of t = fold ses_key cs (session_of s) \<and> command_ok r \<and> enter_effect hw t r)"
    by (rule wp_seq) (use t in simp)
qed

theorem shell_enter_runs_witness:
  "wp (do { t \<leftarrow> for_each [KEY_LEFT, CHR ''x''] (shell_edit quiet_machine) booting_acpi;
      r \<leftarrow> shell_key quiet_machine NEWLINE t; Some (t, r) })
    (\<lambda>(t, r). \<exists>v. r = Continue v \<and> system_inv v \<and>
      session_of v = \<lparr>ses_text = [], ses_pos = 0, ses_past = [''axbc''], ses_nav = -1\<rparr>)"
proof (rule wp_mono [OF shell_enter_runs [OF booting_system quiet_machine_ready]], goal_cases)
  case 1
  show ?case by simp
next
  case (2 tr)
  obtain t r where "tr = (t, r)" by force
  have "fold ses_key [KEY_LEFT, CHR ''x''] (session_of booting_acpi) =
      \<lparr>ses_text = ''axbc'', ses_pos = 2, ses_past = [], ses_nav = -1\<rparr>"
    unfolding booting_session by (simp add: ses_key_def ses_edit_def)
  with 2 \<open>tr = (t, r)\<close> have ses: "session_of t = \<lparr>ses_text = ''axbc'', ses_pos = 2, ses_past = [], ses_nav = -1\<rparr>"
    and run: "enter_effect quiet_machine t r" by auto
  from arg_cong [OF ses, of ses_text] arg_cong [OF ses, of ses_past]
  have line: "line t = ''axbc''" and past: "history_slots t = []" by simp_all
  from run obtain u e where u: "entered t u" "command_effect quiet_machine ''axbc'' u e"
    and r: "case e of Halted t \<Rightarrow> r = Halted t
      | Continue t \<Rightarrow> (\<exists>v. r = Continue v \<and> system_inv v \<and> draws (term_write (vga_color t) prompt) t v \<and>
          session_of v = \<lparr>ses_text = [], ses_pos = 0, ses_past = rev (history_slots u), ses_nav = -1\<rparr>)"
    by (auto simp: enter_effect_def line)
  have "history_slots u = [''axbc'']" using u(1) line past by (simp add: entered_def)
  moreover obtain w where "e = Continue w" using u(2) by (auto simp: command_effect_def)
  ultimately show ?case using r \<open>tr = (t, r)\<close> by auto
qed

text \<open>The shell task never goes wrong: from every state that satisfies the invariants of
  console, shell, panes, queue, inventory and ACPI, and whatever character the queue holds, a
  round of its loop returns with the invariants kept or in an ordered halt; with nothing in
  the queue it changes nothing.\<close>

theorem shell_round_safe:
  assumes "system_inv s" and "uart_ready hw"
  shows "wp (shell_round hw s) (\<lambda>r. command_ok r \<and> (input_queue s = [] \<longrightarrow> r = Continue s))"
  by (rule shell_round_wp [OF assms])

theorem shell_round_safe_witness:
  "wp (shell_round quiet_machine booting_acpi) (\<lambda>r. r = Continue booting_acpi)"
  by (rule wp_mono [OF shell_round_safe [OF booting_system quiet_machine_ready]]) simp

end
