(* ===== verification/Gui.thy ===== *)
theory Gui
  imports Framebuffer Shell_Task Simulation
begin

text \<open>
  \<open>src/gui/gui.c\<close>: a line of text, at most 127 characters, edited by the keyboard and shown
  centred on a white screen. The lemmas show that the buffer implements a text with the two
  editing operations, and that after every key the screen is exactly the picture of the text.
\<close>

section \<open>State and operations\<close>

text \<open>The two static variables of \<open>gui.c\<close>, whose names there are \<open>input_buf\<close> and \<open>input_len\<close>.\<close>

record gui = framebuffer +
  gui_buf :: "char list"
  gui_len :: nat

record pane_rect =
  rect_x :: int
  rect_y :: int
  rect_width :: int
  rect_height :: int
  border_color :: u32

text \<open>Arithmetic of \<open>redraw\<close> is on \<open>unsigned int\<close> but for \<open>start_x\<close>, whose sum with \<open>i * 8\<close> is again.\<close>

definition redraw :: "hardware \<Rightarrow> 'a gui_scheme \<Rightarrow> 'a gui_scheme option" where
  "redraw hw s = do {
     s \<leftarrow> fb_clear hw 0xFFFFFFFF s;
     let w = fb_get_width s;
     let h = fb_get_height s;
     let baseline = (h * 2) div 3;
     let text_w = (of_nat (gui_len s) * 8 :: u32);
     let start_x = sint (w div 2) - sint (text_w div 2);
     s \<leftarrow> fb_draw_rect hw 0 (sint (baseline - 8)) (sint w) 16 0xFFFFFFFF s;
     for_each [0..<gui_len s] (\<lambda>i s. do {
       c \<leftarrow> rd (gui_buf s) i;
       fb_draw_char hw c (sint (of_int start_x + of_nat i * 8 :: u32)) (sint (baseline - 8)) 0xFF000000 s }) s }"

definition gui_init :: "hardware \<Rightarrow> 'a gui_scheme \<Rightarrow> 'a gui_scheme option" where
  "gui_init hw s = redraw hw (fb_init s)"

definition gui_handle_key :: "hardware \<Rightarrow> char \<Rightarrow> 'a gui_scheme \<Rightarrow> 'a gui_scheme option" where
  "gui_handle_key hw c s = do {
     s \<leftarrow> (if c = BACKSPACE then Some (if gui_len s > 0 then s\<lparr>gui_len := gui_len s - 1\<rparr> else s)
       else if schar c \<ge> schar (CHR '' '') \<and> gui_len s < 128 - 1 then do {
         b \<leftarrow> wr (gui_buf s) (gui_len s) c; Some (s\<lparr>gui_buf := b, gui_len := gui_len s + 1\<rparr>) }
       else Some s);
     b \<leftarrow> wr (gui_buf s) (gui_len s) NUL;
     redraw hw (s\<lparr>gui_buf := b\<rparr>) }"

text \<open>A loop of \<open>gui_draw_pane_border\<close>; its counter is an \<open>int\<close>.\<close>

function count_up :: "int \<Rightarrow> int \<Rightarrow> (int \<Rightarrow> 's \<Rightarrow> 's option) \<Rightarrow> 's \<Rightarrow> 's option" where
  "count_up x x2 body s =
     (if x \<le> x2 then do { s \<leftarrow> body x s; x' \<leftarrow> add_int x 1; count_up x' x2 body s } else Some s)"
  by pat_completeness auto
termination
  by (relation "measure (\<lambda>(x, x2, body, s). nat (x2 - x + 1))") (auto simp: add_int_def split: if_splits)

declare count_up.simps [simp del]

definition gui_draw_pane_border :: "hardware \<Rightarrow> pane_rect \<Rightarrow> 'a framebuffer_scheme \<Rightarrow> 'a framebuffer_scheme option" where
  "gui_draw_pane_border hw p s = do {
     x2 \<leftarrow> add_int (rect_x p) (rect_width p);
     x2 \<leftarrow> add_int x2 (- 1);
     y2 \<leftarrow> add_int (rect_y p) (rect_height p);
     y2 \<leftarrow> add_int y2 (- 1);
     s \<leftarrow> count_up (rect_x p) x2 (\<lambda>x s. do {
       s \<leftarrow> fb_draw_pixel hw x (rect_y p) (border_color p) s;
       fb_draw_pixel hw x y2 (border_color p) s }) s;
     count_up (rect_y p) y2 (\<lambda>y s. do {
       s \<leftarrow> fb_draw_pixel hw (rect_x p) y (border_color p) s;
       fb_draw_pixel hw x2 y (border_color p) s }) s }"

text \<open>One round of the loop of \<open>gui_task\<close>, up to its \<open>sched_yield\<close>.\<close>

definition gui_round :: "hardware \<Rightarrow> 'a gui_scheme \<Rightarrow> 'a gui_scheme option" where
  "gui_round hw s = do {
     (c, s) \<leftarrow> keyboard_read_char hw s;
     if c \<noteq> NUL then gui_handle_key hw c s else Some s }"

section \<open>Specification\<close>

text \<open>The text, the operation of a key on it, and the picture of a text.\<close>

definition gui_text :: "'a gui_scheme \<Rightarrow> string" where
  "gui_text s = take (gui_len s) (gui_buf s)"

definition types :: "char \<Rightarrow> bool" where
  "types c \<longleftrightarrow> 32 \<le> (of_char c :: nat) \<and> (of_char c :: nat) < 128"

definition text_key :: "char \<Rightarrow> string \<Rightarrow> string" where
  "text_key c t = (if c = BACKSPACE then butlast t else if types c \<and> length t < 127 then t @ [c] else t)"

definition text_picture :: "string \<Rightarrow> picture" where
  "text_picture t u v =
     (if on_screen u v then Some (if text_ink t (512 - 4 * int (length t)) 504 u v then 0xFF000000 else 0xFFFFFFFF)
      else None)"

definition gui_inv :: "'a gui_scheme \<Rightarrow> bool" where
  "gui_inv s \<longleftrightarrow> fb_inv s \<and> length (gui_buf s) = 128 \<and> gui_len s \<le> 127 \<and> list_all types (gui_text s)"

text \<open>What the operations leave alone: everything below the framebuffer, and its geometry.\<close>

definition gui_frame :: "'a gui_scheme \<Rightarrow> 'a gui_scheme \<Rightarrow> bool" where
  "gui_frame s t \<longleftrightarrow> t = s\<lparr>vram := vram t, gui_buf := gui_buf t, gui_len := gui_len t\<rparr>"

lemma gui_frame_refl [simp]: "gui_frame s s"
  by (simp add: gui_frame_def)

lemma gui_frameD:
  assumes "gui_frame s t"
  obtains m b n where "t = s\<lparr>vram := m, gui_buf := b, gui_len := n\<rparr>"
  using assms unfolding gui_frame_def by blast

lemma gui_frame_trans: "gui_frame s t \<Longrightarrow> gui_frame t u \<Longrightarrow> gui_frame s u"
  by (elim gui_frameD) (simp add: gui_frame_def)

section \<open>Drawing\<close>

lemma coloured_gui:
  fixes s t :: "'a gui_scheme"
  assumes "coloured P c s t"
  shows "gui_buf t = gui_buf s" "gui_len t = gui_len s" "gui_frame s t"
proof -
  obtain m where t: "t = s\<lparr>vram := m\<rparr>" using assms by (auto simp: coloured_def)
  show "gui_buf t = gui_buf s" "gui_len t = gui_len s" "gui_frame s t" by (simp_all add: t gui_frame_def)
qed

text \<open>Where the characters of a text of \<open>n\<close> characters go.\<close>

lemma start_position:
  assumes "n \<le> 127"
  shows "sint ((1024 :: u32) div 2) - sint ((of_nat n * 8 :: u32) div 2) = 512 - 4 * int n"
    and "i < n \<Longrightarrow> sint (of_int (512 - 4 * int n) + of_nat i * 8 :: u32) = 512 - 4 * int n + 8 * int i"
proof -
  have small: "sint (of_int k :: u32) = k" if "0 \<le> k" "k < 2147483648" for k
    using that by (simp add: sint_sbintrunc' signed_take_bit_int_eq_self)
  have "(of_nat n * 8 :: u32) div 2 = of_int (4 * int n)"
  proof (rule word_uint_eqI)
    have "(of_nat n * 8 :: u32) = of_int (8 * int n)" by simp
    then have "uint (of_nat n * 8 :: u32) = 8 * int n"
      using assms by (simp only: unsigned_of_int) (simp add: take_bit_int_eq_self)
    then have "uint ((of_nat n * 8 :: u32) div 2) = 4 * int n" by (simp add: uint_div)
    moreover have "uint (of_int (4 * int n) :: u32) = 4 * int n" 
      using assms by (simp only: unsigned_of_int) (simp add: take_bit_int_eq_self)
    ultimately show "uint ((of_nat n * 8 :: u32) div 2) = uint (of_int (4 * int n) :: u32)" by simp
  qed
  then show "sint ((1024 :: u32) div 2) - sint ((of_nat n * 8 :: u32) div 2) = 512 - 4 * int n"
    using small [of "4 * int n"] assms by simp
  assume "i < n"
  have "(of_int (512 - 4 * int n) + of_nat i * 8 :: u32) = of_int (512 - 4 * int n + 8 * int i)" by simp
  then show "sint (of_int (512 - 4 * int n) + of_nat i * 8 :: u32) = 512 - 4 * int n + 8 * int i"
    using small [of "512 - 4 * int n + 8 * int i"] assms \<open>i < n\<close> by (simp only:)
qed

text \<open>The loop that draws the characters, in black on what is there.\<close>

lemma text_loop_wp:
  fixes t :: "'a gui_scheme"
  assumes "fb_mapped hw" and "fb_inv t" and "gui_buf t = b" and "length b = 128" and "n \<le> 127" and "list_all types (take n b)"
  shows "wp (for_each [0..<n] (\<lambda>i s. do {
      c \<leftarrow> rd (gui_buf s) i;
      fb_draw_char hw c (sint (of_int (512 - 4 * int n) + of_nat i * 8 :: u32)) 504 0xFF000000 s }) t)
    (coloured (text_ink (take n b) (512 - 4 * int n) 504) 0xFF000000 t)"
proof -
  let ?x = "512 - 4 * int n"
  let ?ink = "\<lambda>u v. \<exists>i \<in> set [0..<n]. glyph_ink (b ! i) (?x + 8 * int i) 504 u v"
  have ty: "of_char (b ! i) < (128 :: nat)" if "i < n" for i
    using assms(4-6) that by (auto simp: list_all_length types_def)
  have "?ink = text_ink (take n b) ?x 504"
    using assms(4,5) by (auto simp: text_ink_def fun_eq_iff)
  moreover have "wp (for_each [0..<n] (\<lambda>i s. do {
      c \<leftarrow> rd (gui_buf s) i;
      fb_draw_char hw c (sint (of_int ?x + of_nat i * 8 :: u32)) 504 0xFF000000 s }) t) (coloured ?ink 0xFF000000 t)"
  proof (rule wp_coloured_loop_inv [where J = "\<lambda>t. fb_inv t \<and> gui_buf t = b"])
    fix i and r :: "'a gui_scheme"
    assume i: "i \<in> set [0..<n]" and r: "fb_inv r \<and> gui_buf r = b"
    have "wp (fb_draw_char hw (b ! i) (?x + 8 * int i) 504 0xFF000000 r)
        (coloured (glyph_ink (b ! i) (?x + 8 * int i) 504) 0xFF000000 r)"
      by (rule draw_char_wp) (use assms(1,5) r ty i in \<open>auto simp: fits_def\<close>)
    then show "wp (do { c \<leftarrow> rd (gui_buf r) i;
          fb_draw_char hw c (sint (of_int ?x + of_nat i * 8 :: u32)) 504 0xFF000000 r })
        (coloured (glyph_ink (b ! i) (?x + 8 * int i) 504) 0xFF000000 r)"
      using i r assms(4,5) start_position(2) [OF assms(5), of i] by simp
  next
    show "fb_inv u \<and> gui_buf u = b" if "fb_inv r \<and> gui_buf r = b" "coloured P 0xFF000000 r u"
      for P and r u :: "'a gui_scheme"
      using colouredD(1) [OF that(2)] coloured_gui(1) [OF that(2)] that(1) by simp
  qed (use assms(2,3) in simp)
  ultimately show ?thesis by simp
qed

text \<open>The geometry of the line, once the screen is clear.\<close>

lemma redraw_line_eq:
  assumes "fb_inv s" and "gui_len s \<le> 127"
  shows "(let w = fb_get_width s; h = fb_get_height s; baseline = h * 2 div 3;
      text_w = (of_nat (gui_len s) * 8 :: u32); start_x = sint (w div 2) - sint (text_w div 2)
    in do {
      s \<leftarrow> fb_draw_rect hw 0 (sint (baseline - 8)) (sint w) 16 0xFFFFFFFF s;
      for_each [0..<gui_len s] (\<lambda>i s. do {
        c \<leftarrow> rd (gui_buf s) i;
        fb_draw_char hw c (sint (of_int start_x + of_nat i * 8 :: u32)) (sint (baseline - 8)) 0xFF000000 s }) s }) =
    do {
      t \<leftarrow> fb_draw_rect hw 0 504 1024 16 0xFFFFFFFF s;
      for_each [0..<gui_len t] (\<lambda>i r. do {
        c \<leftarrow> rd (gui_buf r) i;
        fb_draw_char hw c (sint (of_int (512 - 4 * int (gui_len s)) + of_nat i * 8 :: u32)) 504 0xFF000000 r }) t }"
proof -
  have "fb_width s = 1024" "fb_height s = 768" using assms(1) by (simp_all add: fb_inv_def)
  then show ?thesis
    unfolding Let_def fb_get_width_def fb_get_height_def by (simp only: start_position(1) [OF assms(2)]) simp
qed

lemma redraw_wp:
  assumes "fb_mapped hw" and "gui_inv s"
  shows "wp (redraw hw s) (\<lambda>t. gui_frame s t \<and> gui_buf t = gui_buf s \<and> gui_len t = gui_len s \<and>
    picture t = text_picture (gui_text s))"
proof -
  have g: "fb_inv s" "length (gui_buf s) = 128" "gui_len s \<le> 127" "list_all types (gui_text s)"
    using assms(2) by (simp_all add: gui_inv_def)
  have len: "length (gui_text s) = gui_len s" using g by (simp add: gui_text_def)
  show ?thesis
    unfolding redraw_def
  proof (rule wp_seq [OF clear_wp [OF assms(1) g(1)]])
    fix s1 assume s1: "coloured on_screen 0xFFFFFFFF s s1"
    note f1 = colouredD(1) [OF s1] coloured_gui [OF s1]
    have i1: "fb_inv s1" "gui_len s1 \<le> 127" using f1 g(1,3) by simp_all
    have rect: "wp (fb_draw_rect hw 0 504 1024 16 0xFFFFFFFF s1) (coloured (rectangle 0 504 1024 16) 0xFFFFFFFF s1)"
      by (rule draw_rect_wp [OF assms(1) i1(1)]) (simp_all add: fits_def)
    show "wp (let w = fb_get_width s1; h = fb_get_height s1; baseline = h * 2 div 3;
          text_w = (of_nat (gui_len s1) * 8 :: u32); start_x = sint (w div 2) - sint (text_w div 2)
        in do {
          s \<leftarrow> fb_draw_rect hw 0 (sint (baseline - 8)) (sint w) 16 0xFFFFFFFF s1;
          for_each [0..<gui_len s] (\<lambda>i s. do {
            c \<leftarrow> rd (gui_buf s) i;
            fb_draw_char hw c (sint (of_int start_x + of_nat i * 8 :: u32)) (sint (baseline - 8)) 0xFF000000 s }) s })
      (\<lambda>t. gui_frame s t \<and> gui_buf t = gui_buf s \<and> gui_len t = gui_len s \<and> picture t = text_picture (gui_text s))"
      unfolding redraw_line_eq [OF i1]
    proof (rule wp_seq [OF rect])
      fix s2 assume s2: "coloured (rectangle 0 504 1024 16) 0xFFFFFFFF s1 s2"
      note f2 = colouredD(1) [OF s2] coloured_gui [OF s2]
      have "fb_inv s2" "gui_buf s2 = gui_buf s" using f1(1,2) f2(1,2) g(1) by simp_all
      from text_loop_wp [OF assms(1) this g(2,3) g(4) [unfolded gui_text_def], folded gui_text_def]
      show "wp (for_each [0..<gui_len s2] (\<lambda>i r. do {
          c \<leftarrow> rd (gui_buf r) i;
          fb_draw_char hw c (sint (of_int (512 - 4 * int (gui_len s1)) + of_nat i * 8 :: u32)) 504 0xFF000000 r }) s2)
        (\<lambda>t. gui_frame s t \<and> gui_buf t = gui_buf s \<and> gui_len t = gui_len s \<and> picture t = text_picture (gui_text s))"
        unfolding f1(3) f2(3)
      proof (rule wp_mono)
        fix t assume t: "coloured (text_ink (gui_text s) (512 - 4 * int (gui_len s)) 504) 0xFF000000 s2 t"
        have "picture t = text_picture (gui_text s)"
          unfolding colouredD(2) [OF t] colouredD(2) [OF s2] colouredD(2) [OF s1]
          by (intro ext) (simp only: colour_def text_picture_def picture_def len, simp)
        moreover have "gui_frame s t" using gui_frame_trans f1(4) f2(4) coloured_gui(3) [OF t] by blast
        ultimately show "gui_frame s t \<and> gui_buf t = gui_buf s \<and> gui_len t = gui_len s \<and> picture t = text_picture (gui_text s)"
          using f1(2,3) f2(2,3) coloured_gui [OF t] by simp
      qed
    qed
  qed
qed

section \<open>Keys\<close>

lemma types_schar: "schar (CHR '' '') \<le> schar c \<longleftrightarrow> types c"
proof -
  define n where "n = (of_char c :: nat)"
  have "n < 256" by (simp add: n_def)
  moreover have "uchar c = int n" by (simp add: uchar_def n_def)
  moreover have "schar (CHR '' '') = 32" by (simp add: schar_def uchar_def)
  ultimately show ?thesis by (auto simp: schar_def types_def n_def [symmetric])
qed

text \<open>The screen shows the text.\<close>

definition gui_shows :: "'a gui_scheme \<Rightarrow> bool" where
  "gui_shows s \<longleftrightarrow> gui_inv s \<and> picture s = text_picture (gui_text s)"

lemma redraw_shows:
  assumes "fb_mapped hw" and "gui_inv s"
  shows "wp (redraw hw s) (\<lambda>t. gui_shows t \<and> gui_frame s t \<and> gui_text t = gui_text s)"
proof (rule wp_mono [OF redraw_wp [OF assms]])
  fix t assume t: "gui_frame s t \<and> gui_buf t = gui_buf s \<and> gui_len t = gui_len s \<and> picture t = text_picture (gui_text s)"
  then obtain m b n where "t = s\<lparr>vram := m, gui_buf := b, gui_len := n\<rparr>" using gui_frameD by blast
  then have "fb_inv t = fb_inv s" by (simp add: fb_inv_def)
  moreover have "gui_text t = gui_text s" using t by (simp add: gui_text_def)
  ultimately show "gui_shows t \<and> gui_frame s t \<and> gui_text t = gui_text s"
    using t assms(2) by (simp add: gui_shows_def gui_inv_def)
qed

text \<open>Changing the buffer and the length to those of another text.\<close>

lemma gui_edit:
  assumes "gui_inv s" and "u = s\<lparr>gui_buf := b, gui_len := n\<rparr>" and "length b = 128" and "n \<le> 127"
    and "list_all types (take n b)"
  shows "gui_inv u" "gui_text u = take n b" "gui_frame s u"
  using assms by (simp_all add: gui_inv_def fb_inv_def gui_text_def gui_frame_def)

text \<open>The end of \<open>gui_handle_key\<close>: terminate the text and draw the window.\<close>

lemma gui_finish_wp:
  assumes "fb_mapped hw" and "gui_inv s" and u: "u = s\<lparr>gui_buf := b, gui_len := n\<rparr>"
    and b: "length b = 128" "n \<le> 127" "take n b = tx" "list_all types (take n b)"
  shows "wp (do { b' \<leftarrow> wr (gui_buf u) (gui_len u) NUL; redraw hw (u\<lparr>gui_buf := b'\<rparr>) })
    (\<lambda>t. gui_shows t \<and> gui_frame s t \<and> gui_text t = tx)"
proof -
  let ?v = "u\<lparr>gui_buf := b[n := NUL]\<rparr>"
  have "?v = s\<lparr>gui_buf := b[n := NUL], gui_len := n\<rparr>" using u by simp
  from gui_edit [OF assms(2) this] b have e: "gui_inv ?v" "gui_text ?v = take n b" "gui_frame s ?v" by simp_all
  have "wr (gui_buf u) (gui_len u) NUL = Some (b[n := NUL])" using b(1,2) u by simp
  then show ?thesis
    using wp_mono [OF redraw_shows [OF assms(1) e(1)], of "\<lambda>t. gui_shows t \<and> gui_frame s t \<and> gui_text t = tx"]
      gui_frame_trans [OF e(3)] e(2) b(3) by simp
qed

lemma handle_key_wp:
  assumes "fb_mapped hw" and "gui_inv s"
  shows "wp (gui_handle_key hw c s)
    (\<lambda>t. gui_shows t \<and> gui_frame s t \<and> gui_text t = text_key c (gui_text s))"
proof -
  let ?n = "gui_len s" and ?b = "gui_buf s"
  have g: "length ?b = 128" "?n \<le> 127" "list_all types (take ?n ?b)"
    using assms(2) by (simp_all add: gui_inv_def gui_text_def)
  note fin = gui_finish_wp [OF assms, where tx = "text_key c (gui_text s)"]
  have tx: "gui_text s = take ?n ?b" "length (gui_text s) = ?n" using g by (simp_all add: gui_text_def)
  have run: "gui_handle_key hw c s = do {
      u \<leftarrow> Some (if c = BACKSPACE then s\<lparr>gui_len := ?n - 1\<rparr>
        else if types c \<and> ?n < 127 then s\<lparr>gui_buf := ?b[?n := c], gui_len := ?n + 1\<rparr> else s);
      b \<leftarrow> wr (gui_buf u) (gui_len u) NUL; redraw hw (u\<lparr>gui_buf := b\<rparr>) }"
  proof -
    have "s\<lparr>gui_len := ?n\<rparr> = s" by simp
    then have eq: "(if ?n > 0 then s\<lparr>gui_len := ?n - 1\<rparr> else s) = s\<lparr>gui_len := ?n - 1\<rparr>" by (cases "?n = 0") simp_all
    show ?thesis unfolding gui_handle_key_def types_schar eq using g(1) by simp
  qed
  consider "c = BACKSPACE" | "c \<noteq> BACKSPACE" "types c" "?n < 127" | "c \<noteq> BACKSPACE" "\<not> (types c \<and> ?n < 127)" by blast
  then show ?thesis
  proof cases
    case 1
    have t: "take (?n - 1) ?b = butlast (gui_text s)" using g by (simp add: tx butlast_take)
    have "list_all types (take (?n - 1) ?b)"
      unfolding t using g(3) by (auto simp: tx(1) list_all_iff dest: in_set_butlastD)
    moreover have "s\<lparr>gui_len := ?n - 1\<rparr> = s\<lparr>gui_buf := ?b, gui_len := ?n - 1\<rparr>" by simp
    ultimately show ?thesis
      unfolding run using fin [where b = ?b and n = "?n - 1"] 1 g(1,2) t by (simp add: text_key_def)
  next
    case 2
    have t: "take (?n + 1) (?b[?n := c]) = gui_text s @ [c]"
      using g 2(3) by (simp add: tx(1) take_Suc_conv_app_nth)
    moreover from this have "list_all types (take (?n + 1) (?b[?n := c]))" using 2 g(3) by (simp add: tx(1))
    ultimately show ?thesis
      unfolding run using fin [OF refl, where b = "?b[?n := c]" and n = "?n + 1"] 2 g(1) by (simp add: text_key_def tx(2))
  next
    case 3
    have "text_key c (gui_text s) = gui_text s" using 3 by (auto simp: text_key_def tx(2))
    moreover have "s = s\<lparr>gui_buf := ?b, gui_len := ?n\<rparr>" by simp
    ultimately show ?thesis
      unfolding run using fin [where u = s and b = ?b and n = ?n] g 3 by (simp only: tx(1) option.sel bind.bind_lunit if_False simp_thms)
  qed
qed

text \<open>The window implements the text, key by key and so for every sequence of keys.\<close>

interpretation window: silent_simulation "gui_handle_key hw" text_key gui_text "\<lambda>s. fb_mapped hw \<and> gui_shows s"
    "\<lambda>c. True" gui_frame for hw
proof
  fix s :: "'a gui_scheme" and c
  assume "fb_mapped hw \<and> gui_shows s"
  then have "fb_mapped hw" and "gui_inv s" by (simp_all add: gui_shows_def)
  from handle_key_wp [OF this, of c] \<open>fb_mapped hw\<close>
  show "wp (gui_handle_key hw c s)
      (\<lambda>t. (fb_mapped hw \<and> gui_shows t) \<and> gui_text t = text_key c (gui_text s) \<and> gui_frame s t)"
    by (auto elim: wp_mono)
qed (simp, rule gui_frame_trans)

lemma handle_keys_wp:
  assumes "fb_mapped hw" and "gui_shows s"
  shows "wp (for_each cs (gui_handle_key hw) s)
    (\<lambda>t. gui_shows t \<and> gui_frame s t \<and> gui_text t = fold text_key cs (gui_text s))"
  by (rule wp_mono [OF window.keys_follow [OF conjI [OF assms]]]) (simp_all add: list_all_iff)

section \<open>Initialisation and the task\<close>

lemma gui_init_wp:
  assumes "fb_mapped hw" and "length (gui_buf s) = 128" and "gui_len s = 0"
  shows "wp (gui_init hw s) (\<lambda>t. gui_shows t \<and> gui_text t = [] \<and> gui_frame (fb_init s) t)"
proof -
  have "gui_inv (fb_init s)" using assms(2,3) by (simp add: gui_inv_def fb_inv_def fb_init_def gui_text_def)
  moreover have "gui_text (fb_init s) = []" using assms(3) by (simp add: gui_text_def fb_init_def)
  ultimately show ?thesis
    using redraw_shows [OF assms(1), of "fb_init s"] by (auto simp: gui_init_def elim: wp_mono)
qed

text \<open>Without memory at the framebuffer's address the first store of the first \<open>fb_clear\<close> faults.\<close>

lemma for_each_fault: "xs \<noteq> [] \<Longrightarrow> f (hd xs) s = None \<Longrightarrow> for_each xs f s = None"
  by (cases xs) simp_all

lemma clear_fault:
  assumes "mem8 hw FRAMEBUFFER_ADDR = None" and "fb_inv s"
  shows "fb_clear hw c s = None"
proof -
  have d: "unat (fb_height s) = 768" "unat (fb_width s) = 1024" "fb s = FRAMEBUFFER_ADDR" using assms(2) by (simp_all add: fb_inv_def)
  have "put_pixel hw 0 c s = None" using assms(1) d(3) by (simp add: put_pixel_def list_all_iff exI [of _ 0])
  then show ?thesis unfolding fb_clear_def d
    by (intro for_each_fault) (simp_all add: d)
qed

text \<open>From one state to another the window has taken the keys that the scancodes received in between
  spell, and nothing else.\<close>

definition typed :: "'a gui_scheme \<Rightarrow> 'a gui_scheme \<Rightarrow> bool" where
  "typed s t \<longleftrightarrow> (\<exists>new. trace t = new @ trace s \<and>
     (let (cs, e) = spell (have_e0 s) (scancodes new) in gui_text t = fold text_key cs (gui_text s) \<and> have_e0 t = e))"

lemma typed_refl [simp]: "typed s s"
  unfolding typed_def by (intro exI [of _ "[]"]) (simp add: scancodes_def)

lemma typed_trans:
  assumes "typed s t" and "typed t u"
  shows "typed s u"
proof -
  obtain x cs where x: "trace t = x @ trace s" "spell (have_e0 s) (scancodes x) = (cs, have_e0 t)"
    "gui_text t = fold text_key cs (gui_text s)" using assms(1) by (force simp: typed_def Let_def)
  obtain y ds where y: "trace u = y @ trace t" "spell (have_e0 t) (scancodes y) = (ds, have_e0 u)"
    "gui_text u = fold text_key ds (gui_text t)" using assms(2) by (force simp: typed_def Let_def)
  have "spell (have_e0 s) (scancodes (y @ x)) = (cs @ ds, have_e0 u)"
    using x(2) y(2) by (simp add: scancodes_append spell_append)
  moreover have "trace u = (y @ x) @ trace s" using x(1) y(1) by simp
  ultimately show ?thesis
    unfolding typed_def using x(3) y(3) by (intro exI [of _ "y @ x"]) simp
qed

lemma typedD: "typed s t \<Longrightarrow> \<exists>cs. gui_text t = fold text_key cs (gui_text s)"
  by (auto simp: typed_def split_beta)

lemma read_char_gui:
  fixes s :: "'a gui_scheme"
  assumes "gui_shows s"
  shows "wp (keyboard_read_char hw s) (\<lambda>(c, t). gui_shows t \<and> gui_text t = gui_text s \<and>
    t = s\<lparr>trace := trace t, have_e0 := have_e0 t\<rparr> \<and> received t = received s + of_bool (pending hw s) \<and>
    (\<exists>new. trace t = new @ trace s \<and>
      spell (have_e0 s) (scancodes new) = (if c = NUL then [] else [c], have_e0 t)))"
proof (rule wp_mono [OF keyboard_read_char_spells], clarify)
  fix c new and t :: "'a gui_scheme"
  assume t: "t = s\<lparr>trace := trace t, have_e0 := have_e0 t\<rparr>" and r: "received t = received s + of_bool (pending hw s)"
    and n: "trace t = new @ trace s"
    "spell (have_e0 s) (scancodes new) = (if c = NUL then [] else [c], have_e0 t)"
  have "fb_inv t = fb_inv s" "picture t = picture s" "gui_buf t = gui_buf s" "gui_len t = gui_len s"
    by (subst t, simp add: fb_inv_def picture_def fun_eq_iff)+
  then have "gui_shows t" "gui_text t = gui_text s" using assms by (simp_all add: gui_shows_def gui_inv_def gui_text_def)
  with t r n show "gui_shows t \<and> gui_text t = gui_text s \<and> t = s\<lparr>trace := trace t, have_e0 := have_e0 t\<rparr> \<and>
      received t = received s + of_bool (pending hw s) \<and> (\<exists>new. trace t = new @ trace s \<and>
        spell (have_e0 s) (scancodes new) = (if c = NUL then [] else [c], have_e0 t))" by blast
qed

lemma gui_round_wp:
  fixes s :: "'a gui_scheme"
  assumes "fb_mapped hw" and "gui_shows s"
  shows "wp (gui_round hw s) (\<lambda>t. gui_shows t \<and> typed s t \<and>
    received t = received s + of_bool (pending hw s) \<and> gui_frame (s\<lparr>trace := trace t, have_e0 := have_e0 t\<rparr>) t)"
  unfolding gui_round_def
proof (rule wp_seq [OF read_char_gui [OF assms(2)]], clarify)
  fix c new and t :: "'a gui_scheme"
  assume t: "gui_shows t" "gui_text t = gui_text s" "t = s\<lparr>trace := trace t, have_e0 := have_e0 t\<rparr>"
    and r: "received t = received s + of_bool (pending hw s)"
    and n: "trace t = new @ trace s" "spell (have_e0 s) (scancodes new) = (if c = NUL then [] else [c], have_e0 t)"
  have took: "typed s u" if "trace u = trace t" "have_e0 u = have_e0 t"
      "gui_text u = fold text_key (if c = NUL then [] else [c]) (gui_text s)" for u :: "'a gui_scheme"
    unfolding typed_def using that n by (intro exI [of _ new]) simp
  show "wp (if c \<noteq> NUL then gui_handle_key hw c t else Some t) (\<lambda>u. gui_shows u \<and> typed s u \<and>
    received u = received s + of_bool (pending hw s) \<and> gui_frame (s\<lparr>trace := trace u, have_e0 := have_e0 u\<rparr>) u)"
  proof (cases "c = NUL")
    case True
    then show ?thesis using t r took [of t] by simp
  next
    case False
    have "gui_inv t" using t(1) by (simp add: gui_shows_def)
    then have "wp (gui_handle_key hw c t) (\<lambda>u. gui_shows u \<and> typed s u \<and>
      received u = received s + of_bool (pending hw s) \<and> gui_frame (s\<lparr>trace := trace u, have_e0 := have_e0 u\<rparr>) u)"
    proof (rule wp_mono [OF handle_key_wp [OF assms(1)]])
      fix u assume u: "gui_shows u \<and> gui_frame t u \<and> gui_text u = text_key c (gui_text t)"
      then have k: "trace u = trace t" "have_e0 u = have_e0 t" by (auto elim: gui_frameD)
      then have "s\<lparr>trace := trace u, have_e0 := have_e0 u\<rparr> = t" by (simp only: t(3) [symmetric])
      moreover have "received u = received t" using k(1) by (simp add: received_def)
      ultimately show "gui_shows u \<and> typed s u \<and> received u = received s + of_bool (pending hw s) \<and>
          gui_frame (s\<lparr>trace := trace u, have_e0 := have_e0 u\<rparr>) u"
        using u t(2) r took [OF k] False by auto
    qed
    then show ?thesis using False by simp
  qed
qed

section \<open>Borders\<close>

lemma wp_count_up:
  assumes "fb_inv s" and "fits (x2 + 1)" and "fits x"
    and "\<And>i t. x \<le> i \<Longrightarrow> i \<le> x2 \<Longrightarrow> fb_inv t \<Longrightarrow> wp (f i t) (coloured (P i) c t)"
  shows "wp (count_up x x2 f s) (coloured (\<lambda>u v. \<exists>i. x \<le> i \<and> i \<le> x2 \<and> P i u v) c s)"
  using assms
proof (induction "nat (x2 - x + 1)" arbitrary: x s)
  case 0
  then have "\<not> x \<le> x2" by simp
  then have "(\<lambda>u v. \<exists>i. x \<le> i \<and> i \<le> x2 \<and> P i u v) = (\<lambda>u v. False)" by (auto simp: fun_eq_iff)
  then show ?case using \<open>\<not> x \<le> x2\<close> coloured_refl by (simp add: count_up.simps [of x])
next
  case (Suc k)
  then have x: "x \<le> x2" by simp
  have f1: "fits (x + 1)" by (rule fits_between [OF Suc.prems(3,2)]) (use x in auto)
  have "wp (f x s) (coloured (P x) c s)" using Suc.prems x by simp
  then have "wp (f x s) (\<lambda>t. wp (count_up (x + 1) x2 f t) (coloured (\<lambda>u v. \<exists>i. x \<le> i \<and> i \<le> x2 \<and> P i u v) c s))"
  proof (rule wp_mono)
    fix t assume t: "coloured (P x) c s t"
    have "wp (count_up (x + 1) x2 f t) (coloured (\<lambda>u v. \<exists>i. x + 1 \<le> i \<and> i \<le> x2 \<and> P i u v) c t)"
      by (rule Suc.hyps(1)) (use Suc f1 colouredD(1) [OF t] in auto)
    then show "wp (count_up (x + 1) x2 f t) (coloured (\<lambda>u v. \<exists>i. x \<le> i \<and> i \<le> x2 \<and> P i u v) c s)"
    proof (rule wp_mono)
      fix r assume "coloured (\<lambda>u v. \<exists>i. x + 1 \<le> i \<and> i \<le> x2 \<and> P i u v) c t r"
      from coloured_trans [OF t this] show "coloured (\<lambda>u v. \<exists>i. x \<le> i \<and> i \<le> x2 \<and> P i u v) c s r"
      proof (rule coloured_cong)
        fix u v
        have e: "x \<le> i \<longleftrightarrow> i = x \<or> x + 1 \<le> i" for i by linarith
        show "(P x u v \<or> (\<exists>i. x + 1 \<le> i \<and> i \<le> x2 \<and> P i u v)) = (\<exists>i. x \<le> i \<and> i \<le> x2 \<and> P i u v)"
          unfolding e using x by auto
      qed
    qed
  qed
  then show ?case using x f1 by (simp add: count_up.simps [of x] add_int_fits)
qed

lemma two_pixels_wp:
  assumes "fb_mapped hw" and "fb_inv s"
  shows "wp (do { s \<leftarrow> fb_draw_pixel hw x y c s; fb_draw_pixel hw x' y' c s })
    (coloured (\<lambda>u v. (u = x \<and> v = y) \<or> (u = x' \<and> v = y')) c s)"
proof (rule wp_seq [OF draw_pixel_wp [OF assms]])
  fix t assume t: "coloured (\<lambda>u v. u = x \<and> v = y) c s t"
  then have "fb_inv t" using colouredD(1) assms(2) by blast
  from draw_pixel_wp [OF assms(1) this]
  show "wp (fb_draw_pixel hw x' y' c t) (coloured (\<lambda>u v. (u = x \<and> v = y) \<or> (u = x' \<and> v = y')) c s)"
    by (rule wp_mono) (rule coloured_trans [OF t])
qed

section \<open>Properties\<close>

definition gui_statics :: "framebuffer \<Rightarrow> gui" where
  "gui_statics f = framebuffer.extend f (gui.fields (replicate 128 NUL) 0)"

lemma gui_statics_simps [simp]:
  "gui_buf (gui_statics f) = replicate 128 NUL" "gui_len (gui_statics f) = 0" "fb_inv (gui_statics f) = fb_inv f"
  by (simp_all add: gui_statics_def framebuffer.defs gui.defs fb_inv_def)

text \<open>C10. The window's text: initialised, the window shows the empty text on white; then every sequence
  of characters edits the text as the specification says (printable ASCII is appended while
  there is room, backspace removes the last character, everything else is ignored), never
  leaves the buffer or the font, and leaves on the screen exactly the picture of the text.\<close>

theorem gui_keys_refine:
  assumes "fb_mapped hw" and "length (gui_buf s) = 128" and "gui_len s = 0"
  shows "wp (do { s \<leftarrow> gui_init hw s; for_each cs (gui_handle_key hw) s })
    (\<lambda>t. gui_text t = fold text_key cs [] \<and> picture t = text_picture (fold text_key cs []) \<and> gui_inv t \<and>
      gui_frame (fb_init s) t)"
proof (rule wp_seq [OF gui_init_wp [OF assms]])
  fix t assume t: "gui_shows t \<and> gui_text t = [] \<and> gui_frame (fb_init s) t"
  then show "wp (for_each cs (gui_handle_key hw) t)
    (\<lambda>t. gui_text t = fold text_key cs [] \<and> picture t = text_picture (fold text_key cs []) \<and> gui_inv t \<and>
      gui_frame (fb_init s) t)"
    by (intro wp_mono [OF handle_keys_wp [OF assms(1)]]) (auto simp: gui_shows_def intro: gui_frame_trans)
qed

theorem gui_keys_refine_witness:
  "wp (do { s \<leftarrow> gui_init mapped_machine (gui_statics (fb_statics booting_acpi));
      for_each (''Hi!'' @ [BACKSPACE, KEY_UP]) (gui_handle_key mapped_machine) s }) (\<lambda>t. gui_text t = ''Hi'')"
  by (rule wp_mono [OF gui_keys_refine [OF mapped_machine_fb]]) (simp_all add: text_key_def types_def)

text \<open>Initialising the window on a machine where nothing is mapped at the framebuffer's address
  faults at the first pixel.\<close>

theorem gui_init_unmapped:
  assumes "mem8 hw FRAMEBUFFER_ADDR = None"
  shows "gui_init hw s = None"
proof -
  have "fb_inv (fb_init s)" by (simp add: fb_inv_def fb_init_def)
  from clear_fault [OF assms this] show ?thesis by (simp add: gui_init_def redraw_def)
qed

text \<open>The memory the boot loader's tables map, the first 2 GiB, ends below the framebuffer.\<close>

theorem gui_init_unmapped_witness:
  "gui_init (mapped_machine\<lparr>mem8 := \<lambda>a. if a < 0x80000000 then Some 0 else None\<rparr>)
    (gui_statics (fb_statics booting_acpi)) = None"
  by (rule gui_init_unmapped) simp

text \<open>A border is drawn around exactly the points of a rectangle that lie on its edge, clipped to
  the screen.\<close>

theorem pane_border_draws:
  assumes "fb_mapped hw" and "fb_inv s" and "0 < rect_width p" and "0 < rect_height p" and "fits (rect_x p)"
    and "fits (rect_y p)" and "fits (rect_x p + rect_width p)" and "fits (rect_y p + rect_height p)"
  shows "wp (gui_draw_pane_border hw p s) (coloured (\<lambda>u v.
    rectangle (rect_x p) (rect_y p) (rect_width p) (rect_height p) u v \<and>
    (u = rect_x p \<or> u = rect_x p + rect_width p - 1 \<or> v = rect_y p \<or> v = rect_y p + rect_height p - 1))
    (border_color p) s)"
proof -
  let ?x = "rect_x p" and ?y = "rect_y p"
  let ?x2 = "?x + rect_width p - 1" and ?y2 = "?y + rect_height p - 1"
  have f: "fits ?x2" "fits ?y2"
    by (rule fits_between [OF assms(5,7)]; use assms(3) in simp) (rule fits_between [OF assms(6,8)]; use assms(4) in simp)
  have rows: "wp (count_up ?x ?x2 (\<lambda>x s. do { s \<leftarrow> fb_draw_pixel hw x ?y (border_color p) s;
      fb_draw_pixel hw x ?y2 (border_color p) s }) s)
    (coloured (\<lambda>u v. \<exists>i. ?x \<le> i \<and> i \<le> ?x2 \<and> ((u = i \<and> v = ?y) \<or> (u = i \<and> v = ?y2))) (border_color p) s)"
    by (rule wp_count_up [OF assms(2)]) (use assms(5,7) two_pixels_wp [OF assms(1)] in auto)
  have columns: "wp (count_up ?y ?y2 (\<lambda>y s. do { s \<leftarrow> fb_draw_pixel hw ?x y (border_color p) s;
      fb_draw_pixel hw ?x2 y (border_color p) s }) t)
    (coloured (\<lambda>u v. \<exists>i. ?y \<le> i \<and> i \<le> ?y2 \<and> ((u = ?x \<and> v = i) \<or> (u = ?x2 \<and> v = i))) (border_color p) t)"
    if "fb_inv t" for t :: "'a framebuffer_scheme"
    by (rule wp_count_up [OF that]) (use assms(6,8) two_pixels_wp [OF assms(1)] in auto)
  have run: "gui_draw_pane_border hw p s = do {
      s \<leftarrow> count_up ?x ?x2 (\<lambda>x s. do { s \<leftarrow> fb_draw_pixel hw x ?y (border_color p) s;
        fb_draw_pixel hw x ?y2 (border_color p) s }) s;
      count_up ?y ?y2 (\<lambda>y s. do { s \<leftarrow> fb_draw_pixel hw ?x y (border_color p) s;
        fb_draw_pixel hw ?x2 y (border_color p) s }) s }"
    using assms(7,8) f add_int_fits [of ?x "rect_width p"] add_int_fits [of ?y "rect_height p"]
      add_int_fits [of "?x + rect_width p" "-1"] add_int_fits [of "?y + rect_height p" "-1"]
    by (simp add: gui_draw_pane_border_def)
  show ?thesis
    unfolding run
  proof (rule wp_seq [OF rows])
    fix t assume t: "coloured (\<lambda>u v. \<exists>i. ?x \<le> i \<and> i \<le> ?x2 \<and> ((u = i \<and> v = ?y) \<or> (u = i \<and> v = ?y2))) (border_color p) s t"
    then have "fb_inv t" using colouredD(1) assms(2) by blast
    from columns [OF this]
    show "wp (count_up ?y ?y2 (\<lambda>y s. do { s \<leftarrow> fb_draw_pixel hw ?x y (border_color p) s;
        fb_draw_pixel hw ?x2 y (border_color p) s }) t) (coloured (\<lambda>u v.
      rectangle ?x ?y (rect_width p) (rect_height p) u v \<and> (u = ?x \<or> u = ?x2 \<or> v = ?y \<or> v = ?y2)) (border_color p) s)"
      by (rule wp_mono) (rule coloured_cong [OF coloured_trans [OF t]], use assms(3,4) in \<open>auto simp: rectangle_def\<close>)
  qed
qed

theorem pane_border_draws_witness:
  "wp (gui_draw_pane_border mapped_machine \<lparr>rect_x = 1020, rect_y = 10, rect_width = 8, rect_height = 4, border_color = 5\<rparr>
      (fb_statics booting_acpi))
    (\<lambda>t. picture t 1020 11 = Some 5 \<and> picture t 1021 11 = Some 0 \<and> picture t 1027 11 = None)"
  by (rule wp_mono [OF pane_border_draws [OF mapped_machine_fb fb_statics_inv(1)]])
    (auto simp: fits_def fb_statics_inv(2) colour_def on_screen_def rectangle_def dest!: colouredD(2))

end
