(* ===== verification/File_System.thy ===== *)
theory File_System
  imports C_String Simulation
begin

text \<open>
  \<open>src/kernel/fs/fs.c\<close>: the in-memory file system, a table of 16 descriptors. A \<open>struct file *\<close> is
  the index of its descriptor, or \<open>None\<close> for the null pointer; the buffers of \<open>fs_write\<close> and
  \<open>fs_read\<close> belong to the caller and do not overlap the table. The specification is a
  directory: for each descriptor nothing, or a name and a content.
\<close>

section \<open>State\<close>

record file_desc =
  fname :: "char list"
  fdata :: "char list"
  fsize :: nat
  fused :: bool

record fs =
  files :: "file_desc list"

abbreviation MAX_FILES :: nat where "MAX_FILES \<equiv> 16"
abbreviation NAME_SIZE :: nat where "NAME_SIZE \<equiv> 32"
abbreviation DATA_SIZE :: nat where "DATA_SIZE \<equiv> 4096"

definition fs_statics :: fs where
  "fs_statics = \<lparr>files = replicate MAX_FILES
     \<lparr>fname = replicate NAME_SIZE NUL, fdata = replicate DATA_SIZE NUL, fsize = 0, fused = False\<rparr>\<rparr>"

section \<open>Operations\<close>

definition put_file :: "nat \<Rightarrow> (file_desc \<Rightarrow> file_desc) \<Rightarrow> fs \<Rightarrow> fs option" where
  "put_file i g s = do {
     f \<leftarrow> rd (files s) i; fs' \<leftarrow> wr (files s) i (g f); Some (s\<lparr>files := fs'\<rparr>) }"

definition fs_init :: "fs \<Rightarrow> fs option" where
  "fs_init = for_each [0..<MAX_FILES] (\<lambda>i. put_file i (\<lambda>f. f\<lparr>fused := False\<rparr>))"

definition copy_name :: "char list \<Rightarrow> char list \<Rightarrow> char list option" where
  "copy_name dst src = do { (i, dst) \<leftarrow> copy_until 31 src 0 dst; wr dst i NUL }"

text \<open>The search loops: the first descriptor that passes a test.\<close>

primrec find_slot :: "(file_desc \<Rightarrow> bool option) \<Rightarrow> nat list \<Rightarrow> fs \<Rightarrow> nat option option" where
  "find_slot p [] s = Some None"
| "find_slot p (i # is) s = do {
     f \<leftarrow> rd (files s) i; b \<leftarrow> p f; if b then Some (Some i) else find_slot p is s }"

definition name_is :: "char list \<Rightarrow> file_desc \<Rightarrow> bool option" where
  "name_is name f = (if fused f then str_eq (fname f) name else Some False)"

definition fs_create :: "char list \<Rightarrow> fs \<Rightarrow> (nat option \<times> fs) option" where
  "fs_create name s = do {
     r \<leftarrow> find_slot (\<lambda>f. Some (\<not> fused f)) [0..<MAX_FILES] s;
     (case r of None \<Rightarrow> Some (None, s)
      | Some i \<Rightarrow> do {
          f \<leftarrow> rd (files s) i;
          n \<leftarrow> copy_name (fname f) name;
          s \<leftarrow> put_file i (\<lambda>f. f\<lparr>fname := n, fsize := 0, fused := True\<rparr>) s;
          Some (Some i, s) }) }"

definition fs_open :: "char list \<Rightarrow> fs \<Rightarrow> nat option option" where
  "fs_open name s = find_slot (name_is name) [0..<MAX_FILES] s"

definition fs_write :: "nat option \<Rightarrow> char list \<Rightarrow> nat \<Rightarrow> fs \<Rightarrow> (int \<times> fs) option" where
  "fs_write p data len s =
     (case p of None \<Rightarrow> Some (-1, s)
      | Some i \<Rightarrow> do {
          f \<leftarrow> rd (files s) i;
          if \<not> fused f then Some (-1, s)
          else do {
            let len = (if len > DATA_SIZE then DATA_SIZE else len);
            d \<leftarrow> for_each [0..<len] (\<lambda>k d. do { c \<leftarrow> rd data k; wr d k c }) (fdata f);
            s \<leftarrow> put_file i (\<lambda>f. f\<lparr>fdata := d, fsize := len\<rparr>) s;
            Some (int len, s) } })"

definition fs_read :: "nat option \<Rightarrow> char list \<Rightarrow> nat \<Rightarrow> fs \<Rightarrow> (int \<times> char list) option" where
  "fs_read p buf len s =
     (case p of None \<Rightarrow> Some (-1, buf)
      | Some i \<Rightarrow> do {
          f \<leftarrow> rd (files s) i;
          if \<not> fused f then Some (-1, buf)
          else do {
            let len = (if len > fsize f then fsize f else len);
            b \<leftarrow> for_each [0..<len] (\<lambda>k b. do { c \<leftarrow> rd (fdata f) k; wr b k c }) buf;
            Some (int len, b) } })"

primrec list_slots ::
    "nat list \<Rightarrow> nat \<Rightarrow> nat \<Rightarrow> nat option list \<Rightarrow> fs \<Rightarrow> (nat \<times> nat option list) option" where
  "list_slots [] mx count out s = Some (count, out)"
| "list_slots (i # is) mx count out s =
     (if count < mx then do {
        f \<leftarrow> rd (files s) i;
        if fused f then do { out \<leftarrow> wr out count (Some i); list_slots is mx (count + 1) out s }
        else list_slots is mx count out s }
      else Some (count, out))"

definition fs_list :: "nat option list \<Rightarrow> nat \<Rightarrow> fs \<Rightarrow> (int \<times> nat option list) option" where
  "fs_list out mx s = do {
     (count, out) \<leftarrow> list_slots [0..<MAX_FILES] mx 0 out s; Some (int count, out) }"

definition fs_delete :: "char list \<Rightarrow> fs \<Rightarrow> (int \<times> fs) option" where
  "fs_delete name s = do {
     r \<leftarrow> find_slot (name_is name) [0..<MAX_FILES] s;
     (case r of None \<Rightarrow> Some (-1, s)
      | Some i \<Rightarrow> do { s \<leftarrow> put_file i (\<lambda>f. f\<lparr>fused := False, fsize := 0\<rparr>) s; Some (0, s) }) }"

text \<open>The loop of \<open>fs_rename\<close>: whether it stopped at the new name, and the last match of the old.\<close>

primrec rename_scan :: "char list \<Rightarrow> char list \<Rightarrow> nat list \<Rightarrow> nat option \<Rightarrow> fs \<Rightarrow> (bool \<times> nat option) option" where
  "rename_scan old new [] src s = Some (False, src)"
| "rename_scan old new (i # is) src s = do {
     f \<leftarrow> rd (files s) i;
     a \<leftarrow> name_is old f;
     let src = (if a then Some i else src);
     b \<leftarrow> name_is new f;
     if b then Some (True, src) else rename_scan old new is src s }"

definition fs_rename :: "char list \<Rightarrow> char list \<Rightarrow> fs \<Rightarrow> (int \<times> fs) option" where
  "fs_rename oldname newname s = do {
     (taken, src) \<leftarrow> rename_scan oldname newname [0..<MAX_FILES] None s;
     if taken then Some (-1, s)
     else (case src of None \<Rightarrow> Some (-1, s)
       | Some i \<Rightarrow> do {
           f \<leftarrow> rd (files s) i;
           n \<leftarrow> copy_name (fname f) newname;
           s \<leftarrow> put_file i (\<lambda>f. f\<lparr>fname := n\<rparr>) s;
           Some (0, s) }) }"

section \<open>The directory\<close>

type_synonym directory = "(string \<times> string) option list"

definition entry_of :: "file_desc \<Rightarrow> (string \<times> string) option" where
  "entry_of f = (if fused f then Some (c_str (fname f), take (fsize f) (fdata f)) else None)"

definition dir_of :: "fs \<Rightarrow> directory" where
  "dir_of s = map entry_of (files s)"

definition file_ok :: "file_desc \<Rightarrow> bool" where
  "file_ok f \<longleftrightarrow> length (fname f) = NAME_SIZE \<and> terminated (fname f) \<and> length (fdata f) = DATA_SIZE \<and>
     fsize f \<le> DATA_SIZE"

definition fs_inv :: "fs \<Rightarrow> bool" where
  "fs_inv s \<longleftrightarrow> length (files s) = MAX_FILES \<and> list_all file_ok (files s)"

text \<open>The operations of the directory.\<close>

definition first :: "('a \<Rightarrow> bool) \<Rightarrow> 'a list \<Rightarrow> nat option" where
  "first P d = find (\<lambda>i. P (d ! i)) [0..<length d]"

definition named :: "string \<Rightarrow> (string \<times> string) option \<Rightarrow> bool" where
  "named n e = (case e of None \<Rightarrow> False | Some (m, c) \<Rightarrow> m = n)"

definition dir_create :: "string \<Rightarrow> directory \<Rightarrow> nat option \<times> directory" where
  "dir_create n d = (case first (\<lambda>e. e = None) d of None \<Rightarrow> (None, d)
     | Some i \<Rightarrow> (Some i, d[i := Some (take 31 n, [])]))"

definition dir_write :: "nat option \<Rightarrow> string \<Rightarrow> directory \<Rightarrow> int \<times> directory" where
  "dir_write p c d = (case Option.bind p ((!) d) of None \<Rightarrow> (-1, d)
     | Some (n, _) \<Rightarrow> (int (min (length c) DATA_SIZE), d[the p := Some (n, take DATA_SIZE c)]))"

definition dir_read :: "nat option \<Rightarrow> nat \<Rightarrow> directory \<Rightarrow> string option" where
  "dir_read p len d = map_option (\<lambda>(n, c). take len c) (Option.bind p ((!) d))"

definition dir_list :: "nat \<Rightarrow> directory \<Rightarrow> nat list" where
  "dir_list mx d = take mx (filter (\<lambda>i. d ! i \<noteq> None) [0..<length d])"

definition dir_delete :: "string \<Rightarrow> directory \<Rightarrow> int \<times> directory" where
  "dir_delete n d = (case first (named n) d of None \<Rightarrow> (-1, d) | Some i \<Rightarrow> (0, d[i := None]))"

definition dir_rename :: "string \<Rightarrow> string \<Rightarrow> directory \<Rightarrow> int \<times> directory" where
  "dir_rename old new d =
     (if first (named new) d \<noteq> None then (-1, d)
      else case find (\<lambda>i. named old (d ! i)) (rev [0..<length d]) of None \<Rightarrow> (-1, d)
        | Some i \<Rightarrow> (0, d[i := Some (take 31 new, snd (the (d ! i)))]))"

section \<open>Lemmas\<close>

lemma fs_invD:
  assumes "fs_inv s"
  shows "length (files s) = 16" "i < 16 \<Longrightarrow> file_ok (files s ! i)" "length (dir_of s) = 16"
    "i < 16 \<Longrightarrow> dir_of s ! i = entry_of (files s ! i)"
  using assms by (auto simp: fs_inv_def dir_of_def list_all_length)

text \<open>Storing a descriptor.\<close>

lemma put_file_wp:
  assumes "fs_inv s" and "i < 16" and "file_ok (g (files s ! i))"
  shows "wp (put_file i g s) (\<lambda>t. fs_inv t \<and> dir_of t = (dir_of s)[i := entry_of (g (files s ! i))])"
proof -
  note d = fs_invD [OF assms(1)]
  have "list_all file_ok ((files s)[i := g (files s ! i)])"
    using assms by (auto simp: fs_inv_def list_all_iff dest: subsetD [OF set_update_subset_insert])
  then show ?thesis using d(1) assms(2) by (simp add: put_file_def fs_inv_def dir_of_def map_update)
qed

text \<open>The searches.\<close>

lemma find_slot_eq:
  assumes "\<And>i. i \<in> set is \<Longrightarrow> i < length (files s) \<and> p (files s ! i) = Some (P (files s ! i))"
  shows "find_slot p is s = Some (find (\<lambda>i. P (files s ! i)) is)"
  using assms by (induction "is") auto

lemma name_is_eq: "file_ok f \<Longrightarrow> terminated n \<Longrightarrow> name_is n f = Some (named (c_str n) (entry_of f))"
  by (auto simp: name_is_def named_def entry_of_def file_ok_def)

lemma find_cong: "(\<And>i. i \<in> set xs \<Longrightarrow> P i = Q i) \<Longrightarrow> find P xs = find Q xs"
  by (induction xs) auto

lemma find_name:
  assumes "fs_inv s" and "terminated n"
  shows "find_slot (name_is n) [0..<16] s = Some (first (named (c_str n)) (dir_of s))"
proof -
  note d = fs_invD [OF assms(1)]
  have "find_slot (name_is n) [0..<16] s = Some (find (\<lambda>i. named (c_str n) (entry_of (files s ! i))) [0..<16])"
    by (rule find_slot_eq) (use d(1,2) name_is_eq [OF _ assms(2)] in auto)
  also have "find (\<lambda>i. named (c_str n) (entry_of (files s ! i))) [0..<16] = first (named (c_str n)) (dir_of s)"
    unfolding first_def d(3) by (rule find_cong) (use d(4) in auto)
  finally show ?thesis .
qed

lemma find_free:
  assumes "fs_inv s"
  shows "find_slot (\<lambda>f. Some (\<not> fused f)) [0..<16] s = Some (first (\<lambda>e. e = None) (dir_of s))"
proof -
  note d = fs_invD [OF assms(1)]
  have "find_slot (\<lambda>f. Some (\<not> fused f)) [0..<16] s = Some (find (\<lambda>i. \<not> fused (files s ! i)) [0..<16])"
    by (rule find_slot_eq) (use d(1) in auto)
  also have "find (\<lambda>i. \<not> fused (files s ! i)) [0..<16] = first (\<lambda>e. e = None) (dir_of s)"
    unfolding first_def d(3) by (rule find_cong) (use d(4) in \<open>auto simp: entry_of_def\<close>)
  finally show ?thesis .
qed

lemma first_SomeD: "first P d = Some i \<Longrightarrow> i < length d \<and> P (d ! i) \<and> (\<forall>j < i. \<not> P (d ! j))"
  by (auto simp: first_def find_Some_iff)

lemma first_NoneD: "first P d = None \<longleftrightarrow> (\<forall>i < length d. \<not> P (d ! i))"
  by (auto simp: first_def find_None_iff)

text \<open>Copies.\<close>

lemma copy_name_wp:
  assumes "terminated n" and "length dst = 32"
  shows "wp (copy_name dst n) (\<lambda>m. length m = 32 \<and> terminated m \<and> c_str m = take 31 (c_str n))"
proof -
  let ?t = "take 31 (c_str n)"
  have nul: "NUL \<notin> set ?t" using c_str_no_NUL [of n] by (auto dest: in_set_takeD)
  have len: "length ?t \<le> length dst" "length ?t < length dst" using assms(2) by auto
  show ?thesis
    unfolding copy_name_def copy_until_eq [OF assms(1) len(1)]
    using c_str_overwrite_NUL [OF nul len(2)] assms(2) len(2) by simp
qed

lemma copy_cells:
  assumes "n \<le> length src" and "n \<le> length dst"
  shows "for_each [0..<n] (\<lambda>k d. do { c \<leftarrow> rd src k; wr d k c }) dst = Some (overwrite 0 (take n src) dst)"
proof -
  have "for_each [0..<n] (\<lambda>k d. do { c \<leftarrow> rd src k; wr d k c }) (overwrite 0 (map ((!) src) [0..<0]) dst) =
      Some (overwrite 0 (map ((!) src) [0..<n]) dst)"
  proof (rule for_upt_state)
    fix i assume i: "i < n"
    then show "(do { c \<leftarrow> rd src i; wr (overwrite 0 (map ((!) src) [0..<i]) dst) i c }) =
        Some (overwrite 0 (map ((!) src) [0..<Suc i]) dst)"
      using assms overwrite_upt_step [of 0 i dst "(!) src"] by simp
  qed
  moreover have "map ((!) src) [0..<n] = take n src" using assms(1) by (auto intro: nth_equalityI)
  ultimately show ?thesis by simp
qed

section \<open>Every operation implements the directory's\<close>

lemma fs_init_wp:
  assumes "length (files s) = 16" and "list_all (\<lambda>f. file_ok (f\<lparr>fused := False\<rparr>)) (files s)"
  shows "wp (fs_init s) (\<lambda>t. fs_inv t \<and> dir_of t = replicate 16 None)"
proof -
  let ?off = "\<lambda>f. f\<lparr>fused := False\<rparr>"
  let ?st = "\<lambda>n. s\<lparr>files := overwrite 0 (map (\<lambda>i. ?off (files s ! i)) [0..<n]) (files s)\<rparr>"
  have "for_each [0..<16] (\<lambda>i. put_file i ?off) (?st 0) = Some (?st 16)"
  proof (rule for_upt_state)
    fix i :: nat assume i: "i < 16"
    have "overwrite 0 (map (\<lambda>i. ?off (files s ! i)) [0..<i]) (files s) ! i = files s ! i"
      using i assms(1) by (simp add: overwrite_def nth_append)
    then show "put_file i ?off (?st i) = Some (?st (Suc i))"
      using i assms(1) overwrite_upt_step [of 0 i "files s" "\<lambda>i. ?off (files s ! i)"]
      by (simp add: put_file_def)
  qed
  moreover have "?st 16 = s\<lparr>files := map ?off (files s)\<rparr>"
    using assms(1) by (subst overwrite_all) (simp_all add: list_eq_iff_nth_eq)
  ultimately have "fs_init s = Some (s\<lparr>files := map ?off (files s)\<rparr>)"
    by (simp add: fs_init_def)
  then show ?thesis
    using assms by (simp add: fs_inv_def dir_of_def list_all_iff entry_of_def list_eq_iff_nth_eq)
qed

lemma fs_create_wp:
  assumes "fs_inv s" and "terminated name"
  shows "wp (fs_create name s) (\<lambda>(p, t). fs_inv t \<and> (p, dir_of t) = dir_create (c_str name) (dir_of s))"
proof (cases "first (\<lambda>e. e = None) (dir_of s)")
  case None
  then show ?thesis using assms(1) find_free [OF assms(1)] by (simp add: fs_create_def dir_create_def)
next
  case (Some i)
  note d = fs_invD [OF assms(1)]
  have i: "i < 16" using first_SomeD [OF Some] d(3) by simp
  note ok = d(2) [OF i]
  have len: "length (fname (files s ! i)) = 32" using ok by (simp add: file_ok_def)
  obtain m where m: "copy_name (fname (files s ! i)) name = Some m" "length m = 32" "terminated m"
      "c_str m = take 31 (c_str name)"
    using copy_name_wp [OF assms(2) len] by (auto simp: wp_iff_Some)
  let ?g = "\<lambda>f. f\<lparr>fname := m, fsize := 0, fused := True\<rparr>"
  have g: "file_ok (?g (files s ! i))" using ok m by (simp add: file_ok_def)
  have "wp (put_file i ?g s) (\<lambda>t. fs_inv t \<and> (Some i, dir_of t) = dir_create (c_str name) (dir_of s))"
    by (rule wp_mono [OF put_file_wp [where g = ?g, OF assms(1) i g]])
      (simp add: dir_create_def Some entry_of_def m(4))
  then show ?thesis
    using find_free [OF assms(1)] Some d(1) i m(1) by (simp add: fs_create_def)
qed

lemma fs_open_eq:
  assumes "fs_inv s" and "terminated name"
  shows "fs_open name s = Some (first (named (c_str name)) (dir_of s))"
  using find_name [OF assms] by (simp add: fs_open_def)

definition handle_ok :: "nat option \<Rightarrow> bool" where
  "handle_ok p = (case p of None \<Rightarrow> True | Some i \<Rightarrow> i < 16)"

lemma fs_write_wp:
  assumes "fs_inv s" and "handle_ok p" and "min len 4096 \<le> length bs"
  shows "wp (fs_write p bs len s) (\<lambda>(r, t). fs_inv t \<and> (r, dir_of t) = dir_write p (take len bs) (dir_of s))"
proof (cases p)
  case None
  then show ?thesis using assms(1) by (simp add: fs_write_def dir_write_def)
next
  case (Some i)
  note d = fs_invD [OF assms(1)]
  have i: "i < 16" using assms(2) Some by (simp add: handle_ok_def)
  note ok = d(2) [OF i] and e = d(4) [OF i]
  show ?thesis
  proof (cases "fused (files s ! i)")
    case False
    then show ?thesis using assms(1) Some i d(1) e by (simp add: fs_write_def dir_write_def entry_of_def)
  next
    case True
    let ?n = "min len 4096"
    have n: "(if len > 4096 then 4096 else len) = ?n" by simp
    let ?c = "overwrite 0 (take ?n bs) (fdata (files s ! i))"
    let ?g = "\<lambda>f. f\<lparr>fdata := ?c, fsize := ?n\<rparr>"
    have dl: "length (fdata (files s ! i)) = 4096" using ok by (simp add: file_ok_def)
    have copy: "for_each [0..<?n] (\<lambda>k d. do { c \<leftarrow> rd bs k; wr d k c }) (fdata (files s ! i)) = Some ?c"
      by (rule copy_cells) (use assms(3) dl in simp_all)
    have g: "file_ok (?g (files s ! i))" using ok dl assms(3) by (simp add: file_ok_def)
    have "take ?n ?c = take ?n bs" using take_overwrite [of "take ?n bs" "fdata (files s ! i)"] assms(3)
      by (simp only: length_take min_absorb2)
    then have "entry_of (?g (files s ! i)) = Some (c_str (fname (files s ! i)), take ?n bs)"
      using True by (simp add: entry_of_def)
    moreover have "int (min (length (take len bs)) 4096) = int ?n" "take 4096 (take len bs) = take ?n bs"
      using assms(3) by (auto simp: min_def)
    ultimately have "wp (put_file i ?g s) (\<lambda>t. fs_inv t \<and> (int ?n, dir_of t) = dir_write p (take len bs) (dir_of s))"
      using True Some e
      by (intro wp_mono [OF put_file_wp [where g = ?g, OF assms(1) i g]]) (simp add: dir_write_def entry_of_def)
    then show ?thesis
      using True Some i d(1) copy unfolding fs_write_def n by (simp add: Let_def)
  qed
qed

lemma fs_read_wp:
  assumes "fs_inv s" and "handle_ok p"
    and "\<forall>c. dir_read p len (dir_of s) = Some c \<longrightarrow> length c \<le> length buf"
  shows "wp (fs_read p buf len s) (\<lambda>(r, b). (r, b) = (case dir_read p len (dir_of s) of
    None \<Rightarrow> (-1, buf) | Some c \<Rightarrow> (int (length c), overwrite 0 c buf)))"
proof (cases p)
  case None
  then show ?thesis by (simp add: fs_read_def dir_read_def)
next
  case (Some i)
  note d = fs_invD [OF assms(1)]
  have i: "i < 16" using assms(2) Some by (simp add: handle_ok_def)
  note ok = d(2) [OF i] and e = d(4) [OF i]
  show ?thesis
  proof (cases "fused (files s ! i)")
    case False
    then show ?thesis using Some i d(1) e by (simp add: fs_read_def dir_read_def entry_of_def)
  next
    case True
    let ?f = "files s ! i"
    let ?n = "min len (fsize ?f)"
    have n: "(if len > fsize ?f then fsize ?f else len) = ?n" by simp
    have r: "dir_read p len (dir_of s) = Some (take ?n (fdata ?f))"
      using True Some e by (simp add: dir_read_def entry_of_def)
    have l: "length (take ?n (fdata ?f)) = ?n" using ok by (simp add: file_ok_def min_def)
    have "for_each [0..<?n] (\<lambda>k b. do { c \<leftarrow> rd (fdata ?f) k; wr b k c }) buf
        = Some (overwrite 0 (take ?n (fdata ?f)) buf)"
      by (rule copy_cells) (use assms(3) r l in auto)
    then show ?thesis
      using True Some i d(1) l r by (simp add: fs_read_def n Let_def)
  qed
qed

lemma list_slots_eq:
  assumes "\<And>i. i \<in> set is \<Longrightarrow> i < length (files s)"
    and "count + length (take (mx - count) (filter (\<lambda>i. fused (files s ! i)) is)) \<le> length out"
  shows "list_slots is mx count out s =
    (let xs = take (mx - count) (filter (\<lambda>i. fused (files s ! i)) is)
     in Some (count + length xs, overwrite count (map Some xs) out))"
  using assms
proof (induction "is" arbitrary: count out)
  case Nil
  then show ?case by simp
next
  case (Cons i "is")
  show ?case
  proof (cases "count < mx")
    case False
    then show ?thesis by simp
  next
    case True
    then obtain m where m: "mx - count = Suc m" "mx - (count + 1) = m" by (cases "mx - count") auto
    show ?thesis
    proof (cases "fused (files s ! i)")
      case False
      then show ?thesis using Cons True by simp
    next
      case used: True
      let ?ys = "take m (filter (\<lambda>i. fused (files s ! i)) is)"
      have len: "count < length out" "count + 1 + length ?ys \<le> length out" using Cons.prems(2) used m(1) by simp_all
      have "list_slots is mx (count + 1) (out[count := Some i]) s =
          Some (count + 1 + length ?ys, overwrite (count + 1) (map Some ?ys) (out[count := Some i]))"
        using Cons.IH [of "count + 1" "out[count := Some i]"] Cons.prems(1) len m(2) by (simp add: Let_def)
      then show ?thesis
        using used True m(1) len(1) Cons.prems(1) overwrite_Cons [OF len(1)] by (simp add: Let_def)
    qed
  qed
qed

lemma fs_list_eq:
  assumes "fs_inv s" and "length (dir_list mx (dir_of s)) \<le> length out"
  shows "fs_list out mx s = Some (int (length (dir_list mx (dir_of s))),
    overwrite 0 (map Some (dir_list mx (dir_of s))) out)"
proof -
  note d = fs_invD [OF assms(1)]
  have f: "filter (\<lambda>i. dir_of s ! i \<noteq> None) [0..<16] = filter (\<lambda>i. fused (files s ! i)) [0..<16]"
    using d(4) by (intro filter_cong) (auto simp: entry_of_def)
  have l: "dir_list mx (dir_of s) = take mx (filter (\<lambda>i. fused (files s ! i)) [0..<16])"
    unfolding dir_list_def d(3) f ..
  show ?thesis
    using list_slots_eq [of "[0..<16]" s 0 mx out] assms(2) d(1) unfolding fs_list_def l by (simp add: Let_def)
qed

lemma fs_delete_wp:
  assumes "fs_inv s" and "terminated name"
  shows "wp (fs_delete name s) (\<lambda>(r, t). fs_inv t \<and> (r, dir_of t) = dir_delete (c_str name) (dir_of s))"
proof (cases "first (named (c_str name)) (dir_of s)")
  case None
  then show ?thesis using assms(1) find_name [OF assms] by (simp add: fs_delete_def dir_delete_def)
next
  case (Some i)
  note d = fs_invD [OF assms(1)]
  have i: "i < 16" using first_SomeD [OF Some] d(3) by simp
  let ?g = "\<lambda>f. f\<lparr>fused := False, fsize := 0\<rparr>"
  have g: "file_ok (?g (files s ! i))" using d(2) [OF i] by (simp add: file_ok_def)
  have "wp (put_file i ?g s) (\<lambda>t. fs_inv t \<and> (0, dir_of t) = dir_delete (c_str name) (dir_of s))"
    by (rule wp_mono [OF put_file_wp [where g = ?g, OF assms(1) i g]]) (simp add: dir_delete_def Some entry_of_def)
  then show ?thesis using find_name [OF assms] Some by (simp add: fs_delete_def)
qed

lemma rename_scan_eq:
  assumes "fs_inv s" and "terminated old" and "terminated new" and "\<And>i. i \<in> set is \<Longrightarrow> i < 16"
  shows "wp (rename_scan old new is src s) (\<lambda>(taken, p).
    (taken \<longleftrightarrow> (\<exists>i \<in> set is. named (c_str new) (dir_of s ! i))) \<and>
    (\<not> taken \<longrightarrow> p = (case find (\<lambda>i. named (c_str old) (dir_of s ! i)) (rev is) of None \<Rightarrow> src | Some i \<Rightarrow> Some i)))"
  using assms(4)
proof (induction "is" arbitrary: src)
  case Nil
  then show ?case by simp
next
  case (Cons i "is")
  note d = fs_invD [OF assms(1)]
  have i: "i < 16" using Cons.prems by simp
  have n: "name_is old (files s ! i) = Some (named (c_str old) (dir_of s ! i))"
    "name_is new (files s ! i) = Some (named (c_str new) (dir_of s ! i))"
    using name_is_eq [OF d(2) [OF i]] assms(2,3) d(4) [OF i] by simp_all
  have app: "find P (xs @ ys) = (case find P xs of None \<Rightarrow> find P ys | Some x \<Rightarrow> Some x)" for P and xs ys :: "nat list"
    by (induction xs) auto
  let ?src = "if named (c_str old) (dir_of s ! i) then Some i else src"
  show ?case
  proof (cases "named (c_str new) (dir_of s ! i)")
    case True
    then show ?thesis using n i d(1) by simp
  next
    case False
    with Cons.IH [of ?src] Cons.prems n i d(1) show ?thesis
      by (auto simp: app elim!: wp_mono split: option.splits)
  qed
qed

lemma fs_rename_wp:
  assumes "fs_inv s" and "terminated old" and "terminated new"
  shows "wp (fs_rename old new s) (\<lambda>(r, t). fs_inv t \<and>
    (r, dir_of t) = dir_rename (c_str old) (c_str new) (dir_of s))"
proof -
  note d = fs_invD [OF assms(1)]
  let ?p = "find (\<lambda>i. named (c_str old) (dir_of s ! i)) (rev [0..<16])"
  have taken: "(\<exists>i \<in> set [0..<16]. named (c_str new) (dir_of s ! i)) \<longleftrightarrow> first (named (c_str new)) (dir_of s) \<noteq> None"
    using first_NoneD [of "named (c_str new)" "dir_of s"] d(3) by auto
  obtain b p where sc: "rename_scan old new [0..<16] None s = Some (b, p)"
    "b \<longleftrightarrow> first (named (c_str new)) (dir_of s) \<noteq> None" "\<not> b \<Longrightarrow> p = ?p"
    using rename_scan_eq [OF assms, of "[0..<16]" None] unfolding taken
    by (auto simp: wp_iff_Some split: option.splits)
  show ?thesis
  proof (cases "b \<or> ?p = None")
    case True
    then show ?thesis using sc assms(1) d(3) by (auto simp: fs_rename_def dir_rename_def)
  next
    case False
    then obtain i where p: "p = Some i" "?p = Some i" using sc(3) by auto
    then have i: "i < 16" "named (c_str old) (dir_of s ! i)" by (auto simp: find_Some_iff rev_nth)
    note ok = d(2) [OF i(1)]
    have len: "length (fname (files s ! i)) = 32" using ok by (simp add: file_ok_def)
    obtain m where m: "copy_name (fname (files s ! i)) new = Some m" "length m = 32" "terminated m"
        "c_str m = take 31 (c_str new)"
      using copy_name_wp [OF assms(3) len] by (auto simp: wp_iff_Some)
    let ?g = "\<lambda>f. f\<lparr>fname := m\<rparr>"
    have g: "file_ok (?g (files s ! i))" using ok m by (simp add: file_ok_def)
    have "entry_of (?g (files s ! i)) = Some (take 31 (c_str new), snd (the (dir_of s ! i)))"
      using i d(4) [OF i(1)] m(4) by (auto simp: entry_of_def named_def split: if_splits)
    then have "wp (put_file i ?g s) (\<lambda>t. fs_inv t \<and> (0, dir_of t) = dir_rename (c_str old) (c_str new) (dir_of s))"
      by (intro wp_mono [OF put_file_wp [where g = ?g, OF assms(1) i(1) g]])
        (use False sc(2) p(2) d(3) in \<open>simp add: dir_rename_def\<close>)
    then show ?thesis using sc(1) False p(1) d(1) i(1) m(1) by (simp add: fs_rename_def)
  qed
qed

section \<open>Sequences of calls\<close>

text \<open>A client is a sequence of calls. \<open>fs_do\<close> runs one on the table, \<open>dir_do\<close> on the
  directory; \<open>call_ok\<close> is what a client has to ensure: terminated names, handles that point
  into the table, and buffers as long as the bytes that are moved.\<close>

datatype fs_call =
    FCreate "char list" | FOpen "char list" | FWrite "nat option" "char list" nat
  | FRead "nat option" "char list" nat | FList "nat option list" nat
  | FDelete "char list" | FRename "char list" "char list"

datatype fs_result = Handle "nat option" | Status int | Bytes int "char list" | Handles int "nat option list"

fun fs_do :: "fs_call \<Rightarrow> fs \<Rightarrow> (fs_result \<times> fs) option" where
  "fs_do (FCreate n) s = map_option (\<lambda>(p, t). (Handle p, t)) (fs_create n s)"
| "fs_do (FOpen n) s = map_option (\<lambda>p. (Handle p, s)) (fs_open n s)"
| "fs_do (FWrite p bs len) s = map_option (\<lambda>(r, t). (Status r, t)) (fs_write p bs len s)"
| "fs_do (FRead p buf len) s = map_option (\<lambda>(r, b). (Bytes r b, s)) (fs_read p buf len s)"
| "fs_do (FList out mx) s = map_option (\<lambda>(r, out). (Handles r out, s)) (fs_list out mx s)"
| "fs_do (FDelete n) s = map_option (\<lambda>(r, t). (Status r, t)) (fs_delete n s)"
| "fs_do (FRename n m) s = map_option (\<lambda>(r, t). (Status r, t)) (fs_rename n m s)"

fun dir_do :: "fs_call \<Rightarrow> directory \<Rightarrow> fs_result \<times> directory" where
  "dir_do (FCreate n) d = apfst Handle (dir_create (c_str n) d)"
| "dir_do (FOpen n) d = (Handle (first (named (c_str n)) d), d)"
| "dir_do (FWrite p bs len) d = apfst Status (dir_write p (take len bs) d)"
| "dir_do (FRead p buf len) d = ((case dir_read p len d of None \<Rightarrow> Bytes (-1) buf
     | Some c \<Rightarrow> Bytes (int (length c)) (overwrite 0 c buf)), d)"
| "dir_do (FList out mx) d = (let l = dir_list mx d
     in (Handles (int (length l)) (overwrite 0 (map Some l) out), d))"
| "dir_do (FDelete n) d = apfst Status (dir_delete (c_str n) d)"
| "dir_do (FRename n m) d = apfst Status (dir_rename (c_str n) (c_str m) d)"

fun call_ok :: "fs_call \<Rightarrow> directory \<Rightarrow> bool" where
  "call_ok (FCreate n) d = terminated n"
| "call_ok (FOpen n) d = terminated n"
| "call_ok (FWrite p bs len) d = (handle_ok p \<and> min len 4096 \<le> length bs)"
| "call_ok (FRead p buf len) d = (handle_ok p \<and>
     (case dir_read p len d of None \<Rightarrow> True | Some c \<Rightarrow> length c \<le> length buf))"
| "call_ok (FList out mx) d = (length (dir_list mx d) \<le> length out)"
| "call_ok (FDelete n) d = terminated n"
| "call_ok (FRename n m) d = (terminated n \<and> terminated m)"

lemma wp_mono_pair:
  "wp m (\<lambda>(x, y). P x y) \<Longrightarrow> (\<And>x y. P x y \<Longrightarrow> Q x y) \<Longrightarrow> wp m (\<lambda>(x, y). Q x y)"
  by (cases m) auto

lemma wp_map_option: "wp (map_option f m) Q = wp m (\<lambda>x. Q (f x))"
  by (cases m) simp_all

lemma apfst_eqI: "(a, b) = p \<Longrightarrow> (f a, b) = apfst f p"
  by (cases p) simp

lemma fs_do_wp:
  assumes "fs_inv s" and "call_ok c (dir_of s)"
  shows "wp (fs_do c s) (\<lambda>(r, t). fs_inv t \<and> (r, dir_of t) = dir_do c (dir_of s))"
proof (cases c)
  case (FCreate n)
  then show ?thesis using fs_create_wp [OF assms(1), of n] assms(2)
    by (auto simp: wp_map_option intro: apfst_eqI elim!: wp_mono)
next
  case (FOpen n)
  then show ?thesis using fs_open_eq [OF assms(1), of n] assms by simp
next
  case (FWrite p bs len)
  then show ?thesis using fs_write_wp [OF assms(1), of p len bs] assms(2)
    by (auto simp: wp_map_option intro: apfst_eqI elim!: wp_mono)
next
  case (FRead p buf len)
  then have "handle_ok p" "\<forall>c. dir_read p len (dir_of s) = Some c \<longrightarrow> length c \<le> length buf"
    using assms(2) by auto
  from fs_read_wp [OF assms(1) this] show ?thesis
    using assms(1) FRead by (auto simp: wp_map_option elim!: wp_mono split: option.splits)
next
  case (FList out mx)
  then show ?thesis using fs_list_eq [OF assms(1), of mx out] assms by (simp add: Let_def)
next
  case (FDelete n)
  then show ?thesis using fs_delete_wp [OF assms(1), of n] assms(2)
    by (auto simp: wp_map_option intro: apfst_eqI elim!: wp_mono)
next
  case (FRename n m)
  then show ?thesis using fs_rename_wp [OF assms(1), of n m] assms(2)
    by (auto simp: wp_map_option intro: apfst_eqI elim!: wp_mono)
qed

interpretation files: simulation fs_do dir_do dir_of fs_inv call_ok "\<lambda>s t. True"
  by unfold_locales (use fs_do_wp in \<open>auto elim!: wp_mono\<close>)

section \<open>Names\<close>

definition unique_names :: "directory \<Rightarrow> bool" where
  "unique_names d \<longleftrightarrow> (\<forall>i < length d. \<forall>j < length d. \<forall>n. named n (d ! i) \<longrightarrow> named n (d ! j) \<longrightarrow> i = j)"

lemma named_simps [simp]: "named n None = False" "named n (Some (m, c)) = (m = n)"
  by (simp_all add: named_def)

lemma first_cong: "length d' = length d \<Longrightarrow> (\<And>i. i < length d \<Longrightarrow> P (d' ! i) = Q (d ! i)) \<Longrightarrow> first P d' = first Q d"
  by (auto simp: first_def intro!: find_cong)

lemma first_only:
  assumes "i < length d" and "P (d ! i)" and "\<And>j. j < length d \<Longrightarrow> P (d ! j) \<Longrightarrow> j = i"
  shows "first P d = Some i"
proof (cases "first P d")
  case None
  with assms(1,2) show ?thesis by (simp add: first_NoneD)
next
  case (Some j)
  with assms(3) show ?thesis using first_SomeD [OF Some] by simp
qed

text \<open>Giving an entry a name that no entry has.\<close>

lemma name_entry:
  assumes "unique_names d" and "first (named n) d = None" and "i < length d"
  shows "unique_names (d[i := Some (n, c)])" and "first (named n) (d[i := Some (n, c)]) = Some i"
    and "m \<noteq> n \<Longrightarrow> \<not> named m (d ! i) \<Longrightarrow> first (named m) (d[i := Some (n, c)]) = first (named m) d"
proof -
  have fresh: "\<And>j. j < length d \<Longrightarrow> \<not> named n (d ! j)" using assms(2) by (simp add: first_NoneD)
  then show "unique_names (d[i := Some (n, c)])"
    using assms(1,3) by (auto simp: unique_names_def nth_list_update split: if_splits)
  show "first (named n) (d[i := Some (n, c)]) = Some i"
    by (rule first_only) (use assms(3) fresh in \<open>auto simp: nth_list_update split: if_splits\<close>)
  show "m \<noteq> n \<Longrightarrow> \<not> named m (d ! i) \<Longrightarrow> first (named m) (d[i := Some (n, c)]) = first (named m) d"
    by (rule first_cong) (use assms(3) in \<open>auto simp: nth_list_update split: if_splits\<close>)
qed

lemma first_unique:
  assumes "unique_names d" and "i < length d" and "named n (d ! i)"
  shows "first (named n) d = Some i"
  using assms by (intro first_only) (auto simp: unique_names_def)

lemma find_rev_unique:
  assumes "unique_names d"
  shows "find (\<lambda>i. named n (d ! i)) (rev [0..<length d]) = first (named n) d"
proof (cases "find (\<lambda>i. named n (d ! i)) (rev [0..<length d])")
  case None
  then have "first (named n) d = None" by (auto simp: find_None_iff first_NoneD)
  then show ?thesis using None by simp
next
  case (Some i)
  then have "i < length d" "named n (d ! i)" by (auto simp: find_Some_iff rev_nth)
  from first_unique [OF assms this] show ?thesis using Some by simp
qed

section \<open>Properties\<close>

text \<open>The file system at boot, after \<open>fs_init\<close>.\<close>

lemma fs_statics_inv [simp]: "fs_inv fs_statics" "dir_of fs_statics = replicate 16 None"
proof -
  have f: "files fs_statics = replicate 16 \<lparr>fname = replicate 32 NUL, fdata = replicate 4096 NUL, fsize = 0, fused = False\<rparr>"
    unfolding fs_statics_def by simp
  have n: "terminated (replicate 32 NUL)" by (simp add: terminated_def)
  show "fs_inv fs_statics" unfolding fs_inv_def f using n by (simp add: list_all_iff file_ok_def)
  show "dir_of fs_statics = replicate 16 None" unfolding dir_of_def f by (simp add: entry_of_def)
qed

text \<open>C3. The file system implements the directory: for every sequence of calls of a client that
  passes terminated names, handles of the table and buffers of the size it states, no call
  leaves its arrays or the table, and every result (handles, status codes, the bytes read and
  the lists stored) and the final table are those of the directory: creation takes the first
  free descriptor, look-up finds the first of that name, names are cut to 31 characters and
  contents to 4096, deletion frees the descriptor, renaming refuses a name that exists.\<close>

theorem fs_refines_directory:
  assumes "fs_inv s" and "calls_ok call_ok dir_do cs (dir_of s)"
  shows "wp (run_calls fs_do cs s) (\<lambda>(rs, t). fs_inv t \<and> (rs, dir_of t) = spec_calls dir_do cs (dir_of s))"
  using files.calls_follow [OF assms] by simp


theorem fs_refines_directory_witness:
  "wp (run_calls fs_do [FCreate (c_lit ''test''), FWrite (Some 0) ''hello'' 5, FRead (Some 0) (replicate 6 NUL) 5,
      FRename (c_lit ''test'') (c_lit ''new''), FOpen (c_lit ''new'')] fs_statics)
    (\<lambda>(rs, t). rs = [Handle (Some 0), Status 5, Bytes 5 (''hello'' @ [NUL]), Status 0, Handle (Some 0)])"
proof -
  let ?cs = "[FCreate (c_lit ''test''), FWrite (Some 0) ''hello'' 5, FRead (Some 0) (replicate 6 NUL) 5,
      FRename (c_lit ''test'') (c_lit ''new''), FOpen (c_lit ''new'')]"
  have ok: "calls_ok call_ok dir_do ?cs (dir_of fs_statics)" unfolding fs_statics_inv(2) by code_simp
  have run: "fst (spec_calls dir_do ?cs (dir_of fs_statics)) =
      [Handle (Some 0), Status 5, Bytes 5 (''hello'' @ [NUL]), Status 0, Handle (Some 0)]"
    unfolding fs_statics_inv(2) by code_simp
  show ?thesis
    by (rule wp_mono [OF fs_refines_directory [OF fs_statics_inv(1) ok]])
      (use run in \<open>auto simp del: spec_calls.simps fs_statics_inv(2) dest: arg_cong [where f = fst]\<close>)
qed

text \<open>C27. Reading back: after a write the file holds the first \<open>min len 4096\<close> bytes given, the
  call returns their number, and a read copies the bytes asked for, at most as many as the file
  holds, into the front of the buffer, leaving the rest of it alone.\<close>

theorem fs_write_read:
  assumes "fs_inv s" and "i < 16" and "fused (files s ! i)" and "min len 4096 \<le> length bs"
    and "min n (min len 4096) \<le> length buf"
  shows "wp (do { (r, t) \<leftarrow> fs_write (Some i) bs len s; (k, b) \<leftarrow> fs_read (Some i) buf n t; Some (r, k, b) })
    (\<lambda>(r, k, b). r = int (min len 4096) \<and> k = int (min n (min len 4096)) \<and>
      take (nat k) b = take (nat k) bs \<and> drop (nat k) b = drop (nat k) buf)"
proof -
  let ?m = "min len 4096" and ?k = "min n (min len 4096)"
  have h: "handle_ok (Some i)" using assms(2) by (simp add: handle_ok_def)
  have e: "dir_of s ! i = Some (c_str (fname (files s ! i)), take (fsize (files s ! i)) (fdata (files s ! i)))"
    using fs_invD(4) [OF assms(1,2)] assms(3) by (simp add: entry_of_def)
  have m: "min (length (take len bs)) 4096 = ?m" "take 4096 (take len bs) = take ?m bs"
    using assms(4) by (auto simp: min_def)
  obtain r t where w: "fs_write (Some i) bs len s = Some (r, t)" "fs_inv t"
    "(r, dir_of t) = dir_write (Some i) (take len bs) (dir_of s)"
    using fs_write_wp [OF assms(1) h assms(4)] by (auto simp: wp_iff_Some)
  have r: "r = int ?m" and t: "dir_of t ! i = Some (c_str (fname (files s ! i)), take ?m bs)"
    using w(3) e m fs_invD(3) [OF assms(1)] assms(2) by (auto simp: dir_write_def)
  have d: "dir_read (Some i) n (dir_of t) = Some (take ?k bs)" using t by (simp add: dir_read_def)
  have l: "length (take ?k bs) = ?k" using assms(4) by simp
  have "wp (fs_read (Some i) buf n t) (\<lambda>(k, b). k = int ?k \<and> b = overwrite 0 (take ?k bs) buf)"
    by (rule wp_mono [OF fs_read_wp [OF w(2) h]]) (use d l assms(5) in auto)
  then obtain b where run: "fs_read (Some i) buf n t = Some (int ?k, b)" and b: "b = overwrite 0 (take ?k bs) buf"
    by (auto simp: wp_iff_Some)
  have "take ?k b = take ?k bs" unfolding b overwrite_def take_0 append_Nil by (rule take_append_eq [OF l])
  moreover have "drop ?k b = drop ?k buf" unfolding b overwrite_def take_0 append_Nil l add_0
    by (subst drop_append) (simp only: l drop_take diff_self_eq_0 take_0 append_Nil drop_0)
  ultimately show ?thesis by (simp only: w(1) run r Option.bind.bind_lunit prod.case wp_Some nat_int simp_thms)
qed

theorem fs_write_read_witness:
  "wp (do { (r, t) \<leftarrow> fs_write (Some 0) ''hello'' 5 (fs_statics\<lparr>files := (files fs_statics)[0 := (files fs_statics ! 0)\<lparr>fused := True\<rparr>]\<rparr>);
      (k, b) \<leftarrow> fs_read (Some 0) (replicate 6 NUL) 3 t; Some (r, k, b) }) (\<lambda>(r, k, b). r = 5 \<and> k = 3 \<and> take 3 b = ''hel'')"
proof -
  let ?s = "fs_statics\<lparr>files := (files fs_statics)[0 := (files fs_statics ! 0)\<lparr>fused := True\<rparr>]\<rparr>"
  note d = fs_invD [OF fs_statics_inv(1)]
  have "file_ok ((files fs_statics ! 0)\<lparr>fused := True\<rparr>)" using d(2) [of 0] by (simp add: file_ok_def)
  then have "fs_inv ?s"
    using fs_statics_inv(1) by (auto simp: fs_inv_def list_all_iff dest: subsetD [OF set_update_subset_insert])
  moreover have "fused (files ?s ! 0)" using d(1) by simp
  ultimately show ?thesis
    by (intro wp_mono [OF fs_write_read [of ?s 0 5 "''hello''" 3 "replicate 6 NUL"]]) auto
qed

lemma fs_create_fresh:
  assumes "fs_inv s" and "unique_names (dir_of s)" and "terminated name" and "length (c_str name) \<le> 31"
    and "fs_open name s = Some None"
  shows "wp (fs_create name s) (\<lambda>(p, t). fs_inv t \<and> unique_names (dir_of t) \<and>
      (p = None \<longrightarrow> t = s \<or> dir_of t = dir_of s) \<and>
      (\<forall>i. p = Some i \<longrightarrow> fs_open name t = Some (Some i) \<and>
        (\<forall>m. terminated m \<longrightarrow> c_str m \<noteq> c_str name \<longrightarrow> fs_open m t = fs_open m s)))"
proof -
  let ?n = "c_str name" and ?d = "dir_of s"
  have cut: "take 31 ?n = ?n" using assms(4) by simp
  have none: "first (named ?n) ?d = None" using assms(5) fs_open_eq [OF assms(1,3)] by simp
  have len: "length ?d = 16" by (rule fs_invD(3) [OF assms(1)])
  note open_s = fs_open_eq [OF assms(1)]
  show ?thesis
  proof (rule wp_mono_pair [OF fs_create_wp [OF assms(1,3)]], elim conjE)
    fix p t assume t: "fs_inv t" "(p, dir_of t) = dir_create ?n ?d"
    note open_t = fs_open_eq [OF t(1)]
    have d: "p = None \<Longrightarrow> dir_of t = ?d"
      "p = Some i \<Longrightarrow> dir_of t = ?d[i := Some (?n, [])] \<and> i < 16 \<and> ?d ! i = None" for i
      using t(2) cut len first_SomeD [of "\<lambda>e. e = None" ?d]
      by (auto simp: dir_create_def split: option.splits)
    show "fs_inv t \<and> unique_names (dir_of t) \<and> (p = None \<longrightarrow> t = s \<or> dir_of t = dir_of s) \<and>
      (\<forall>i. p = Some i \<longrightarrow> fs_open name t = Some (Some i) \<and>
        (\<forall>m. terminated m \<longrightarrow> c_str m \<noteq> ?n \<longrightarrow> fs_open m t = fs_open m s))"
      using name_entry [OF assms(2) none] d t(1) assms(2,3) len open_s open_t by (cases p) auto
  qed
qed

lemma fs_rename_fresh:
  assumes "fs_inv s" and "unique_names (dir_of s)" and "terminated name" and "length (c_str name) \<le> 31"
    and "fs_open name s = Some None" and "terminated old"
  shows "wp (fs_rename old name s) (\<lambda>(r, t). fs_inv t \<and> unique_names (dir_of t) \<and>
      (r = 0 \<longleftrightarrow> fs_open old s \<noteq> Some None) \<and>
      (r = 0 \<longrightarrow> fs_open name t = fs_open old s \<and>
        (\<forall>m. terminated m \<longrightarrow> c_str m \<noteq> c_str name \<longrightarrow> c_str m \<noteq> c_str old \<longrightarrow> fs_open m t = fs_open m s)))"
proof -
  let ?n = "c_str name" and ?d = "dir_of s"
  have cut: "take 31 ?n = ?n" using assms(4) by simp
  have none: "first (named ?n) ?d = None" using assms(5) fs_open_eq [OF assms(1,3)] by simp
  have len: "length ?d = 16" by (rule fs_invD(3) [OF assms(1)])
  note open_s = fs_open_eq [OF assms(1)]
  show ?thesis
  proof (rule wp_mono_pair [OF fs_rename_wp [OF assms(1,6,3)]], elim conjE)
    fix r t assume t: "fs_inv t" "(r, dir_of t) = dir_rename (c_str old) ?n ?d"
    note open_t = fs_open_eq [OF t(1)]
    have d: "first (named (c_str old)) ?d = None \<Longrightarrow> r = -1 \<and> dir_of t = ?d"
      "first (named (c_str old)) ?d = Some i \<Longrightarrow> r = 0 \<and> dir_of t = ?d[i := Some (?n, snd (the (?d ! i)))] \<and>
        i < 16 \<and> named (c_str old) (?d ! i)" for i
      using t(2) cut len none find_rev_unique [OF assms(2), of "c_str old"] first_SomeD [of "named (c_str old)" ?d]
      by (auto simp: dir_rename_def)
    have "m \<noteq> c_str old \<Longrightarrow> named (c_str old) e \<Longrightarrow> \<not> named m e" for m e by (auto simp: named_def split: option.splits)
    then show "fs_inv t \<and> unique_names (dir_of t) \<and> (r = 0 \<longleftrightarrow> fs_open old s \<noteq> Some None) \<and>
      (r = 0 \<longrightarrow> fs_open name t = fs_open old s \<and>
        (\<forall>m. terminated m \<longrightarrow> c_str m \<noteq> ?n \<longrightarrow> c_str m \<noteq> c_str old \<longrightarrow> fs_open m t = fs_open m s))"
      using name_entry [OF assms(2) none] d t(1) assms(2,3,6) len open_s open_t
      by (cases "first (named (c_str old)) ?d") auto
  qed
qed

text \<open>Names stay unique: giving a name of at most 31 characters that no file has, by creating or
  by renaming, keeps all names distinct, and afterwards \<open>fs_open\<close> finds that file under it and
  every other name as before.\<close>

theorem fs_fresh_names:
  assumes "fs_inv s" and "unique_names (dir_of s)" and "terminated name" and "length (c_str name) \<le> 31"
    and "fs_open name s = Some None" and "terminated old"
  shows "wp (fs_create name s) (\<lambda>(p, t). fs_inv t \<and> unique_names (dir_of t) \<and>
      (p = None \<longrightarrow> t = s \<or> dir_of t = dir_of s) \<and>
      (\<forall>i. p = Some i \<longrightarrow> fs_open name t = Some (Some i) \<and>
        (\<forall>m. terminated m \<longrightarrow> c_str m \<noteq> c_str name \<longrightarrow> fs_open m t = fs_open m s))) \<and>
    wp (fs_rename old name s) (\<lambda>(r, t). fs_inv t \<and> unique_names (dir_of t) \<and>
      (r = 0 \<longleftrightarrow> fs_open old s \<noteq> Some None) \<and>
      (r = 0 \<longrightarrow> fs_open name t = fs_open old s \<and>
        (\<forall>m. terminated m \<longrightarrow> c_str m \<noteq> c_str name \<longrightarrow> c_str m \<noteq> c_str old \<longrightarrow> fs_open m t = fs_open m s)))"
  using fs_create_fresh [OF assms(1-5)] fs_rename_fresh [OF assms] by (rule conjI)

theorem fs_fresh_names_witness:
  "wp (fs_create (c_lit ''log'') fs_statics) (\<lambda>(p, t). unique_names (dir_of t) \<and>
    (\<forall>i. p = Some i \<longrightarrow> fs_open (c_lit ''log'') t = Some (Some i)))"
proof -
  have u: "unique_names (dir_of fs_statics)" by (simp add: unique_names_def)
  have f: "fs_open (c_lit ''log'') fs_statics = Some None"
    using fs_open_eq [OF fs_statics_inv(1), of "c_lit ''log''"] by (simp add: first_NoneD)
  have n: "length (c_str (c_lit ''log'')) \<le> 31" by simp
  show ?thesis
    by (rule wp_mono_pair [OF conjunct1 [OF fs_fresh_names [OF fs_statics_inv(1) u terminated_lit n f terminated_lit]]])
      blast
qed

text \<open>Creating a name that exists is not refused: the new file is hidden behind the old one, whatever
  its descriptor, until the old one is deleted.\<close>

lemma fs_create_duplicate:
  assumes "fs_inv s" and "terminated name" and "fs_open name s = Some (Some j)" and "length (c_str name) \<le> 31"
  shows "wp (fs_create name s) (\<lambda>(p, t). \<forall>i. p = Some i \<longrightarrow> i \<noteq> j \<and>
    named (c_str name) (dir_of t ! i) \<and> named (c_str name) (dir_of t ! j))"
proof (rule wp_mono_pair [OF fs_create_wp [OF assms(1,2)]], intro allI impI)
  fix p t i assume t: "fs_inv t \<and> (p, dir_of t) = dir_create (c_str name) (dir_of s)" and p: "p = Some i"
  have j: "j < length (dir_of s)" "named (c_str name) (dir_of s ! j)"
    using assms(3) fs_open_eq [OF assms(1,2)] first_SomeD [of "named (c_str name)" "dir_of s" j] by auto
  have i: "first (\<lambda>e. e = None) (dir_of s) = Some i" "dir_of t = (dir_of s)[i := Some (take 31 (c_str name), [])]"
    using t p by (auto simp: dir_create_def split: option.splits)
  have "i < length (dir_of s)" "dir_of s ! i = None" using first_SomeD [OF i(1)] by simp_all
  then show "i \<noteq> j \<and> named (c_str name) (dir_of t ! i) \<and> named (c_str name) (dir_of t ! j)"
    using i(2) j assms(4) by (auto simp: nth_list_update)
qed

end
