(* ===== verification/Linked.thy ===== *)
theory Linked
  imports LifeOS_Prelude
begin

text \<open>
  Singly linked lists. The kernel has two, both with a head and a tail pointer and append at the
  tail: the drivers (\<open>driver.c\<close>) and the run queue (\<open>sched.c\<close>). An address is a number or a machine word, 0 is
  the null pointer, and a heap gives each node its successor. \<open>linked_fifo\<close> is the interface of both.
\<close>

primrec chain :: "('a::zero \<Rightarrow> 'a) \<Rightarrow> 'a \<Rightarrow> 'a list \<Rightarrow> 'a \<Rightarrow> bool" where
  "chain h p [] q \<longleftrightarrow> p = q"
| "chain h p (a # as) q \<longleftrightarrow> p = a \<and> a \<noteq> 0 \<and> chain h (h a) as q"

lemma chain_append [simp]: "chain h p (as @ bs) q \<longleftrightarrow> (\<exists>r. chain h p as r \<and> chain h r bs q)"
  by (induction as arbitrary: p) auto

lemma chain_cong: "(\<And>a. a \<in> set as \<Longrightarrow> h' a = h a) \<Longrightarrow> chain h' p as q = chain h p as q"
  by (induction as arbitrary: p) auto

lemma chain_upd [simp]: "a \<notin> set as \<Longrightarrow> chain (h(a := b)) p as q = chain h p as q"
  by (rule chain_cong) auto

lemma chain_nonzero: "chain h p as q \<Longrightarrow> 0 \<notin> set as"
  by (induction as arbitrary: p) auto

lemma chain_null: "chain h 0 as 0 \<longleftrightarrow> as = []"
  by (cases as) auto

lemma chain_start: "chain h p as q \<Longrightarrow> as \<noteq> [] \<Longrightarrow> p = hd as"
  by (cases as) auto

text \<open>Where a node of the chain leads.\<close>

lemma chain_next:
  assumes "chain h p as q" and "i < length as"
  shows "h (as ! i) = (if Suc i < length as then as ! Suc i else q)"
  using assms
proof (induction as arbitrary: p i)
  case (Cons a as)
  then show ?case by (cases i) (auto simp: chain_start hd_conv_nth, (cases as; auto)+)
qed simp

text \<open>A list with its head and tail pointers.\<close>

definition fifo :: "('a::zero \<Rightarrow> 'a) \<Rightarrow> 'a \<Rightarrow> 'a \<Rightarrow> 'a list \<Rightarrow> bool" where
  "fifo h hp tp xs \<longleftrightarrow> chain h hp xs 0 \<and> distinct xs \<and> (xs \<noteq> [] \<longrightarrow> tp = last xs)"

lemma fifo_empty [simp]: "fifo h hp tp [] \<longleftrightarrow> hp = 0"
  by (simp add: fifo_def)

lemma fifo_head: "fifo h hp tp xs \<Longrightarrow> (hp = 0 \<longleftrightarrow> xs = [])"
  by (cases xs) (auto simp: fifo_def)

text \<open>Appending: the new node's successor is null and the old tail leads to it.\<close>

lemma fifo_append_first: "x \<noteq> 0 \<Longrightarrow> h x = 0 \<Longrightarrow> fifo h x x [x]"
  by (simp add: fifo_def)

lemma fifo_append:
  assumes "fifo h hp tp xs" and "xs \<noteq> []" and "x \<notin> set xs" and "x \<noteq> 0"
    and "\<And>a. a \<in> set xs \<Longrightarrow> a \<noteq> tp \<Longrightarrow> h' a = h a" and "h' tp = x" and "h' x = 0"
  shows "fifo h' hp x (xs @ [x])"
proof -
  obtain ys where xs: "xs = ys @ [tp]" using assms(1,2) by (metis fifo_def append_butlast_last_id)
  have d: "tp \<notin> set ys" "distinct ys" using assms(1) xs by (auto simp: fifo_def)
  have c: "chain h hp ys tp" "tp \<noteq> 0" using assms(1) xs by (auto simp: fifo_def)
  have "chain h' hp ys tp = chain h hp ys tp"
    by (rule chain_cong) (use assms(5) xs d(1) in auto)
  moreover have "tp \<noteq> x" using assms(3) xs by auto
  ultimately show ?thesis
    using c d assms(3,4,6,7) xs by (simp add: fifo_def)
qed

section \<open>The interface\<close>

locale linked_fifo =
  fixes add :: "'p \<Rightarrow> 's \<Rightarrow> 's"
    and holds :: "'p list \<Rightarrow> 's \<Rightarrow> bool"
    and ready :: "'p \<Rightarrow> 's \<Rightarrow> bool"
  assumes add_holds: "holds xs s \<Longrightarrow> ready x s \<Longrightarrow> x \<notin> set xs \<Longrightarrow> holds (xs @ [x]) (add x s)"
    and add_ready: "holds xs s \<Longrightarrow> ready x s \<Longrightarrow> ready y s \<Longrightarrow> x \<noteq> y \<Longrightarrow> y \<notin> set xs \<Longrightarrow>
      ready y (add x s)"
begin

lemma add_all:
  assumes "holds xs s" and "\<And>x. x \<in> set ys \<Longrightarrow> ready x s" and "distinct (xs @ ys)"
  shows "holds (xs @ ys) (fold add ys s)"
  using assms
proof (induction ys arbitrary: xs s)
  case Nil
  then show ?case by simp
next
  case (Cons y ys)
  have y: "holds (xs @ [y]) (add y s)" using Cons.prems by (intro add_holds) auto
  have "ready x (add y s)" if "x \<in> set ys" for x
    using Cons.prems that by (intro add_ready [OF Cons.prems(1)]) auto
  with Cons.IH [OF y] Cons.prems(3) show ?case by simp
qed

end

end
