(* ===== verification/Driver.thy ===== *)
theory Driver
  imports Linked
begin

text \<open>
  \<open>src/kernel/driver/driver.c\<close>: the list of drivers. A \<open>struct driver\<close> is its address; the
  \<open>next\<close> fields are a heap in the state and the \<open>init\<close> function pointers a parameter (\<open>None\<close> is
  null). The initialisation loop follows whatever the heap holds and may not end, so it is a
  \<open>partial_function\<close>: \<open>None\<close> when it does not return.
\<close>

section \<open>State and operations\<close>

record drivers =
  drv_next :: "nat \<Rightarrow> nat"
  drv_head :: nat
  drv_tail :: nat

definition drivers_statics :: drivers where
  "drivers_statics = \<lparr>drv_next = \<lambda>d. 0, drv_head = 0, drv_tail = 0\<rparr>"

definition driver_register :: "nat \<Rightarrow> 'a drivers_scheme \<Rightarrow> 'a drivers_scheme" where
  "driver_register drv s =
     (let s = s\<lparr>drv_next := (drv_next s)(drv := 0)\<rparr> in
      if drv_head s = 0 then s\<lparr>drv_head := drv, drv_tail := drv\<rparr>
      else let s = s\<lparr>drv_next := (drv_next s)(drv_tail s := drv)\<rparr> in s\<lparr>drv_tail := drv\<rparr>)"

type_synonym 's init_fun = "nat \<Rightarrow> ('s \<Rightarrow> 's option) option"

definition run_init :: "'s init_fun \<Rightarrow> nat \<Rightarrow> 's \<Rightarrow> 's option" where
  "run_init init d s = (case init d of None \<Rightarrow> Some s | Some f \<Rightarrow> f s)"

partial_function (option) driver_loop ::
    "'a drivers_scheme init_fun \<Rightarrow> nat \<Rightarrow> 'a drivers_scheme \<Rightarrow> 'a drivers_scheme option" where
  "driver_loop init d s =
     (if d = 0 then Some s
      else do { s \<leftarrow> run_init init d s; driver_loop init (drv_next s d) s })"

definition driver_init_all :: "'a drivers_scheme init_fun \<Rightarrow> 'a drivers_scheme \<Rightarrow> 'a drivers_scheme option" where
  "driver_init_all init s = driver_loop init (drv_head s) s"

section \<open>Registration appends\<close>

definition lists_drivers :: "nat list \<Rightarrow> 'a drivers_scheme \<Rightarrow> bool" where
  "lists_drivers ds s \<longleftrightarrow> fifo (drv_next s) (drv_head s) (drv_tail s) ds"

lemma register_lists:
  assumes "lists_drivers ds s" and "d \<noteq> 0" and "d \<notin> set ds"
  shows "lists_drivers (ds @ [d]) (driver_register d s)"
proof (cases "ds = []")
  case True
  with assms show ?thesis by (simp add: lists_drivers_def driver_register_def fifo_append_first)
next
  case False
  have f: "fifo (drv_next s) (drv_head s) (drv_tail s) ds" using assms(1) by (simp add: lists_drivers_def)
  have h: "drv_head s \<noteq> 0" using fifo_head [OF f] False by simp
  have t: "drv_tail s \<noteq> d" using f False assms(3) by (auto simp: fifo_def)
  have "fifo ((drv_next s)(d := 0, drv_tail s := d)) (drv_head s) d (ds @ [d])"
    by (rule fifo_append [OF f False assms(3,2)]) (use t assms(3) in auto)
  with h show ?thesis by (simp add: lists_drivers_def driver_register_def Let_def)
qed

interpretation driver_list: linked_fifo driver_register lists_drivers "\<lambda>d s. d \<noteq> 0"
  by unfold_locales (auto intro: register_lists)

section \<open>Initialisation\<close>

text \<open>What an \<open>init\<close> function must leave alone for the walk to be the list's.\<close>

definition keeps_drivers :: "'a drivers_scheme init_fun \<Rightarrow> bool" where
  "keeps_drivers init \<longleftrightarrow> (\<forall>d s t. run_init init d s = Some t \<longrightarrow> drv_next t = drv_next s)"

lemma driver_loop_chain:
  assumes "chain (drv_next s) p ds 0" and "keeps_drivers init"
  shows "driver_loop init p s = for_each ds (run_init init) s"
  using assms(1)
proof (induction ds arbitrary: p s)
  case Nil
  then show ?case by (simp add: driver_loop.simps)
next
  case (Cons d ds)
  then have p: "p = d" "d \<noteq> 0" by simp_all
  show ?case
  proof (cases "run_init init d s")
    case None
    then show ?thesis using p by (simp add: driver_loop.simps)
  next
    case (Some t)
    then have "drv_next t = drv_next s" using assms(2) by (auto simp: keeps_drivers_def)
    with Some Cons.IH [of t "drv_next s d"] Cons.prems p show ?thesis by (subst driver_loop.simps) simp
  qed
qed

text \<open>A self-cycle: the walk does not end.\<close>

lemma driver_loop_cycle:
  assumes "drv_next s d = d" and "d \<noteq> 0" and "keeps_drivers init"
  shows "driver_loop init d s = None"
proof -
  have "\<not> (p = d \<and> drv_next u d = d \<and> keeps_drivers i)" if "driver_loop i p u = Some t" for i p u t
  proof (rule driver_loop.raw_induct [where P = "\<lambda>i p u t. \<not> (p = d \<and> drv_next u d = d \<and> keeps_drivers i)", OF _ that])
    fix loop i p u t
    assume 1: "\<And>i p u t. loop i p u = Some t \<Longrightarrow> \<not> (p = d \<and> drv_next u d = d \<and> keeps_drivers i)"
      "(if p = 0 then Some u else do { u \<leftarrow> run_init i p u; loop i (drv_next u p) u }) = Some t"
    show "\<not> (p = d \<and> drv_next u d = d \<and> keeps_drivers i)"
    proof
      assume a: "p = d \<and> drv_next u d = d \<and> keeps_drivers i"
      with 1(2) assms(2) obtain v where v: "run_init i d u = Some v" "loop i (drv_next v d) v = Some t"
        by (auto split: if_splits Option.bind_splits)
      then have "drv_next v d = d" using a by (auto simp: keeps_drivers_def)
      with 1(1) [OF v(2)] a show False by simp
    qed
  qed
  then show ?thesis using assms(1,3) by (cases "driver_loop init d s") auto
qed

text \<open>Registering the last driver again makes such a cycle.\<close>

lemma register_tail_cycle:
  assumes "drv_head s \<noteq> 0" and "drv_tail s = d"
  shows "drv_next (driver_register d s) d = d" and "drv_head (driver_register d s) = drv_head s"
  using assms by (simp_all add: driver_register_def Let_def)

lemma driver_loop_reaches:
  assumes "chain (drv_next s) p ds q" and "keeps_drivers init" and "driver_loop init p s = Some t"
  shows "\<exists>u. drv_next u = drv_next s \<and> driver_loop init q u = Some t"
  using assms(1,3)
proof (induction ds arbitrary: p s)
  case Nil
  then show ?case by auto
next
  case (Cons d ds)
  then have p: "p = d" "d \<noteq> 0" by simp_all
  obtain u where u: "run_init init d s = Some u" "driver_loop init (drv_next u d) u = Some t"
    using Cons.prems(2) p by (subst (asm) driver_loop.simps) (auto split: Option.bind_splits)
  then have n: "drv_next u = drv_next s" using assms(2) by (auto simp: keeps_drivers_def)
  show ?case using Cons.IH [of u "drv_next s d"] Cons.prems(1) u(2) n by simp
qed

section \<open>Properties\<close>

text \<open>C31. Driver start-up: after any number of distinct drivers have been registered,
  \<open>driver_init_all\<close> returns exactly when their \<open>init\<close> functions do, and has called each of them
  that is not null once, in the order of registration.\<close>

theorem driver_init_order:
  assumes "lists_drivers ds s" and "distinct (ds @ es)" and "0 \<notin> set es" and "keeps_drivers init"
  shows "driver_init_all init (fold driver_register es s) =
    for_each (ds @ es) (run_init init) (fold driver_register es s)"
proof -
  have "lists_drivers (ds @ es) (fold driver_register es s)"
    by (rule driver_list.add_all [OF assms(1)]) (use assms(2,3) in auto)
  then show ?thesis
    unfolding driver_init_all_def by (intro driver_loop_chain [OF _ assms(4)]) (simp add: lists_drivers_def fifo_def)
qed

theorem driver_init_order_witness:
  "driver_init_all (\<lambda>d. if d = 8 then None else Some Some) (fold driver_register [8, 16] drivers_statics) =
    Some (fold driver_register [8, 16] drivers_statics)"
proof -
  have l: "lists_drivers [] drivers_statics" by (simp add: lists_drivers_def drivers_statics_def)
  have k: "keeps_drivers (\<lambda>d. if d = 8 then None else Some Some)" by (simp add: keeps_drivers_def run_init_def)
  show ?thesis
    using driver_init_order [OF l _ _ k, of "[8, 16]"] by (simp add: run_init_def)
qed

text \<open>C39. Registering the driver that was registered last a second time is fatal: it becomes its own
  successor, and \<open>driver_init_all\<close> never returns, whatever the \<open>init\<close> functions do.\<close>

theorem driver_register_twice_hangs:
  assumes "lists_drivers (ds @ [d]) s" and "keeps_drivers init"
  shows "driver_init_all init (driver_register d s) = None"
proof -
  have f: "chain (drv_next s) (drv_head s) ds d" "d \<noteq> 0" "d \<notin> set ds" "drv_tail s = d" "drv_head s \<noteq> 0"
    using assms(1) fifo_head [of "drv_next s" "drv_head s" "drv_tail s" "ds @ [d]"]
    by (auto simp: lists_drivers_def fifo_def)
  let ?s = "driver_register d s"
  note r = register_tail_cycle [OF f(5,4)]
  have "chain (drv_next ?s) (drv_head ?s) ds d"
    unfolding r(2) using f(1,3,4,5) by (simp add: driver_register_def Let_def)
  then have "driver_loop init (drv_head ?s) ?s \<noteq> Some t" for t
    using driver_loop_reaches [OF _ assms(2)] driver_loop_cycle [OF _ f(2) assms(2)] r(1) by fastforce
  then show ?thesis unfolding driver_init_all_def by (cases "driver_loop init (drv_head ?s) ?s") auto
qed

theorem driver_register_twice_hangs_witness:
  "driver_init_all (\<lambda>d. None) (driver_register 8 (driver_register 8 drivers_statics)) = None"
proof -
  have "lists_drivers ([] @ [8]) (driver_register 8 drivers_statics)"
    by (rule register_lists) (simp_all add: lists_drivers_def drivers_statics_def)
  moreover have "keeps_drivers (\<lambda>d. None)" by (simp add: keeps_drivers_def run_init_def)
  ultimately show ?thesis by (rule driver_register_twice_hangs)
qed

end
