(* ===== verification/Phys_Mem.thy ===== *)
theory Phys_Mem
  imports Port_IO
begin

text \<open>
  \<open>src/kernel/mm/mm.c\<close>: the physical page allocator. It hands out one page after the other from
  the end of the kernel image on and never takes one back; there is no upper bound, so the
  address wraps around at the end of the 64-bit space. Pages are compared by their addresses:
  \<open>page a\<close> says that \<open>a\<close> is page aligned.
\<close>

section \<open>Operations\<close>

record phys_mem =
  next_free_page :: u64

definition mm_init :: "hardware \<Rightarrow> 'a phys_mem_scheme \<Rightarrow> 'a phys_mem_scheme" where
  "mm_init hw s =
     (let s = s\<lparr>next_free_page := (image_end hw + 4096 - 1) AND NOT (4096 - 1)\<rparr> in
      if next_free_page s < 0xB000 then s\<lparr>next_free_page := 0xB000\<rparr> else s)"

definition page_alloc :: "'a phys_mem_scheme \<Rightarrow> u64 \<times> 'a phys_mem_scheme" where
  "page_alloc s = (let pg = next_free_page s in (pg, s\<lparr>next_free_page := next_free_page s + 4096\<rparr>))"

section \<open>Page arithmetic\<close>

definition page :: "u64 \<Rightarrow> bool" where
  "page a \<longleftrightarrow> unat a mod 4096 = 0"

lemma page_offset:
  assumes "page p" and "k < 4096"
  shows "unat (p + of_nat k) = unat p + k"
proof -
  have "unat p < 2 ^ LENGTH(64)" by (rule unsigned_less)
  then have "unat p div 4096 < 4503599627370496" by (simp add: less_mult_imp_div_less)
  moreover have "unat p = 4096 * (unat p div 4096)" using assms(1) by (auto simp: page_def)
  ultimately have sum: "unat p + k < 2 ^ LENGTH(64)" using assms(2) by simp
  have "unat (of_nat k :: u64) = k" using assms(2) by (simp add: unat_of_nat)
  with sum show ?thesis by (simp add: unat_word_ariths)
qed

lemma page_eq_iff:
  assumes "page p" and "page q" and "j < 4096" and "k < 4096"
  shows "p + of_nat j = q + of_nat k \<longleftrightarrow> p = q \<and> j = k"
proof
  assume "p + of_nat j = q + of_nat k"
  then have e: "unat p + j = unat q + k" using page_offset [OF assms(1,3)] page_offset [OF assms(2,4)] by metis
  then have "(unat p + j) mod 4096 = (unat q + k) mod 4096" by simp
  then have "j mod 4096 = k mod 4096"
    using assms(1,2) unfolding page_def by (metis add_0 mod_add_left_eq)
  then have "j = k" using assms(3,4) by simp
  with e show "p = q \<and> j = k" by (simp add: unsigned_word_eqI)
qed simp

lemma page_0 [simp]: "page 0"
  by (simp add: page_def)

section \<open>Allocation\<close>

text \<open>Rounding up to a page, and the first free page.\<close>

lemma and_not_4095: "unat ((w :: u64) AND NOT (4096 - 1)) = unat w - unat w mod 4096"
proof -
  have "(w AND NOT (4096 - 1)) = w - take_bit 12 w"
  proof -
    have m: "(4096 - 1 :: u64) = mask 12" by (simp add: mask_eq_exp_minus_1)
    have "w = (w AND NOT (mask 12)) + (w AND mask 12)"
      by (subst disjunctive_add) (auto simp: bit_simps intro: bit_word_eqI)
    then show ?thesis unfolding m take_bit_eq_mask by (metis add_diff_cancel_right')
  qed
  moreover have t: "unat (take_bit 12 w) = unat w mod 4096" by (simp add: unat_take_drop)
  moreover have "take_bit 12 w \<le> w" by (simp add: word_le_nat_alt t)
  ultimately show ?thesis by (simp add: unat_sub)
qed

definition first_page :: "nat \<Rightarrow> nat" where
  "first_page e = max 0xB000 ((e + 4095) div 4096 * 4096)"

lemma mm_init_page:
  assumes "unat (image_end hw) + 4096 \<le> 2 ^ 64"
  shows "unat (next_free_page (mm_init hw s)) = first_page (unat (image_end hw))"
proof -
  let ?e = "unat (image_end hw)"
  have "unat (4095 :: u64) = 4095" by simp
  moreover have "image_end hw + 4096 - 1 = image_end hw + 4095" by simp
  moreover have "?e + 4095 < 2 ^ LENGTH(64)" using assms by simp
  ultimately have sum: "unat (image_end hw + 4096 - 1) = ?e + 4095" by (simp add: unat_word_ariths)
  have "unat ((image_end hw + 4096 - 1) AND NOT (4096 - 1)) = (?e + 4095) div 4096 * 4096"
    unfolding and_not_4095 sum by (metis minus_mod_eq_div_mult)
  then show ?thesis
    by (auto simp: mm_init_def Let_def first_page_def word_less_nat_alt)
qed

text \<open>\<open>n\<close> allocations in a row.\<close>

primrec alloc_pages :: "nat \<Rightarrow> 'a phys_mem_scheme \<Rightarrow> u64 list \<times> 'a phys_mem_scheme" where
  "alloc_pages 0 s = ([], s)"
| "alloc_pages (Suc n) s =
     (let (p, s) = page_alloc s; (ps, s) = alloc_pages n s in (p # ps, s))"

lemma alloc_pages_eq:
  "alloc_pages n s = (map (\<lambda>i. next_free_page s + of_nat (4096 * i)) [0..<n],
     s\<lparr>next_free_page := next_free_page s + of_nat (4096 * n)\<rparr>)"
proof (induction n arbitrary: s)
  case 0
  then show ?case by simp
next
  case (Suc n)
  have "map (\<lambda>i. next_free_page s + of_nat (4096 * i)) [0..<Suc n] =
      next_free_page s # map (\<lambda>i. next_free_page s + of_nat (4096 * Suc i)) [0..<n]"
    by (simp add: map_upt_Suc del: upt_Suc)
  then show ?case
    using Suc [of "s\<lparr>next_free_page := next_free_page s + 4096\<rparr>"]
    by (simp add: page_alloc_def Let_def algebra_simps del: upt_Suc)
qed

text \<open>A small image ends below the page tables of the boot loader (pages \<open>0x8\<close> to \<open>0xB\<close>); the page
  handed out first is then the fourth of them.\<close>

lemma first_page_is_page_table: "e \<le> 0xB000 \<Longrightarrow> first_page e = 0xB000"
  by (simp add: first_page_def)

section \<open>Properties\<close>

definition image_machine :: "u64 \<Rightarrow> hardware" where
  "image_machine e = \<lparr>port_in = \<lambda>t p. 0, cpuid_ebx = \<lambda>leaf. 0, mem8 = \<lambda>a. None, image_end = e,
     nmi_wakes = 0, stack_word = \<lambda>i. 0\<rparr>"

text \<open>C30. The allocator hands out distinct pages: as long as the address space lasts, the pages
  allocated after \<open>mm_init\<close> are page aligned, lie behind the kernel image and not below
  \<open>0xB000\<close>, and follow each other at a distance of 4096 bytes, so no two overlap.\<close>

theorem page_alloc_disjoint:
  assumes "first_page (unat (image_end hw)) + 4096 * n \<le> 2 ^ 64" and "n \<noteq> 0"
  shows "map unat (fst (alloc_pages n (mm_init hw s))) = map (\<lambda>i. first_page (unat (image_end hw)) + 4096 * i) [0..<n] \<and>
    (\<forall>p \<in> set (fst (alloc_pages n (mm_init hw s))). page p \<and> unat (image_end hw) \<le> unat p \<and> 0xB000 \<le> unat p) \<and>
    distinct (fst (alloc_pages n (mm_init hw s)))"
proof -
  let ?e = "unat (image_end hw)" and ?t = "mm_init hw s"
  let ?f = "first_page ?e"
  have up: "?e \<le> (?e + 4095) div 4096 * 4096" "(?e + 4095) div 4096 * 4096 \<le> ?f" by (simp_all add: first_page_def)
  then have "?e + 4096 \<le> 2 ^ 64" using assms by simp
  note first = mm_init_page [OF this, of s]
  have al: "?f mod 4096 = 0" by (simp add: first_page_def max_def)
  have pg: "unat (next_free_page ?t + of_nat (4096 * i)) = ?f + 4096 * i" if "i < n" for i
  proof -
    have "?f + 4096 * i < 2 ^ LENGTH(64)" using assms(1) that by simp
    then show ?thesis using first by (simp add: unat_word_ariths unat_of_nat)
  qed
  have ps: "fst (alloc_pages n ?t) = map (\<lambda>i. next_free_page ?t + of_nat (4096 * i)) [0..<n]"
    by (simp add: alloc_pages_eq)
  have m: "map unat (fst (alloc_pages n ?t)) = map (\<lambda>i. ?f + 4096 * i) [0..<n]"
    unfolding ps using pg by simp
  have "distinct (map (\<lambda>i. ?f + 4096 * i) [0..<n])" by (simp add: distinct_map inj_on_def)
  then have "distinct (fst (alloc_pages n ?t))" unfolding m [symmetric] by (simp add: distinct_map)
  moreover have "page p \<and> ?e \<le> unat p \<and> 0xB000 \<le> unat p" if p: "p \<in> set (fst (alloc_pages n ?t))" for p
  proof -
    from p obtain i where i: "i < n" "p = next_free_page ?t + of_nat (4096 * i)" unfolding ps by auto
    then have "unat p = ?f + 4096 * i" using pg by simp
    then show ?thesis using al up by (auto simp: page_def first_page_def mod_simps)
  qed
  ultimately show ?thesis using m by blast
qed

theorem page_alloc_disjoint_witness:
  "map unat (fst (alloc_pages 2 (mm_init (image_machine 0x12345) \<lparr>next_free_page = 0\<rparr>))) = [0x13000, 0x14000]"
proof -
  have e: "unat (image_end (image_machine 0x12345)) = 0x12345" by (simp add: image_machine_def)
  show ?thesis
    using page_alloc_disjoint [of "image_machine 0x12345" 2 "\<lparr>next_free_page = 0\<rparr>"]
    unfolding e by (simp add: first_page_def upt_rec)
qed

end
