(* ===== verification/Sched.thy ===== *)
theory Sched
  imports Phys_Mem Linked
begin

text \<open>
  \<open>src/kernel/sched/sched.c\<close> and \<open>context_switch.asm\<close>: cooperative round-robin tasks. The state holds
  the memory of the tasks (their descriptors and stacks) as 8-byte cells, the queue's pointers
  and the registers that a switch saves. A \<open>struct task\<close> is its address: \<open>sp\<close> at offset 0, \<open>next\<close>
  at offset 8. The assembly is modelled instruction by instruction. Pages are assumed to be
  memory; the allocator has no bound that the code checks.
\<close>

section \<open>State\<close>

record regs =
  rsp :: u64
  rbp :: u64
  rbx :: u64
  r12 :: u64
  r13 :: u64
  r14 :: u64
  r15 :: u64
  rip :: u64

record sched = phys_mem +
  cells :: "u64 \<Rightarrow> u64"
  task_list_head :: u64
  task_list_tail :: u64
  current_task :: u64
  cpu :: regs

definition set_cell :: "u64 \<Rightarrow> u64 \<Rightarrow> 'a sched_scheme \<Rightarrow> 'a sched_scheme" where
  "set_cell a v s = s\<lparr>cells := (cells s)(a := v)\<rparr>"

definition task_sp :: "'a sched_scheme \<Rightarrow> u64 \<Rightarrow> u64" where
  "task_sp s t = cells s t"

definition task_next :: "'a sched_scheme \<Rightarrow> u64 \<Rightarrow> u64" where
  "task_next s t = cells s (t + 8)"

section \<open>context_switch.asm\<close>

definition push :: "(regs \<Rightarrow> u64) \<Rightarrow> 'a sched_scheme \<Rightarrow> 'a sched_scheme" where
  "push r s = (let v = r (cpu s); s = s\<lparr>cpu := (cpu s)\<lparr>rsp := rsp (cpu s) - 8\<rparr>\<rparr>
     in set_cell (rsp (cpu s)) v s)"

definition pop :: "(u64 \<Rightarrow> regs \<Rightarrow> regs) \<Rightarrow> 'a sched_scheme \<Rightarrow> 'a sched_scheme" where
  "pop r s = s\<lparr>cpu := (r (cells s (rsp (cpu s))) (cpu s))\<lparr>rsp := rsp (cpu s) + 8\<rparr>\<rparr>"

definition context_switch :: "u64 \<Rightarrow> 'a sched_scheme \<Rightarrow> 'a sched_scheme" where
  "context_switch nxt s =
     (let s = push rbp s; s = push rbx s; s = push r12 s; s = push r13 s; s = push r14 s; s = push r15 s;
          s = set_cell (current_task s) (rsp (cpu s)) s;
          s = s\<lparr>current_task := nxt\<rparr>;
          s = s\<lparr>cpu := (cpu s)\<lparr>rsp := cells s nxt\<rparr>\<rparr>;
          s = pop (\<lambda>v. r15_update (\<lambda>_. v)) s; s = pop (\<lambda>v. r14_update (\<lambda>_. v)) s;
          s = pop (\<lambda>v. r13_update (\<lambda>_. v)) s; s = pop (\<lambda>v. r12_update (\<lambda>_. v)) s;
          s = pop (\<lambda>v. rbx_update (\<lambda>_. v)) s; s = pop (\<lambda>v. rbp_update (\<lambda>_. v)) s
      in pop (\<lambda>v. rip_update (\<lambda>_. v)) s)"

section \<open>sched.c\<close>

definition sched_init :: "'a sched_scheme \<Rightarrow> 'a sched_scheme" where
  "sched_init s = s\<lparr>task_list_head := 0, task_list_tail := 0, current_task := 0\<rparr>"

definition sched_create_task :: "u64 \<Rightarrow> 'a sched_scheme \<Rightarrow> u64 \<times> 'a sched_scheme" where
  "sched_create_task entry_point s =
     (let (t, s) = page_alloc s;
          (stack, s) = page_alloc s;
          sp = stack + 4096;
          sp = sp - 8; s = set_cell sp entry_point s;
          (sp, s) = fold (\<lambda>i (sp, s). let sp = sp - 8 in (sp, set_cell sp 0 s)) [0..<6] (sp, s);
          s = set_cell t sp s;
          s = set_cell (t + 8) 0 s
      in (t, s))"

definition sched_add_task :: "u64 \<Rightarrow> 'a sched_scheme \<Rightarrow> 'a sched_scheme" where
  "sched_add_task t s =
     (if task_list_head s = 0 then s\<lparr>task_list_head := t, task_list_tail := t\<rparr>
      else let s = set_cell (task_list_tail s + 8) t s in s\<lparr>task_list_tail := t\<rparr>)"

definition next_task :: "'a sched_scheme \<Rightarrow> u64" where
  "next_task s = (if current_task s = 0 \<or> task_next s (current_task s) = 0 then task_list_head s
     else task_next s (current_task s))"

definition sched_yield :: "'a sched_scheme \<Rightarrow> 'a sched_scheme" where
  "sched_yield s = context_switch (next_task s) s"

text \<open>\<open>boot\<close> is the address of the static \<open>bootstrap_task\<close>.\<close>

definition sched_start :: "u64 \<Rightarrow> 'a sched_scheme \<Rightarrow> 'a sched_scheme" where
  "sched_start boot s =
     (if task_list_head s = 0 then s
      else let s = set_cell (boot + 8) (task_list_head s) s;
               s = set_cell boot 0 s;
               s = s\<lparr>current_task := boot\<rparr>
           in context_switch (task_list_head s) s)"

section \<open>Saved contexts\<close>

text \<open>The registers as \<open>context_switch\<close> leaves them on the stack of a task that it suspends, and
  the context with which a call of it returns.\<close>

definition frame_at :: "'a sched_scheme \<Rightarrow> u64 \<Rightarrow> regs" where
  "frame_at s a = \<lparr>rsp = a + 56, rbp = cells s (a + 40), rbx = cells s (a + 32), r12 = cells s (a + 24),
     r13 = cells s (a + 16), r14 = cells s (a + 8), r15 = cells s a, rip = cells s (a + 48)\<rparr>"

definition saved :: "'a sched_scheme \<Rightarrow> u64 \<Rightarrow> regs" where
  "saved s t = frame_at s (task_sp s t)"

definition returning :: "'a sched_scheme \<Rightarrow> regs" where
  "returning s = (cpu s)\<lparr>rsp := rsp (cpu s) + 8, rip := cells s (rsp (cpu s))\<rparr>"

text \<open>The switch in two halves.\<close>

definition suspend :: "'a sched_scheme \<Rightarrow> 'a sched_scheme" where
  "suspend s = (let a = rsp (cpu s); c = cpu s in
     s\<lparr>cpu := c\<lparr>rsp := a - 48\<rparr>, cells := (cells s)(a - 8 := rbp c, a - 16 := rbx c, a - 24 := r12 c,
       a - 32 := r13 c, a - 40 := r14 c, a - 48 := r15 c, current_task s := a - 48)\<rparr>)"

lemma push_eq: "push r s = s\<lparr>cpu := (cpu s)\<lparr>rsp := rsp (cpu s) - 8\<rparr>,
    cells := (cells s)(rsp (cpu s) - 8 := r (cpu s))\<rparr>"
  by (simp add: push_def set_cell_def Let_def)

lemma pushes_eq:
  "push r15 (push r14 (push r13 (push r12 (push rbx (push rbp s))))) =
    (let a = rsp (cpu s); c = cpu s in s\<lparr>cpu := c\<lparr>rsp := a - 48\<rparr>, cells := (cells s)(a - 8 := rbp c, a - 16 := rbx c,
       a - 24 := r12 c, a - 32 := r13 c, a - 40 := r14 c, a - 48 := r15 c)\<rparr>)"
  by (simp add: push_eq Let_def)

lemma pops_eq:
  fixes s :: "'a sched_scheme"
  shows "pop (\<lambda>v. rip_update (\<lambda>_. v)) (pop (\<lambda>v. rbp_update (\<lambda>_. v)) (pop (\<lambda>v. rbx_update (\<lambda>_. v))
    (pop (\<lambda>v. r12_update (\<lambda>_. v)) (pop (\<lambda>v. r13_update (\<lambda>_. v)) (pop (\<lambda>v. r14_update (\<lambda>_. v))
    (pop (\<lambda>v. r15_update (\<lambda>_. v)) s)))))) = s\<lparr>cpu := frame_at s (rsp (cpu s))\<rparr>"
  by (cases "cpu s") (simp add: pop_def frame_at_def ac_simps)

lemma context_switch_eq:
  "context_switch nxt s = (suspend s)\<lparr>current_task := nxt, cpu := saved (suspend s) nxt\<rparr>"
proof -
  let ?p = "push r15 (push r14 (push r13 (push r12 (push rbx (push rbp s)))))"
  have c: "current_task ?p = current_task s" by (simp add: push_eq)
  have sus: "set_cell (current_task ?p) (rsp (cpu ?p)) ?p = suspend s"
    unfolding c pushes_eq by (simp add: set_cell_def suspend_def Let_def)
  have "context_switch nxt s = (let u = (suspend s)\<lparr>current_task := nxt\<rparr>;
      v = u\<lparr>cpu := (cpu u)\<lparr>rsp := cells u nxt\<rparr>\<rparr> in v\<lparr>cpu := frame_at v (rsp (cpu v))\<rparr>)"
    unfolding context_switch_def Let_def pops_eq sus ..
  then show ?thesis by (simp add: saved_def frame_at_def task_sp_def Let_def)
qed

section \<open>Layout\<close>

text \<open>The tasks of a run queue, each with its descriptor's page and its stack's page, all different.\<close>

type_synonym layout = "(u64 \<times> u64) list"

definition layout_ok :: "layout \<Rightarrow> bool" where
  "layout_ok l \<longleftrightarrow> distinct (map fst l @ map snd l) \<and> (\<forall>(t, st) \<in> set l. page t \<and> page st \<and> t \<noteq> 0)"

definition in_stack :: "u64 \<Rightarrow> nat \<Rightarrow> nat \<Rightarrow> u64 \<Rightarrow> bool" where
  "in_stack st lo hi a \<longleftrightarrow> (\<exists>off. a = st + of_nat off \<and> 8 dvd off \<and> lo \<le> off \<and> off \<le> hi)"

lemma layout_okD:
  assumes "layout_ok l" and "(t, st) \<in> set l" and "(u, su) \<in> set l"
  shows "page t" "page st" "t \<noteq> 0" "t \<noteq> su" "t = u \<longleftrightarrow> st = su"
proof -
  show "page t" "page st" "t \<noteq> 0" using assms(1,2) by (auto simp: layout_ok_def)
  have d: "distinct (map fst l)" "distinct (map snd l)" "set (map fst l) \<inter> set (map snd l) = {}"
    using assms(1) by (auto simp: layout_ok_def)
  have "t \<in> set (map fst l)" "su \<in> set (map snd l)" using assms(2,3) by force+
  with d(3) show "t \<noteq> su" by auto
  show "t = u \<longleftrightarrow> st = su"
    using d(1,2) assms(2,3) by (metis distinct_map fst_conv snd_conv inj_onD prod.inject)
qed

text \<open>What a suspension writes: seven cells of the task's own stack page and its descriptor.\<close>

lemma suspend_frame:
  assumes "layout_ok l" and "(c, sc) \<in> set l" and "current_task s = c" and "in_stack sc 48 4088 (rsp (cpu s))"
  shows "cells (suspend s) c = rsp (cpu s) - 48"
    and "frame_at (suspend s) (rsp (cpu s) - 48) = returning s"
    and "page p \<Longrightarrow> k < 4096 \<Longrightarrow> p \<noteq> sc \<Longrightarrow> p \<noteq> c \<or> k \<noteq> 0 \<Longrightarrow>
      cells (suspend s) (p + of_nat k) = cells s (p + of_nat k)"
    and "in_stack sc 0 4040 (rsp (cpu s) - 48)"
proof -
  note d = layout_okD [OF assms(1,2,2)]
  obtain off where off: "rsp (cpu s) = sc + of_nat off" "8 dvd off" "48 \<le> off" "off \<le> 4088"
    using assms(4) by (auto simp: in_stack_def)
  let ?b = "sc + of_nat (off - 48)"
  have b: "rsp (cpu s) - 48 = ?b" using off(1,3) by (simp add: of_nat_diff)
  have bk: "?b + of_nat k = sc + of_nat (off - 48 + k)" for k by simp
  have a: "rsp (cpu s) = ?b + 48" "rsp (cpu s) - 8 = ?b + 40" "rsp (cpu s) - 16 = ?b + 32"
    "rsp (cpu s) - 24 = ?b + 24" "rsp (cpu s) - 32 = ?b + 16" "rsp (cpu s) - 40 = ?b + 8"
    using b by (simp_all add: algebra_simps flip: b)
  have cs: "cells (suspend s) = (cells s)(?b + 40 := rbp (cpu s), ?b + 32 := rbx (cpu s), ?b + 24 := r12 (cpu s),
      ?b + 16 := r13 (cpu s), ?b + 8 := r14 (cpu s), ?b := r15 (cpu s), c := ?b)"
    unfolding suspend_def Let_def a(2-6) b assms(3) by simp
  have nc: "?b + of_nat k \<noteq> c" if "k \<le> 48" for k
    using page_eq_iff [OF d(2,1), of "off - 48 + k" 0] d(4) off that unfolding bk by simp
  have ncs: "?b \<noteq> c" "?b + 8 \<noteq> c" "?b + 16 \<noteq> c" "?b + 24 \<noteq> c" "?b + 32 \<noteq> c" "?b + 40 \<noteq> c" "?b + 48 \<noteq> c"
    using nc [of 0] nc [of 8] nc [of 16] nc [of 24] nc [of 32] nc [of 40] nc [of 48] by simp_all
  show "cells (suspend s) c = rsp (cpu s) - 48" unfolding cs b by simp
  show "frame_at (suspend s) (rsp (cpu s) - 48) = returning s"
    unfolding b frame_at_def cs returning_def a(1) using ncs
    by (cases "cpu s") (simp add: fun_upd_apply)
  show "in_stack sc 0 4040 (rsp (cpu s) - 48)"
    unfolding in_stack_def b by (rule exI [of _ "off - 48"]) (use off in \<open>auto simp: dvd_diff_nat\<close>)
  assume p: "page p" "k < 4096" "p \<noteq> sc" "p \<noteq> c \<or> k \<noteq> 0"
  have ns: "p + of_nat k \<noteq> ?b + of_nat j" if "j \<le> 40" for j
    using page_eq_iff [OF p(1) d(2) p(2), of "off - 48 + j"] p(3) off that unfolding bk by simp
  have "p + of_nat k \<noteq> c" using page_eq_iff [OF p(1) d(1) p(2), of 0] p(4) by auto
  then show "cells (suspend s) (p + of_nat k) = cells s (p + of_nat k)"
    unfolding cs using ns [of 0] ns [of 8] ns [of 16] ns [of 24] ns [of 32] ns [of 40] by (simp add: fun_upd_apply)
qed

text \<open>The stack from the stack pointer up is not written.\<close>

lemma suspend_stack:
  assumes "layout_ok l" and "(c, sc) \<in> set l" and "current_task s = c"
    and "rsp (cpu s) = sc + of_nat off" and "48 \<le> off" and "off \<le> k" and "k < 4096"
  shows "cells (suspend s) (sc + of_nat k) = cells s (sc + of_nat k)"
proof -
  note d = layout_okD [OF assms(1,2,2)]
  have a: "rsp (cpu s) - of_nat j = sc + of_nat (off - j)" if "j \<le> 48" for j
    using assms(4,5) that by (simp add: of_nat_diff)
  have "sc + of_nat k \<noteq> rsp (cpu s) - of_nat j" if "0 < j" "j \<le> 48" for j
    unfolding a [OF that(2)] using page_eq_iff [OF d(2,2) assms(7), of "off - j"] assms(5,6,7) that by simp
  from this [of 8] this [of 16] this [of 24] this [of 32] this [of 40] this [of 48]
  have n: "sc + of_nat k \<noteq> rsp (cpu s) - 8" "sc + of_nat k \<noteq> rsp (cpu s) - 16" "sc + of_nat k \<noteq> rsp (cpu s) - 24"
    "sc + of_nat k \<noteq> rsp (cpu s) - 32" "sc + of_nat k \<noteq> rsp (cpu s) - 40" "sc + of_nat k \<noteq> rsp (cpu s) - 48"
    by simp_all
  have "sc + of_nat k \<noteq> c" using page_eq_iff [OF d(2,1) assms(7), of 0] d(4) by auto
  with n show ?thesis by (simp add: suspend_def Let_def assms(3) fun_upd_apply)
qed

text \<open>A suspended task: its stack pointer and the context that a switch to it restores.\<close>

definition suspended :: "layout \<Rightarrow> 'a sched_scheme \<Rightarrow> u64 \<Rightarrow> u64 \<Rightarrow> bool" where
  "suspended l s t st \<longleftrightarrow> (t, st) \<in> set l \<and> in_stack st 0 4040 (task_sp s t)"

lemma suspend_others:
  assumes "layout_ok l" and "(c, sc) \<in> set l" and "current_task s = c" and "in_stack sc 48 4088 (rsp (cpu s))"
    and "(u, su) \<in> set l"
  shows "u \<noteq> c \<Longrightarrow> task_sp (suspend s) u = task_sp s u"
    and "u \<noteq> c \<Longrightarrow> in_stack su 0 4040 (task_sp s u) \<Longrightarrow> saved (suspend s) u = saved s u"
    and "task_next (suspend s) u = task_next s u"
proof -
  note d = layout_okD [OF assms(1,5,2)] and e = layout_okD [OF assms(1,2,5)]
  note keep = suspend_frame(3) [OF assms(1-4)]
  show sp: "u \<noteq> c \<Longrightarrow> task_sp (suspend s) u = task_sp s u"
    using keep [OF d(1), of 0] d(4) by (simp add: task_sp_def)
  show "task_next (suspend s) u = task_next s u"
    using keep [OF d(1), of 8] d(4) by (simp add: task_next_def)
  assume u: "u \<noteq> c" and "in_stack su 0 4040 (task_sp s u)"
  then obtain off where off: "task_sp s u = su + of_nat off" "off \<le> 4040" by (auto simp: in_stack_def)
  have "cells (suspend s) (su + of_nat (off + k)) = cells s (su + of_nat (off + k))" if "k \<le> 48" for k
    by (rule keep) (use that off d e u in auto)
  from this [of 0] this [of 8] this [of 16] this [of 24] this [of 32] this [of 40] this [of 48]
  show "saved (suspend s) u = saved s u"
    unfolding saved_def sp [OF u] off(1) frame_at_def by (simp add: add.assoc)
qed

lemma switch_effect:
  assumes "layout_ok l" and "(c, sc) \<in> set l" and "current_task s = c" and "in_stack sc 48 4088 (rsp (cpu s))"
    and "(n, sn) \<in> set l" and "n \<noteq> c \<longrightarrow> suspended l s n sn"
  shows "current_task (context_switch n s) = n"
    and "cpu (context_switch n s) = (if n = c then returning s else saved s n)"
    and "suspended l (context_switch n s) c sc" and "saved (context_switch n s) c = returning s"
    and "(u, su) \<in> set l \<Longrightarrow> u \<noteq> c \<Longrightarrow> suspended l s u su \<Longrightarrow>
      suspended l (context_switch n s) u su \<and> saved (context_switch n s) u = saved s u"
    and "(u, su) \<in> set l \<Longrightarrow> task_next (context_switch n s) u = task_next s u"
    and "task_list_head (context_switch n s) = task_list_head s"
    and "task_list_tail (context_switch n s) = task_list_tail s"
proof -
  let ?t = "context_switch n s"
  note f = suspend_frame [OF assms(1-4)] and o = suspend_others [OF assms(1-4)]
  have cs: "cells ?t = cells (suspend s)" by (simp add: context_switch_eq)
  then have eq: "task_sp ?t = task_sp (suspend s)" "saved ?t = saved (suspend s)" "task_next ?t = task_next (suspend s)"
    by (auto simp: task_sp_def saved_def frame_at_def task_next_def fun_eq_iff)
  show "current_task ?t = n" by (simp add: context_switch_eq)
  show "task_list_head ?t = task_list_head s" "task_list_tail ?t = task_list_tail s"
    by (simp_all add: context_switch_eq suspend_def Let_def)
  have sv: "saved (suspend s) c = returning s" using f(1,2) by (simp add: saved_def task_sp_def)
  then show "saved ?t c = returning s" by (simp add: eq)
  show "suspended l ?t c sc" using f(1,4) assms(2) by (simp add: suspended_def eq task_sp_def)
  have "n \<noteq> c \<Longrightarrow> saved (suspend s) n = saved s n"
    using o(2) [OF assms(5)] assms(6) by (simp add: suspended_def)
  then show "cpu ?t = (if n = c then returning s else saved s n)" using sv by (simp add: context_switch_eq)
  show "(u, su) \<in> set l \<Longrightarrow> task_next ?t u = task_next s u" using o(3) by (simp add: eq)
  show "suspended l ?t u su \<and> saved ?t u = saved s u"
    if "(u, su) \<in> set l" "u \<noteq> c" "suspended l s u su"
    using o(1,2) [OF that(1,2)] that(1,3) by (simp add: suspended_def eq)
qed

section \<open>The run queue\<close>

text \<open>Adding a created task to the queue.\<close>

definition queues :: "u64 list \<Rightarrow> 'a sched_scheme \<Rightarrow> bool" where
  "queues ts s \<longleftrightarrow> fifo (task_next s) (task_list_head s) (task_list_tail s) ts \<and> list_all page ts"

lemma page_not_next: "page p \<Longrightarrow> page q \<Longrightarrow> p \<noteq> q + 8"
  using page_eq_iff [of p q 0 8] by simp

lemma add_task_queues:
  assumes "queues ts s" and "page t" and "t \<noteq> 0" and "task_next s t = 0" and "t \<notin> set ts"
  shows "queues (ts @ [t]) (sched_add_task t s)"
proof (cases "ts = []")
  case True
  with assms show ?thesis
    by (simp add: queues_def sched_add_task_def task_next_def fifo_append_first)
next
  case False
  have f: "fifo (task_next s) (task_list_head s) (task_list_tail s) ts" using assms(1) by (simp add: queues_def)
  have tl: "task_list_tail s \<in> set ts" using f False by (simp add: fifo_def)
  then have tp: "page (task_list_tail s)" using assms(1) by (auto simp: queues_def list_all_iff)
  let ?s = "set_cell (task_list_tail s + 8) t s"
  have n: "task_next ?s a = (if a = task_list_tail s then t else task_next s a)" for a
    by (simp add: task_next_def set_cell_def)
  have "fifo (task_next ?s) (task_list_head s) t (ts @ [t])"
    by (rule fifo_append [OF f False assms(5,3)]) (use n tl assms(4,5) in auto)
  moreover have "task_next (?s\<lparr>task_list_tail := t\<rparr>) = task_next ?s" by (simp add: task_next_def fun_eq_iff)
  ultimately show ?thesis
    using assms(1,2) fifo_head [OF f] False by (simp add: queues_def sched_add_task_def Let_def set_cell_def)
qed

interpretation run_queue: linked_fifo sched_add_task queues "\<lambda>t s. page t \<and> t \<noteq> 0 \<and> task_next s t = 0"
proof unfold_locales
  fix ts and s :: "'a sched_scheme" and x
  assume "queues ts s" "page x \<and> x \<noteq> 0 \<and> task_next s x = 0" "x \<notin> set ts"
  then show "queues (ts @ [x]) (sched_add_task x s)" by (simp add: add_task_queues)
next
  fix ts and s :: "'a sched_scheme" and x y
  assume q: "queues ts s" and x: "page x \<and> x \<noteq> 0 \<and> task_next s x = 0"
    and y: "page y \<and> y \<noteq> 0 \<and> task_next s y = 0" and "x \<noteq> y" "y \<notin> set ts"
  show "page y \<and> y \<noteq> 0 \<and> task_next (sched_add_task x s) y = 0"
  proof (cases "task_list_head s = 0")
    case True
    then show ?thesis using y by (simp add: sched_add_task_def task_next_def)
  next
    case False
    have f: "fifo (task_next s) (task_list_head s) (task_list_tail s) ts" using q by (simp add: queues_def)
    then have "task_list_tail s \<in> set ts" using fifo_head [OF f] False by (simp add: fifo_def)
    with \<open>y \<notin> set ts\<close> have "task_list_tail s \<noteq> y" by auto
    with False y show ?thesis by (simp add: sched_add_task_def task_next_def set_cell_def)
  qed
qed


section \<open>Creating tasks\<close>

text \<open>The context of a task that has not run yet.\<close>

definition fresh_context :: "u64 \<Rightarrow> u64 \<Rightarrow> regs" where
  "fresh_context st entry_point = \<lparr>rsp = st + 4096, rbp = 0, rbx = 0, r12 = 0, r13 = 0, r14 = 0, r15 = 0,
     rip = entry_point\<rparr>"

lemma page_next: "page p \<Longrightarrow> page (p + 4096)"
proof -
  have "(4096 :: nat) dvd 2 ^ LENGTH(64)" by simp
  then have "unat (p + 4096) mod 4096 = (unat p + unat (4096 :: u64)) mod 4096"
    unfolding unat_word_ariths by (rule mod_mod_cancel)
  then show "page p \<Longrightarrow> page (p + 4096)" by (simp add: page_def)
qed

lemma create_eq:
  "sched_create_task e s = (let p = next_free_page s; st = p + 4096 in
     (p, s\<lparr>next_free_page := p + 8192, cells := (cells s)(st + 4088 := e, st + 4080 := 0, st + 4072 := 0,
        st + 4064 := 0, st + 4056 := 0, st + 4048 := 0, st + 4040 := 0, p := st + 4040, p + 8 := 0)\<rparr>))"
proof -
  have six: "[0..<6] = [0, 1, 2, 3, 4, 5 :: nat]" by (simp add: upt_rec)
  show ?thesis
    unfolding sched_create_task_def six page_alloc_def Let_def prod.case fold.simps o_apply set_cell_def
    by (simp add: algebra_simps)
qed


definition spawn :: "u64 \<Rightarrow> 'a sched_scheme \<Rightarrow> 'a sched_scheme" where
  "spawn e s = (let (t, s) = sched_create_task e s in sched_add_task t s)"

text \<open>A run queue of tasks that are all suspended, before the first switch; the pages still to be
  handed out lie behind those of the tasks.\<close>

definition sched_ok :: "layout \<Rightarrow> 'a sched_scheme \<Rightarrow> bool" where
  "sched_ok l s \<longleftrightarrow> layout_ok l \<and> queues (map fst l) s \<and> (\<forall>(t, st) \<in> set l. suspended l s t st) \<and>
     page (next_free_page s) \<and> next_free_page s \<noteq> 0 \<and>
     (\<forall>(t, st) \<in> set l. unat t < unat (next_free_page s) \<and> unat st < unat (next_free_page s))"

lemma create_cells:
  assumes "page r" and "k < 4096" and "page (next_free_page s)"
    and "r \<noteq> next_free_page s" and "r \<noteq> next_free_page s + 4096"
  shows "cells (snd (sched_create_task e s)) (r + of_nat k) = cells s (r + of_nat k)"
proof -
  let ?p = "next_free_page s"
  note st = page_next [OF assms(3)]
  have a: "r + of_nat k \<noteq> ?p + 4096 + of_nat j" if "j < 4096" for j
    using page_eq_iff [OF assms(1) st assms(2) that] assms(5) by simp
  have b: "r + of_nat k \<noteq> ?p + of_nat j" if "j < 4096" for j
    using page_eq_iff [OF assms(1,3,2) that] assms(4) by simp
  show ?thesis
    using a [of 4088] a [of 4080] a [of 4072] a [of 4064] a [of 4056] a [of 4048] a [of 4040] b [of 0] b [of 8]
    by (simp add: create_eq Let_def fun_upd_apply)
qed

lemma create_new:
  assumes "page (next_free_page s)"
  shows "saved (snd (sched_create_task e s)) (next_free_page s) = fresh_context (next_free_page s + 4096) e"
    and "task_sp (snd (sched_create_task e s)) (next_free_page s) = next_free_page s + 4096 + 4040"
    and "task_next (snd (sched_create_task e s)) (next_free_page s) = 0"
proof -
  let ?p = "next_free_page s"
  let ?st = "?p + 4096"
  note st = page_next [OF assms]
  have ne: "?st \<noteq> ?p" by simp
  have a: "?st + of_nat j \<noteq> ?p + of_nat k" if "j < 4096" "k < 4096" for j k
    using page_eq_iff [OF st assms that] ne by simp
  have n: "?st + 4088 \<noteq> ?p" "?st + 4088 \<noteq> ?p + 8" "?st + 4080 \<noteq> ?p" "?st + 4080 \<noteq> ?p + 8"
    "?st + 4072 \<noteq> ?p" "?st + 4072 \<noteq> ?p + 8" "?st + 4064 \<noteq> ?p" "?st + 4064 \<noteq> ?p + 8"
    "?st + 4056 \<noteq> ?p" "?st + 4056 \<noteq> ?p + 8" "?st + 4048 \<noteq> ?p" "?st + 4048 \<noteq> ?p + 8"
    "?st + 4040 \<noteq> ?p" "?st + 4040 \<noteq> ?p + 8"
    using a [of 4088 0] a [of 4088 8] a [of 4080 0] a [of 4080 8] a [of 4072 0] a [of 4072 8] a [of 4064 0]
      a [of 4064 8] a [of 4056 0] a [of 4056 8] a [of 4048 0] a [of 4048 8] a [of 4040 0] a [of 4040 8]
    by simp_all
  show sp: "task_sp (snd (sched_create_task e s)) ?p = ?st + 4040"
    by (simp add: create_eq Let_def task_sp_def)
  show "task_next (snd (sched_create_task e s)) ?p = 0"
    by (simp add: create_eq Let_def task_next_def)
  show "saved (snd (sched_create_task e s)) ?p = fresh_context ?st e"
    unfolding saved_def sp fresh_context_def frame_at_def
    using n by (simp add: create_eq Let_def fun_upd_apply add.assoc)
qed

lemma create_fields:
  "task_list_head (snd (sched_create_task e s)) = task_list_head s"
  "task_list_tail (snd (sched_create_task e s)) = task_list_tail s"
  "fst (sched_create_task e s) = next_free_page s"
  "next_free_page (snd (sched_create_task e s)) = next_free_page s + 8192"
  "cpu (snd (sched_create_task e s)) = cpu s" "current_task (snd (sched_create_task e s)) = current_task s"
  by (simp_all add: create_eq Let_def)


lemma suspended_cong:
  assumes "suspended l s t st" and "(t, st) \<in> set l'" and "cells u t = cells s t"
    and "\<And>k. k < 4096 \<Longrightarrow> cells u (st + of_nat k) = cells s (st + of_nat k)"
  shows "suspended l' u t st" and "saved u t = saved s t"
proof -
  have sp: "task_sp u t = task_sp s t" using assms(3) by (simp add: task_sp_def)
  then show "suspended l' u t st" using assms(1,2) by (simp add: suspended_def)
  obtain off where off: "task_sp s t = st + of_nat off" "off \<le> 4040"
    using assms(1) by (auto simp: suspended_def in_stack_def)
  have "cells u (st + of_nat (off + k)) = cells s (st + of_nat (off + k))" if "k \<le> 48" for k
    using assms(4) [of "off + k"] off(2) that by simp
  from this [of 0] this [of 8] this [of 16] this [of 24] this [of 32] this [of 40] this [of 48]
  show "saved u t = saved s t" unfolding saved_def sp off(1) frame_at_def by (simp add: add.assoc)
qed

lemma add_task_cells:
  assumes "queues ts s" and "r \<noteq> task_list_tail s \<or> k \<noteq> 8" and "page r" and "k < 4096"
  shows "cells (sched_add_task t s) (r + of_nat k) = cells s (r + of_nat k)"
proof (cases "task_list_head s = 0")
  case False
  have f: "fifo (task_next s) (task_list_head s) (task_list_tail s) ts" using assms(1) by (simp add: queues_def)
  then have "task_list_tail s \<in> set ts" using fifo_head [OF f] False by (simp add: fifo_def)
  then have "page (task_list_tail s)" using assms(1) by (auto simp: queues_def list_all_iff)
  then have "r + of_nat k \<noteq> task_list_tail s + of_nat 8"
    using page_eq_iff [OF assms(3) _ assms(4), of "task_list_tail s" 8] assms(2) by auto
  then show ?thesis using False by (simp add: sched_add_task_def set_cell_def Let_def)
qed (simp add: sched_add_task_def)

lemma queues_tail: "queues ts s \<Longrightarrow> task_list_head s \<noteq> 0 \<Longrightarrow> task_list_tail s \<in> set ts"
  using fifo_head [of "task_next s" "task_list_head s" "task_list_tail s" ts] by (auto simp: queues_def fifo_def)

lemma sched_okD:
  fixes s :: "'a sched_scheme"
  assumes "sched_ok l s" and "(t, st) \<in> set l"
  shows "unat t < unat (next_free_page s)" "unat st < unat (next_free_page s)" "page t" "page st"
    "suspended l s t st" "t \<noteq> 0" "st \<notin> set (map fst l)"
proof -
  show "unat t < unat (next_free_page s)" "unat st < unat (next_free_page s)" "page t" "page st" "suspended l s t st" "t \<noteq> 0"
    using assms by (auto simp: sched_ok_def layout_ok_def)
  have "st \<in> set (map snd l)" using imageI [OF assms(2), of snd] by simp
  moreover have "set (map fst l) \<inter> set (map snd l) = {}" using assms(1) by (simp add: sched_ok_def layout_ok_def)
  ultimately show "st \<notin> set (map fst l)" by blast
qed

text \<open>The pages of a new task are above those of the others, which its creation leaves as they are.\<close>

lemma create_keeps:
  fixes s :: "'a sched_scheme" and e :: u64
  assumes "sched_ok l s" and "unat (next_free_page s) + 8192 < 2 ^ 64"
  defines "p \<equiv> next_free_page s" and "u \<equiv> snd (sched_create_task e s)"
  shows "(t, st) \<in> set l \<Longrightarrow> t \<noteq> p \<and> t \<noteq> p + 4096 \<and> st \<noteq> p \<and> st \<noteq> p + 4096"
    and "(t, st) \<in> set l \<Longrightarrow> suspended (l @ [(p, p + 4096)]) u t st"
    and "(t, st) \<in> set l \<Longrightarrow> saved u t = saved s t"
    and "queues (map fst l) u"
proof -
  let ?l = "l @ [(p, p + 4096)]"
  have pp: "page p" using assms(1) by (simp add: sched_ok_def p_def)
  have "unat (p + 4096) = unat p + 4096" using assms(2) by (simp add: p_def unat_word_ariths)
  then show ne: "t \<noteq> p \<and> t \<noteq> p + 4096 \<and> st \<noteq> p \<and> st \<noteq> p + 4096" if "(t, st) \<in> set l" for t st
    using sched_okD(1,2) [OF assms(1) that] unfolding p_def [symmetric] by auto
  have old: "suspended ?l u t st" "saved u t = saved s t" "task_next u t = task_next s t" if m: "(t, st) \<in> set l" for t st
  proof -
    note w = sched_okD [OF assms(1) m] and cells_u = create_cells [where e = e and s = s, folded p_def u_def, OF _ _ pp]
    have c: "cells u t = cells s t" "task_next u t = task_next s t"
      using cells_u [OF w(3), of 0] cells_u [OF w(3), of 8] ne [OF m] by (simp_all add: task_next_def)
    then show "task_next u t = task_next s t" by simp
    show "suspended ?l u t st" "saved u t = saved s t"
      using suspended_cong [OF w(5) _ c(1), of ?l] cells_u [OF w(4)] ne [OF m] m by auto
  qed
  show "suspended ?l u t st" "saved u t = saved s t" if "(t, st) \<in> set l" using old [OF that] by simp_all
  have "fifo (task_next u) (task_list_head s) (task_list_tail s) (map fst l) =
      fifo (task_next s) (task_list_head s) (task_list_tail s) (map fst l)"
    unfolding fifo_def by (intro arg_cong2 [where f = "(\<and>)"] chain_cong refl) (use old(3) in auto)
  then show "queues (map fst l) u" using assms(1) by (simp add: u_def sched_ok_def queues_def create_fields)
qed

lemma spawn_ok:
  fixes s :: "'a sched_scheme"
  assumes "sched_ok l s" and "unat (next_free_page s) + 8192 < 2 ^ 64"
  defines "p \<equiv> next_free_page s"
  shows "sched_ok (l @ [(p, p + 4096)]) (spawn e s)" and "saved (spawn e s) p = fresh_context (p + 4096) e"
    and "(t, st) \<in> set l \<Longrightarrow> saved (spawn e s) t = saved s t"
    and "cpu (spawn e s) = cpu s" and "next_free_page (spawn e s) = next_free_page s + 8192"
proof -
  let ?u = "snd (sched_create_task e s)" and ?v = "spawn e s" and ?l = "l @ [(p, p + 4096)]"
  have v: "?v = sched_add_task p ?u" by (simp add: spawn_def case_prod_beta create_fields p_def)
  have pp: "page p" "p \<noteq> 0" "page (p + 4096)" using assms(1) page_next by (auto simp: sched_ok_def p_def)
  note lo = sched_okD [OF assms(1), folded p_def] and old = create_keeps(1) [OF assms(1,2), folded p_def]
    create_keeps(2-4) [where e = e, OF assms(1,2), folded p_def]
  note new = create_new [OF pp(1) [unfolded p_def], folded p_def, of e]
  have fresh: "p \<notin> set (map fst l)" "p + 4096 \<notin> set (map fst l)" using old(1) by fastforce+
  have q: "queues (map fst ?l) ?v" using run_queue.add_holds [OF old(4), of p] pp new(3) fresh(1) v by simp
  have cells_v: "cells ?v (r + of_nat k) = cells ?u (r + of_nat k)"
    if "page r" "k < 4096" "r \<notin> set (map fst l) \<or> k \<noteq> 8" for r k
    using add_task_cells [OF old(4) _ that(1,2)] queues_tail [OF old(4)] that(3)
    by (cases "task_list_head ?u = 0") (simp add: v sched_add_task_def, unfold v, blast)
  have keep: "suspended ?l ?v t st \<and> saved ?v t = saved ?u t"
    if "(t, st) \<in> set ?l" "suspended ?l ?u t st" "page t" "page st" "st \<notin> set (map fst l)" for t st
    using suspended_cong [OF that(2,1), of ?v] cells_v [OF that(3), of 0] cells_v [OF that(4)] that(5) by simp
  have olds: "suspended ?l ?v t st \<and> saved ?v t = saved s t" if "(t, st) \<in> set l" for t st
    using keep [OF _ old(2) [OF that] lo(3,4,7) [OF that]] old(3) [OF that] that by simp
  then show "saved ?v t = saved s t" if "(t, st) \<in> set l" for t st using that by blast
  have "suspended ?l ?u p (p + 4096)"
    unfolding suspended_def new(2) in_stack_def by (auto intro: exI [of _ 4040])
  then have sp: "suspended ?l ?v p (p + 4096) \<and> saved ?v p = saved ?u p" using fresh(2) pp by (intro keep) simp_all
  then show "saved ?v p = fresh_context (p + 4096) e" using new(1) by simp
  show nf: "next_free_page ?v = next_free_page s + 8192" and "cpu ?v = cpu s"
    unfolding v by (simp_all add: sched_add_task_def set_cell_def Let_def create_fields)
  have up: "unat (p + 4096) = unat p + 4096" "unat (p + 8192) = unat p + 8192"
    using assms(2) by (simp_all add: p_def unat_word_ariths)
  have "page (p + 8192)" using page_next [OF pp(3)] by (simp add: add.commute)
  moreover have "p + 8192 \<noteq> 0" using up(2) by (metis unat_0 add_is_0 numeral_eq_iff zero_neq_numeral)
  moreover have "layout_ok ?l"
    using assms(1) pp old(1) by (fastforce simp: sched_ok_def layout_ok_def)
  ultimately show "sched_ok ?l ?v"
    using q olds sp nf up unfolding sched_ok_def p_def [symmetric] by (auto dest: lo(1,2))
qed


section \<open>Turns\<close>

text \<open>Tasks are running: the current one has its context in the registers, the others are suspended.\<close>

definition sched_inv :: "layout \<Rightarrow> 'a sched_scheme \<Rightarrow> bool" where
  "sched_inv l s \<longleftrightarrow> layout_ok l \<and> queues (map fst l) s \<and> current_task s \<in> fst ` set l \<and>
     (\<forall>(t, st) \<in> set l. t \<noteq> current_task s \<longrightarrow> suspended l s t st)"

text \<open>The current task computes: it may change all registers and its own stack page, and ends with
  its stack pointer in that page, at a return address with room below for a frame.\<close>

definition runs :: "layout \<Rightarrow> 'a sched_scheme \<Rightarrow> 'a sched_scheme \<Rightarrow> bool" where
  "runs l s u \<longleftrightarrow> current_task u = current_task s \<and> task_list_head u = task_list_head s \<and>
     task_list_tail u = task_list_tail s \<and>
     (\<exists>sc. (current_task s, sc) \<in> set l \<and> in_stack sc 48 4088 (rsp (cpu u)) \<and>
        (\<forall>a. (\<forall>k < 4096. a \<noteq> sc + of_nat k) \<longrightarrow> cells u a = cells s a))"

inductive task_turn :: "layout \<Rightarrow> 'a sched_scheme \<Rightarrow> 'a sched_scheme \<Rightarrow> bool" for l where
  turn: "runs l s u \<Longrightarrow> task_turn l s (sched_yield u)"

inductive_cases task_turnE: "task_turn l s t"

definition keeps_task :: "'a sched_scheme \<Rightarrow> 'a sched_scheme \<Rightarrow> u64 \<times> u64 \<Rightarrow> bool" where
  "keeps_task s t p \<longleftrightarrow> cells t (fst p) = cells s (fst p) \<and>
     (\<forall>k < 4096. cells t (snd p + of_nat k) = cells s (snd p + of_nat k))"

lemma keeps_task_refl: "keeps_task s s p"
  by (simp add: keeps_task_def)

lemma keeps_task_trans: "keeps_task s t p \<Longrightarrow> keeps_task t u p \<Longrightarrow> keeps_task s u p"
  by (simp add: keeps_task_def)

lemma keeps_task_suspended:
  assumes "keeps_task s t (u, su)" and "suspended l s u su"
  shows "suspended l t u su" and "saved t u = saved s u"
  using suspended_cong [OF assms(2), of l t] assms by (simp_all add: keeps_task_def suspended_def)

lemma sched_invD:
  assumes "sched_inv l s"
  shows "layout_ok l" "queues (map fst l) s"
    "(t, st) \<in> set l \<Longrightarrow> t \<noteq> current_task s \<Longrightarrow> suspended l s t st"
  using assms by (auto simp: sched_inv_def)

lemma runs_keeps:
  assumes "sched_inv l s" and "runs l s u"
  shows "sched_inv l u" and "(t, st) \<in> set l \<Longrightarrow> t \<noteq> current_task s \<Longrightarrow> keeps_task s u (t, st)"
    and "current_task u = current_task s"
    and "\<exists>sc. (current_task u, sc) \<in> set l \<and> in_stack sc 48 4088 (rsp (cpu u))"
proof -
  note i = sched_invD [OF assms(1)]
  obtain sc where sc: "(current_task s, sc) \<in> set l" "in_stack sc 48 4088 (rsp (cpu u))"
    "\<And>a. (\<forall>k < 4096. a \<noteq> sc + of_nat k) \<Longrightarrow> cells u a = cells s a"
    using assms(2) by (auto simp: runs_def)
  note psc = layout_okD(2) [OF i(1) sc(1) sc(1)]
  show c: "current_task u = current_task s" using assms(2) by (simp add: runs_def)
  show "\<exists>sc. (current_task u, sc) \<in> set l \<and> in_stack sc 48 4088 (rsp (cpu u))" using sc c by auto
  have same: "cells u (p + of_nat k) = cells s (p + of_nat k)" if "page p" "k < 4096" "p \<noteq> sc" for p k
    using page_eq_iff [OF that(1) psc that(2)] that(3) by (intro sc(3)) auto
  have keep: "keeps_task s u (t, st)" if "(t, st) \<in> set l" "t \<noteq> current_task s" for t st
    using layout_okD [OF i(1) that(1) sc(1)] same [of t 0] same [of st] that(2) by (auto simp: keeps_task_def)
  then show "(t, st) \<in> set l \<Longrightarrow> t \<noteq> current_task s \<Longrightarrow> keeps_task s u (t, st)" .
  have nx: "task_next u t = task_next s t" if m: "t \<in> set (map fst l)" for t
  proof -
    from m obtain st where t: "(t, st) \<in> set l" by auto
    show ?thesis using layout_okD [OF i(1) t sc(1)] same [of t 8] by (simp add: task_next_def)
  qed
  have "fifo (task_next u) (task_list_head s) (task_list_tail s) (map fst l) =
      fifo (task_next s) (task_list_head s) (task_list_tail s) (map fst l)"
    unfolding fifo_def by (intro arg_cong2 [where f = "(\<and>)"] chain_cong refl nx) simp_all
  then have "queues (map fst l) u" using i(2) assms(2) by (simp add: queues_def runs_def)
  moreover have "suspended l u t st" if "(t, st) \<in> set l" "t \<noteq> current_task s" for t st
    by (rule keeps_task_suspended(1) [OF keep [OF that] i(3) [OF that]])
  ultimately show "sched_inv l u" using assms(1) c by (auto simp: sched_inv_def)
qed

text \<open>The next task is the next of the queue, cyclically.\<close>

lemma next_task_eq:
  assumes "queues ts s" and "i < length ts" and "current_task s = ts ! i"
  shows "next_task s = ts ! (Suc i mod length ts)"
proof -
  have f: "fifo (task_next s) (task_list_head s) (task_list_tail s) ts" using assms(1) by (simp add: queues_def)
  then have ch: "chain (task_next s) (task_list_head s) ts 0" by (simp add: fifo_def)
  have n0: "ts ! k \<noteq> 0" if "k < length ts" for k using chain_nonzero [OF ch] nth_mem [OF that] by metis
  have hd: "task_list_head s = ts ! 0" using chain_start [OF ch] assms(2) by (cases ts) auto
  show ?thesis
  proof (cases "Suc i < length ts")
    case True
    then show ?thesis using chain_next [OF ch assms(2)] n0 assms(2,3) by (simp add: next_task_def)
  next
    case False
    then have "Suc i = length ts" using assms(2) by simp
    then show ?thesis using chain_next [OF ch assms(2)] assms(3) hd by (simp add: next_task_def)
  qed
qed


text \<open>What a switch keeps of the other tasks, their stacks included.\<close>

lemma switch_keeps:
  assumes "layout_ok l" and "(c, sc) \<in> set l" and "current_task s = c" and "in_stack sc 48 4088 (rsp (cpu s))"
    and "(u, su) \<in> set l" and "u \<noteq> c"
  shows "keeps_task s (context_switch n s) (u, su)"
proof -
  note d = layout_okD [OF assms(1,5,2)] and e = layout_okD [OF assms(1,2,5)]
  note keep = suspend_frame(3) [OF assms(1-4)]
  have cs: "cells (context_switch n s) = cells (suspend s)" by (simp add: context_switch_eq)
  show ?thesis
    unfolding keeps_task_def fst_conv snd_conv cs
    using keep [OF d(1), of 0] keep [OF d(2)] d(4,5) e(4) assms(6) by simp
qed

lemma turn_effect:
  assumes "sched_inv l s" and "current_task s = fst (l ! i)" and "i < length l" and "task_turn l s t"
  defines "n \<equiv> fst (l ! (Suc i mod length l))"
  shows "sched_inv l t" and "current_task t = n"
    and "(u, su) \<in> set l \<Longrightarrow> u \<noteq> current_task s \<Longrightarrow> keeps_task s t (u, su)"
    and "n \<noteq> current_task s \<Longrightarrow> cpu t = saved s n"
proof -
  from assms(4) obtain v where v: "runs l s v" "t = sched_yield v" by (elim task_turnE)
  note r = runs_keeps [OF assms(1) v(1)]
  note i = sched_invD [OF r(1)]
  obtain sc where sc: "(current_task v, sc) \<in> set l" "in_stack sc 48 4088 (rsp (cpu v))" using r(4) by blast
  have "next_task v = map fst l ! (Suc i mod length (map fst l))"
    by (rule next_task_eq [OF i(2)]) (use assms(2,3) r(3) in simp_all)
  moreover have m: "Suc i mod length l < length l" using mod_less_divisor [of "length l" "Suc i"] assms(3) by linarith
  ultimately have nx: "next_task v = n" by (simp add: n_def)
  then have t: "t = context_switch n v" by (simp add: v(2) sched_yield_def)
  define sn where "sn = snd (l ! (Suc i mod length l))"
  have n: "(n, sn) \<in> set l" unfolding n_def sn_def prod.collapse by (rule nth_mem [OF m])
  have "n \<noteq> current_task v \<longrightarrow> suspended l v n sn" using i(3) [OF n] by blast
  note w = switch_effect [OF i(1) sc(1) refl sc(2) n this, folded t]
  show cur: "current_task t = n" by (rule w(1))
  show keep: "keeps_task s t (u, su)" if "(u, su) \<in> set l" "u \<noteq> current_task s" for u su
    using keeps_task_trans [OF r(2) [OF that]] switch_keeps [OF i(1) sc(1) refl sc(2) that(1)] that(2) r(3) t by simp
  have sv: "saved v u = saved s u" if "(u, su) \<in> set l" "u \<noteq> current_task s" for u su
    using keeps_task_suspended(2) [OF r(2) [OF that] sched_invD(3) [OF assms(1) that]] .
  show "n \<noteq> current_task s \<Longrightarrow> cpu t = saved s n" using w(2) r(3) sv [OF n] by simp
  have nt: "task_next t u = task_next v u" if m: "u \<in> set (map fst l)" for u
    using w(6) m by auto
  have "fifo (task_next t) (task_list_head v) (task_list_tail v) (map fst l) =
      fifo (task_next v) (task_list_head v) (task_list_tail v) (map fst l)"
    unfolding fifo_def by (intro arg_cong2 [where f = "(\<and>)"] chain_cong refl nt) simp_all
  then have "queues (map fst l) t" using i(2) w(7,8) by (simp add: queues_def)
  moreover have "suspended l t u su" if "(u, su) \<in> set l" "u \<noteq> n" for u su
  proof (cases "u = current_task v")
    case True
    then have "su = sc" using layout_okD(5) [OF i(1) that(1) sc(1)] by simp
    then show ?thesis using w(3) True by simp
  next
    case False
    then show ?thesis using w(5) [OF that(1) False i(3) [OF that(1) False]] by simp
  qed
  moreover have "n \<in> fst ` set l" using n by force
  ultimately show "sched_inv l t" using i(1) cur by (auto simp: sched_inv_def)
qed

lemma turns_effect:
  assumes "(task_turn l ^^ k) s t" and "sched_inv l s" and "current_task s = fst (l ! i)" and "i < length l"
  shows "sched_inv l t \<and> current_task t = fst (l ! ((i + k) mod length l)) \<and>
    (\<forall>j < length l. (\<forall>m < k. (i + m) mod length l \<noteq> j) \<longrightarrow> keeps_task s t (l ! j))"
  using assms(1)
proof (induction k arbitrary: t)
  case 0
  then show ?case using assms(2-4) by (simp add: keeps_task_refl)
next
  case (Suc k)
  then obtain u where u: "(task_turn l ^^ k) s u" "task_turn l u t" by auto
  let ?n = "length l"
  have n: "0 < ?n" using assms(4) by auto
  note ih = Suc.IH [OF u(1)]
  have c: "sched_inv l u" "current_task u = fst (l ! ((i + k) mod ?n))" "(i + k) mod ?n < ?n"
    using ih n by simp_all
  note e = turn_effect [OF c u(2)]
  have "Suc ((i + k) mod ?n) mod ?n = (i + Suc k) mod ?n" by (simp add: mod_Suc_eq)
  moreover have "keeps_task s t (l ! j)" if j: "j < ?n" "\<forall>m < Suc k. (i + m) mod ?n \<noteq> j" for j
  proof -
    have "keeps_task s u (l ! j)" using ih j by simp
    moreover have "fst (l ! j) \<noteq> current_task u"
    proof -
      have "distinct (map fst l)" using c(1) by (simp add: sched_inv_def layout_ok_def)
      then show ?thesis unfolding c(2)
        using j nth_eq_iff_index_eq [of "map fst l" j "(i + k) mod ?n"] c(3) by auto
    qed
    then have "keeps_task u t (l ! j)" using e(3) [of "fst (l ! j)" "snd (l ! j)"] nth_mem [OF j(1)] by simp
    ultimately show ?thesis by (rule keeps_task_trans)
  qed
  ultimately show ?case using e(1,2) by simp
qed


section \<open>The start\<close>

text \<open>Addresses outside the pages of the tasks.\<close>

definition outside :: "layout \<Rightarrow> u64 \<Rightarrow> bool" where
  "outside l a \<longleftrightarrow> (\<forall>(t, st) \<in> set l. \<forall>k < 4096. a \<noteq> t + of_nat k \<and> a \<noteq> st + of_nat k)"

lemma start_shape:
  fixes s :: "'a sched_scheme"
  assumes "task_list_head s \<noteq> 0"
  shows "current_task (sched_start boot s) = task_list_head s" "task_list_head (sched_start boot s) = task_list_head s"
    "task_list_tail (sched_start boot s) = task_list_tail s"
    "cpu (sched_start boot s) = saved (sched_start boot s) (task_list_head s)"
proof -
  define u where "u = (set_cell boot 0 (set_cell (boot + 8) (task_list_head s) s))\<lparr>current_task := boot\<rparr>"
  have t: "sched_start boot s = context_switch (task_list_head s) u"
    using assms by (simp add: sched_start_def u_def Let_def set_cell_def)
  have "task_list_head u = task_list_head s" "task_list_tail u = task_list_tail s" by (simp_all add: u_def set_cell_def)
  then show "current_task (sched_start boot s) = task_list_head s" "task_list_head (sched_start boot s) = task_list_head s"
    "task_list_tail (sched_start boot s) = task_list_tail s"
    "cpu (sched_start boot s) = saved (sched_start boot s) (task_list_head s)"
    by (simp_all add: t context_switch_eq suspend_def Let_def saved_def frame_at_def task_sp_def)
qed

lemma start_cells:
  fixes s :: "'a sched_scheme"
  assumes "task_list_head s \<noteq> 0"
    and "\<forall>a \<in> {boot, boot + 8}. outside l a" and "\<forall>k \<in> {8, 16, 24, 32, 40, 48}. outside l (rsp (cpu s) - k)"
    and "\<exists>t st. (t, st) \<in> set l \<and> (\<exists>k < 4096. a = t + of_nat k \<or> a = st + of_nat k)"
  shows "cells (sched_start boot s) a = cells s a"
proof -
  have "a \<noteq> b" if "outside l b" for b using assms(4) that by (fastforce simp: outside_def)
  then have "a \<noteq> boot" "a \<noteq> boot + 8" "a \<noteq> rsp (cpu s) - 8" "a \<noteq> rsp (cpu s) - 16" "a \<noteq> rsp (cpu s) - 24"
    "a \<noteq> rsp (cpu s) - 32" "a \<noteq> rsp (cpu s) - 40" "a \<noteq> rsp (cpu s) - 48"
    using assms(2,3) by auto
  then show ?thesis
    using assms(1) by (simp add: sched_start_def Let_def set_cell_def context_switch_eq suspend_def fun_upd_apply)
qed

lemma start_effect:
  assumes "sched_ok l s" and "l \<noteq> []"
    and "\<forall>a \<in> {boot, boot + 8}. outside l a" and "\<forall>k \<in> {8, 16, 24, 32, 40, 48}. outside l (rsp (cpu s) - k)"
  shows "sched_inv l (sched_start boot s) \<and> current_task (sched_start boot s) = fst (l ! 0) \<and>
    cpu (sched_start boot s) = saved s (fst (l ! 0)) \<and>
    (\<forall>(t, st) \<in> set l. saved (sched_start boot s) t = saved s t)"
proof -
  have ok: "layout_ok l" "queues (map fst l) s" and sus: "\<And>t st. (t, st) \<in> set l \<Longrightarrow> suspended l s t st"
    using assms(1) by (auto simp: sched_ok_def)
  have f: "fifo (task_next s) (task_list_head s) (task_list_tail s) (map fst l)" using ok(2) by (simp add: queues_def)
  have h: "task_list_head s \<noteq> 0" using fifo_head [OF f] assms(2) by simp
  have hd: "task_list_head s = fst (l ! 0)"
    using f assms(2) chain_start [of "task_next s" "task_list_head s" "map fst l" 0]
    by (cases l) (auto simp: fifo_def)
  let ?t = "sched_start boot s"
  note e = start_shape [OF h, of boot] and eq = start_cells [OF h assms(3,4)]
  have kp: "keeps_task s ?t p" if "p \<in> set l" for p
    unfolding keeps_task_def
  proof (intro conjI allI impI)
    show "cells ?t (fst p) = cells s (fst p)" using that by (intro eq exI [of _ "fst p"] exI [of _ "snd p"]) (auto intro: exI [of _ 0])
    fix k :: nat assume "k < 4096"
    then show "cells ?t (snd p + of_nat k) = cells s (snd p + of_nat k)"
      using that by (intro eq exI [of _ "fst p"] exI [of _ "snd p"]) auto
  qed
  have nx: "task_next ?t x = task_next s x" if m: "x \<in> set (map fst l)" for x
  proof -
    from m obtain st where "(x, st) \<in> set l" by auto
    then show ?thesis unfolding task_next_def
      by (intro eq exI [of _ x] exI [of _ st]) (auto intro: exI [of _ 8])
  qed
  have "fifo (task_next ?t) (task_list_head s) (task_list_tail s) (map fst l) =
      fifo (task_next s) (task_list_head s) (task_list_tail s) (map fst l)"
    unfolding fifo_def by (intro arg_cong2 [where f = "(\<and>)"] chain_cong refl nx) simp_all
  moreover have "task_list_head ?t = task_list_head s" "task_list_tail ?t = task_list_tail s"
    by (rule e)+
  ultimately have "queues (map fst l) ?t" using ok(2) by (simp add: queues_def)
  moreover have k: "suspended l ?t x st" "saved ?t x = saved s x" if "(x, st) \<in> set l" for x st
    using keeps_task_suspended [OF kp [OF that] sus [OF that]] by simp_all
  moreover have cur: "current_task ?t = fst (l ! 0)" using e(1) hd by simp
  moreover have l0: "l ! 0 \<in> set l" using assms(2) by simp
  moreover have "cpu ?t = saved ?t (fst (l ! 0))"
    using e(4) hd by simp
  ultimately show ?thesis
    using ok(1) k(2) [of "fst (l ! 0)" "snd (l ! 0)"] by (auto simp: sched_inv_def)
qed

text \<open>The stack pointer with which a new task enters its function is a multiple of 16; the calling
  convention has it at 8 above one there, since a call has just pushed the return address.\<close>

lemma entry_stack_aligned:
  assumes "page st"
  shows "unat (rsp (fresh_context st e)) mod 16 = 0"
proof -
  have "unat (st + 4096) mod 4096 = 0" using page_next [OF assms] by (simp add: page_def)
  then have "4096 dvd unat (st + 4096)" by auto
  then have "(16 :: nat) dvd unat (st + 4096)" by (rule dvd_trans [rotated]) simp
  then show ?thesis by (simp add: fresh_context_def)
qed

text \<open>A whole task list is built and started.\<close>

text \<open>The pages of \<open>n\<close> new tasks, from \<open>p\<close> on: the task and its stack.\<close>

definition spawned :: "u64 \<Rightarrow> nat \<Rightarrow> layout" where
  "spawned p n = map (\<lambda>i. (p + of_nat (8192 * i), p + of_nat (8192 * i) + 4096)) [0..<n]"

lemma spawned_unat:
  assumes "unat p + 8192 * n < 2 ^ 64"
  shows "unat (p + of_nat (8192 * n) :: u64) = unat p + 8192 * n"
proof -
  have "unat (of_nat (8192 * n) :: u64) = 8192 * n" using assms by (simp only: unat_of_nat) simp
  then show ?thesis using assms by (simp only: unat_word_ariths) simp
qed

lemma spawned_nth: "i < n \<Longrightarrow> spawned p n ! i = (p + of_nat (8192 * i), p + of_nat (8192 * i) + 4096)"
  by (simp add: spawned_def)

lemma spawned_simps [simp]: "length (spawned p n) = n" "spawned p 0 = []"
  "map fst (spawned p n) = map (\<lambda>i. p + of_nat (8192 * i)) [0..<n]"
  by (simp_all add: spawned_def)

lemma spawned_Suc: "spawned p (Suc n) = spawned p n @ [(p + of_nat (8192 * n), p + of_nat (8192 * n) + 4096)]"
  by (simp add: spawned_def)

lemma spawn_all:
  fixes s :: "'a sched_scheme"
  defines "p \<equiv> next_free_page s"
  assumes "sched_ok [] s" and "unat p + 8192 * length es < 2 ^ 64"
  shows "sched_ok (spawned p (length es)) (fold spawn es s) \<and> cpu (fold spawn es s) = cpu s \<and>
    next_free_page (fold spawn es s) = p + of_nat (8192 * length es) \<and>
    (\<forall>i < length es. saved (fold spawn es s) (fst (spawned p (length es) ! i)) =
       fresh_context (snd (spawned p (length es) ! i)) (es ! i))"
  using assms(3)
proof (induction es rule: rev_induct)
  case Nil
  then show ?case using assms(2) by (simp add: p_def)
next
  case (snoc e es)
  let ?s = "fold spawn es s" and ?n = "length es"
  let ?l = "spawned p ?n" and ?q = "p + of_nat (8192 * ?n)"
  have ih: "sched_ok ?l ?s" "next_free_page ?s = ?q" "cpu ?s = cpu s"
    "\<And>i. i < ?n \<Longrightarrow> saved ?s (fst (?l ! i)) = fresh_context (snd (?l ! i)) (es ! i)"
    using snoc by simp_all
  have "unat (next_free_page ?s) + 8192 < 2 ^ 64"
    unfolding ih(2) using spawned_unat [of p ?n] snoc.prems by simp
  note sp = spawn_ok [where e = e, OF ih(1) this, unfolded ih(2)]
  have "saved (spawn e ?s) (fst (spawned p (Suc ?n) ! i)) = fresh_context (snd (spawned p (Suc ?n) ! i)) ((es @ [e]) ! i)"
    if "i < Suc ?n" for i
  proof (cases "i = ?n")
    case True
    then show ?thesis using sp(2) by (simp add: spawned_nth)
  next
    case False
    then have i: "i < ?n" using that by simp
    then have "(fst (?l ! i), snd (?l ! i)) \<in> set ?l" by simp
    from sp(3) [OF this] ih(4) [OF i] show ?thesis using i by (simp add: spawned_Suc nth_append)
  qed
  moreover have "?q + 8192 = p + of_nat (8192 * Suc ?n)" by (simp add: algebra_simps)
  ultimately show ?case using sp(1,4,5) ih(3) by (simp add: spawned_Suc)
qed

lemma spawned_outside:
  assumes "layout_ok (spawned p n)" and "unat p + 8192 * n < 2 ^ 64" and "unat a < unat p \<or> unat p + 8192 * n \<le> unat a"
  shows "outside (spawned p n) a"
proof -
  have "a \<noteq> r + of_nat k" if r: "page r" "unat p \<le> unat r" "unat r + 4096 \<le> unat p + 8192 * n" "k < 4096" for r k
    using page_offset [OF r(1,4)] r(2-4) assms(3) by auto
  moreover have "page x \<and> page y \<and> unat p \<le> unat x \<and> unat p \<le> unat y \<and>
      unat x + 4096 \<le> unat p + 8192 * n \<and> unat y + 4096 \<le> unat p + 8192 * n" if xy: "(x, y) \<in> set (spawned p n)" for x y
  proof -
    from xy obtain i where i: "i < n" "x = p + of_nat (8192 * i)" "y = x + 4096" by (auto simp: spawned_def)
    have le: "8192 * Suc i \<le> 8192 * n" using i(1) by (intro mult_le_mono2) simp
    then have "unat x = unat p + 8192 * i" unfolding i(2) using assms(2) by (intro spawned_unat) simp
    moreover from this have "unat y = unat x + 4096" unfolding i(3) using assms(2) le by (simp add: unat_word_ariths)
    ultimately show ?thesis using layout_okD(1,2) [OF assms(1) xy xy] le by simp
  qed
  ultimately show ?thesis unfolding outside_def by blast
qed

lemma start_tasks:
  assumes "sched_ok [] s" and "es \<noteq> []" and "unat (next_free_page s) + 8192 * length es < 2 ^ 64"
    and "\<forall>a \<in> {boot, boot + 8, rsp (cpu s) - 8, rsp (cpu s) - 16, rsp (cpu s) - 24, rsp (cpu s) - 32,
      rsp (cpu s) - 40, rsp (cpu s) - 48}.
      unat a < unat (next_free_page s) \<or> unat (next_free_page s) + 8192 * length es \<le> unat a"
  shows "\<exists>l. map fst l = map (\<lambda>i. next_free_page s + of_nat (8192 * i)) [0..<length es] \<and>
    sched_inv l (sched_start boot (fold spawn es s)) \<and>
    current_task (sched_start boot (fold spawn es s)) = fst (l ! 0) \<and>
    cpu (sched_start boot (fold spawn es s)) = fresh_context (snd (l ! 0)) (es ! 0) \<and>
    (\<forall>i < length es. saved (sched_start boot (fold spawn es s)) (fst (l ! i)) = fresh_context (snd (l ! i)) (es ! i))"
proof -
  let ?l = "spawned (next_free_page s) (length es)" and ?u = "fold spawn es s"
  let ?t = "sched_start boot ?u"
  have u: "sched_ok ?l ?u" "cpu ?u = cpu s"
    "\<And>i. i < length es \<Longrightarrow> saved ?u (fst (?l ! i)) = fresh_context (snd (?l ! i)) (es ! i)"
    using spawn_all [OF assms(1,3)] by simp_all
  have out: "outside ?l a"
    if "unat a < unat (next_free_page s) \<or> unat (next_free_page s) + 8192 * length es \<le> unat a" for a
    using u(1) assms(3) that by (intro spawned_outside) (simp_all add: sched_ok_def)
  have ne: "?l \<noteq> []" using assms(2) by (metis length_0_conv spawned_simps(1))
  have t: "sched_inv ?l ?t" "current_task ?t = fst (?l ! 0)" "cpu ?t = saved ?u (fst (?l ! 0))"
    "\<forall>(t, st) \<in> set ?l. saved ?t t = saved ?u t"
    using start_effect [OF u(1) ne, of boot] assms(4) u(2) out by simp_all
  have "saved ?t (fst (?l ! i)) = fresh_context (snd (?l ! i)) (es ! i)" if i: "i < length es" for i
    using bspec [OF t(4) nth_mem [of i ?l]] u(3) [OF i] i by (simp add: case_prod_beta)
  then show ?thesis
    using t(1-3) u(3) [of 0] assms(2) by (intro exI [of _ ?l]) simp
qed

section \<open>Properties\<close>

text \<open>Three tasks with pages at \<open>0x20000\<close>, on a machine whose memory is empty.\<close>

definition idle_memory :: sched where
  "idle_memory = \<lparr>next_free_page = 0x20000, cells = \<lambda>a. 0, task_list_head = 0, task_list_tail = 0,
     current_task = 0, cpu = \<lparr>rsp = 0, rbp = 0, rbx = 0, r12 = 0, r13 = 0, r14 = 0, r15 = 0, rip = 0\<rparr>\<rparr>"

definition two_tasks :: sched where
  "two_tasks = (spawn 0x2000 (spawn 0x1000 idle_memory))"

definition two_layout :: layout where
  "two_layout = [(0x20000, 0x21000), (0x22000, 0x23000)]"

lemma idle_memory_ok: "sched_ok [] idle_memory"
  by (simp add: sched_ok_def layout_ok_def queues_def idle_memory_def page_def)

lemma two_tasks_ok: "sched_ok two_layout two_tasks" "saved two_tasks 0x22000 = fresh_context 0x23000 0x2000"
  "saved two_tasks 0x20000 = fresh_context 0x21000 0x1000"
proof -
  have n: "next_free_page idle_memory = 0x20000" by (simp add: idle_memory_def)
  have b: "unat (next_free_page idle_memory) + 8192 < 2 ^ 64" by (simp add: n)
  note one = spawn_ok [where e = "0x1000", OF idle_memory_ok b, unfolded n]
  have n1: "next_free_page (spawn 0x1000 idle_memory) = 0x22000" using one(5) by simp
  have b1: "unat (next_free_page (spawn 0x1000 idle_memory)) + 8192 < 2 ^ 64" by (simp add: n1)
  note two = spawn_ok [where e = "0x2000", OF one(1) b1, unfolded n1]
  show "sched_ok two_layout two_tasks" using two(1) by (simp add: two_layout_def two_tasks_def)
  show "saved two_tasks 0x22000 = fresh_context 0x23000 0x2000" using two(2) by (simp add: two_tasks_def)
  show "saved two_tasks 0x20000 = fresh_context 0x21000 0x1000"
    using two(3) [of "0x20000" "0x21000"] one(2) by (simp add: two_tasks_def)
qed

definition running :: sched where
  "running = two_tasks\<lparr>current_task := 0x20000, cpu := fresh_context 0x21000 0x1000\<rparr>"

lemma running_inv: "sched_inv two_layout running" "current_task running = fst (two_layout ! 0)"
proof -
  have "queues (map fst two_layout) running = queues (map fst two_layout) two_tasks"
    by (simp add: queues_def running_def task_next_def fifo_def cong: chain_cong)
  moreover have "suspended two_layout running t st = suspended two_layout two_tasks t st" for t st
    by (simp add: suspended_def task_sp_def running_def)
  ultimately show "sched_inv two_layout running"
    using two_tasks_ok(1) by (auto simp: sched_inv_def sched_ok_def running_def two_layout_def)
  show "current_task running = fst (two_layout ! 0)" by (simp add: running_def two_layout_def)
qed

text \<open>C14. Round robin: however the tasks use their registers and their own stacks, after \<open>k\<close> turns the
  task \<open>k\<close> places further in the queue runs, cyclically, and queue, layout and saved contexts
  are intact. So with \<open>n\<close> tasks each runs exactly once in every \<open>n\<close> turns.\<close>

theorem round_robin:
  assumes "sched_inv l s" and "current_task s = fst (l ! i)" and "i < length l" and "(task_turn l ^^ k) s t"
  shows "sched_inv l t \<and> current_task t = fst (l ! ((i + k) mod length l))"
  using turns_effect [OF assms(4,1,2,3)] by simp

lemma running_turn: "task_turn two_layout running (sched_yield (running\<lparr>cpu := (cpu running)\<lparr>rsp := 0x21FF8\<rparr>\<rparr>))"
proof (rule turn)
  have "in_stack 0x21000 48 4088 0x21FF8" unfolding in_stack_def by (rule exI [of _ 4088]) simp
  then show "runs two_layout running (running\<lparr>cpu := (cpu running)\<lparr>rsp := 0x21FF8\<rparr>\<rparr>)"
    by (auto simp: runs_def running_def two_layout_def)
qed

theorem round_robin_witness:
  "current_task (sched_yield (running\<lparr>cpu := (cpu running)\<lparr>rsp := 0x21FF8\<rparr>\<rparr>)) = 0x22000"
proof -
  have "(task_turn two_layout ^^ 1) running (sched_yield (running\<lparr>cpu := (cpu running)\<lparr>rsp := 0x21FF8\<rparr>\<rparr>))"
    by (simp only: relpowp_1 running_turn)
  from round_robin [OF running_inv _ this] show ?thesis by (simp add: two_layout_def)
qed

text \<open>What \<open>sched_yield\<close> leaves behind of its caller: a suspended task whose context is that of the return,
  and its stack from the return address up.\<close>

lemma yield_effect:
  assumes "sched_inv l s" and "runs l s u" and "current_task s = fst (l ! p)" and "p < length l"
  shows "suspended l (sched_yield u) (fst (l ! p)) (snd (l ! p))" "saved (sched_yield u) (fst (l ! p)) = returning u"
    and "length l = 1 \<Longrightarrow> cpu (sched_yield u) = returning u"
    and "\<lbrakk>rsp (cpu u) = snd (l ! p) + of_nat off; off \<le> k; k < 4096\<rbrakk> \<Longrightarrow>
      cells (sched_yield u) (snd (l ! p) + of_nat k) = cells u (snd (l ! p) + of_nat k)"
proof -
  let ?c = "fst (l ! p)" and ?sc = "snd (l ! p)" and ?q = "Suc p mod length l"
  note r = runs_keeps [OF assms(1,2)]
  note ui = sched_invD [OF r(1)]
  have cu: "current_task u = ?c" using r(3) assms(3) by simp
  have sc: "(?c, ?sc) \<in> set l" using nth_mem [OF assms(4)] by simp
  have o: "in_stack ?sc 48 4088 (rsp (cpu u))" using r(4) cu layout_okD(5) [OF ui(1) sc] by auto
  have q: "?q < length l" using mod_less_divisor [of "length l" "Suc p"] assms(4) by linarith
  have nx: "next_task u = fst (l ! ?q)" using next_task_eq [OF ui(2), of p] assms(4) cu q by simp
  have nm: "(next_task u, snd (l ! ?q)) \<in> set l" using nth_mem [OF q] nx by (metis prod.collapse)
  have "next_task u \<noteq> ?c \<longrightarrow> suspended l u (next_task u) (snd (l ! ?q))" using ui(3) [OF nm] cu by simp
  note w = switch_effect [OF ui(1) sc cu o nm this, folded sched_yield_def]
  show "suspended l (sched_yield u) ?c ?sc" "saved (sched_yield u) ?c = returning u" using w(3,4) by simp_all
  show "cpu (sched_yield u) = returning u" if "length l = 1" using w(2) nx that assms(4) by simp
  show "cells (sched_yield u) (?sc + of_nat k) = cells u (?sc + of_nat k)"
    if off: "rsp (cpu u) = ?sc + of_nat off" "off \<le> k" "k < 4096"
  proof -
    obtain off' where o': "rsp (cpu u) = ?sc + of_nat off'" "48 \<le> off'" "off' \<le> 4088"
      using o by (auto simp: in_stack_def)
    have "off < 4096" using off by simp
    then have "off' = off"
      using page_eq_iff [OF layout_okD(2,2) [OF ui(1) sc sc], of off' off] off(1) o' ui(1) sc layout_okD(2) by auto
    then show ?thesis
      using suspend_stack [OF ui(1) sc cu off(1) _ off(2,3)] o'(2) by (simp add: sched_yield_def context_switch_eq)
  qed
qed

text \<open>The turns of all the others bring a suspended task back.\<close>

lemma turns_around:
  assumes "sched_inv l v" and "current_task v = fst (l ! (Suc p mod length l))" and "p < length l" and "length l = Suc (Suc k)"
    and "(task_turn l ^^ Suc k) v t" and "suspended l v (fst (l ! p)) (snd (l ! p))"
  shows "current_task t = fst (l ! p) \<and> cpu t = saved v (fst (l ! p)) \<and> keeps_task v t (l ! p)"
proof -
  let ?n = "length l" and ?q = "Suc p mod length l" and ?c = "fst (l ! p)"
  obtain x where x: "(task_turn l ^^ k) v x" "task_turn l x t" using assms(5) by auto
  have other: "(?q + m) mod ?n \<noteq> p" if "m \<le> k" for m
  proof -
    have "(?q + m) mod ?n = (p + Suc m) mod ?n" by (simp add: mod_simps)
    also have "\<dots> \<noteq> (p + 0) mod ?n" using mod_add_neq [of 0 "Suc m" ?n p] that assms(4) by simp
    finally show ?thesis using assms(3) by simp
  qed
  have q: "?q < ?n" using assms(4) by simp
  note f = turns_effect [OF x(1) assms(1,2) q]
  let ?y = "(?q + k) mod ?n"
  have y: "?y < ?n" using assms(4) by simp
  have "Suc ?y mod ?n = (p + ?n) mod ?n" using assms(4) by (simp add: mod_simps)
  then have yp: "Suc ?y mod ?n = p" using assms(3) by simp
  have kv: "keeps_task v x (l ! p)" using f assms(3) other by (metis less_imp_le_nat)
  have cx: "current_task x = fst (l ! ?y)" "sched_inv l x" using f by simp_all
  note g = turn_effect [OF cx(2,1) y x(2)]
  have "distinct (map fst l)" using sched_invD(1) [OF assms(1)] by (simp add: layout_ok_def)
  then have ne: "?c \<noteq> current_task x"
    using nth_eq_iff_index_eq [of "map fst l" p ?y] y assms(3) other [of k] cx(1) by auto
  have lp: "l ! p = (?c, snd (l ! p))" "(?c, snd (l ! p)) \<in> set l" using nth_mem [OF assms(3)] by simp_all
  have "cpu t = saved x ?c" using g(4) yp ne by simp
  moreover have "saved x ?c = saved v ?c" using keeps_task_suspended(2) [OF _ assms(6)] kv lp(1) by simp
  moreover have "keeps_task v t (l ! p)" using keeps_task_trans [OF kv] g(3) [OF lp(2) ne] lp(1) by simp
  ultimately show ?thesis using g(2) yp by simp
qed

text \<open>C5. For the task that calls it, \<open>sched_yield\<close> is a call that returns: when each of the other
  tasks has had its turn, the same task runs again at its return address, with its stack pointer
  and all the registers the calling convention preserves as they were, and with the contents of
  its stack from the return address up unchanged, whatever the others did.\<close>

theorem yield_returns:
  assumes "sched_inv l s" and "runs l s u" and "(task_turn l ^^ (length l - 1)) (sched_yield u) t"
  shows "current_task t = current_task s \<and> cpu t = returning u \<and>
    (\<forall>st off k. (current_task s, st) \<in> set l \<longrightarrow> rsp (cpu u) = st + of_nat off \<longrightarrow> off \<le> k \<longrightarrow> k < 4096 \<longrightarrow>
      cells t (st + of_nat k) = cells u (st + of_nat k))"
proof -
  let ?v = "sched_yield u"
  obtain p where p: "p < length l" "current_task s = fst (l ! p)"
    using runs_keeps(3,4) [OF assms(1,2)] by (auto simp: in_set_conv_nth)
  note y = yield_effect [OF assms(1,2) p(2,1)] and e = turn_effect [OF assms(1) p(2,1) turn [OF assms(2)]]
  have home: "current_task t = fst (l ! p) \<and> cpu t = returning u \<and> keeps_task ?v t (l ! p)"
  proof (cases "length l - 1")
    case 0
    then have "length l = 1" "p = 0" using p(1) by simp_all
    then show ?thesis using assms(3) y(3) e(2) by (simp add: keeps_task_refl)
  next
    case (Suc k)
    then have "length l = Suc (Suc k)" by simp
    then show ?thesis using turns_around [OF e(1,2) p(1) _ _ y(1)] assms(3) y(2) by simp
  qed
  have "st = snd (l ! p)" if "(fst (l ! p), st) \<in> set l" for st
    using layout_okD(5) [OF sched_invD(1) [OF assms(1)] that, of "fst (l ! p)" "snd (l ! p)"] nth_mem [OF p(1)] by simp
  then show ?thesis using home y(4) p(2) by (cases "l ! p") (auto simp: keeps_task_def)
qed

theorem yield_returns_witness:
  "\<exists>t :: sched. cpu t = returning (running\<lparr>cpu := (cpu running)\<lparr>rsp := 0x21FF8\<rparr>\<rparr>) \<and> current_task t = 0x20000"
proof -
  let ?u = "running\<lparr>cpu := (cpu running)\<lparr>rsp := 0x21FF8\<rparr>\<rparr>"
  have r: "runs two_layout running ?u"
  proof -
    have "in_stack 0x21000 48 4088 0x21FF8" unfolding in_stack_def by (rule exI [of _ 4088]) simp
    then show ?thesis by (auto simp: runs_def running_def two_layout_def)
  qed
  have t1: "(task_turn two_layout ^^ 1) running (sched_yield ?u)" by (simp only: relpowp_1 turn [OF r])
  have v: "sched_inv two_layout (sched_yield ?u)" "current_task (sched_yield ?u) = 0x22000"
    using round_robin [OF running_inv _ t1] by (simp_all add: two_layout_def)
  let ?w = "(sched_yield ?u)\<lparr>cpu := (cpu running)\<lparr>rsp := 0x23FF8\<rparr>\<rparr>"
  have "in_stack 0x23000 48 4088 0x23FF8" unfolding in_stack_def by (rule exI [of _ 4088]) simp
  then have "runs two_layout (sched_yield ?u) ?w"
    using v(2) by (auto simp: runs_def two_layout_def)
  then have "(task_turn two_layout ^^ 1) (sched_yield ?u) (sched_yield ?w)" by (simp only: relpowp_1 turn)
  moreover have "length two_layout - 1 = 1" by (simp add: two_layout_def)
  ultimately have "(task_turn two_layout ^^ (length two_layout - 1)) (sched_yield ?u) (sched_yield ?w)" by (simp only:)
  from yield_returns [OF running_inv(1) r this] show ?thesis
    by (intro exI [of _ "sched_yield ?w"]) (simp add: running_def)
qed

text \<open>Creating tasks and starting them: with room for the two pages of each task, after
  \<open>sched_create_task\<close> and \<open>sched_add_task\<close> for each of a list of entry points, \<open>sched_start\<close> enters
  the first of them with an empty stack and zeroed registers, the others wait in the queue, in
  order, to be entered the same way, and no two tasks share a page.\<close>

theorem tasks_start:
  assumes "sched_ok [] s" and "es \<noteq> []" and "unat (next_free_page s) + 8192 * length es < 2 ^ 64"
    and "\<forall>a \<in> {boot, boot + 8, rsp (cpu s) - 8, rsp (cpu s) - 16, rsp (cpu s) - 24, rsp (cpu s) - 32,
      rsp (cpu s) - 40, rsp (cpu s) - 48}.
      unat a < unat (next_free_page s) \<or> unat (next_free_page s) + 8192 * length es \<le> unat a"
  shows "\<exists>l. map fst l = map (\<lambda>i. next_free_page s + of_nat (8192 * i)) [0..<length es] \<and>
    sched_inv l (sched_start boot (fold spawn es s)) \<and>
    current_task (sched_start boot (fold spawn es s)) = fst (l ! 0) \<and>
    cpu (sched_start boot (fold spawn es s)) = fresh_context (snd (l ! 0)) (es ! 0) \<and>
    (\<forall>i < length es. saved (sched_start boot (fold spawn es s)) (fst (l ! i)) = fresh_context (snd (l ! i)) (es ! i))"
  by (rule start_tasks [OF assms])

theorem tasks_start_witness:
  "\<exists>l. map fst l = [0x20000, 0x22000] \<and>
    sched_inv l (sched_start 0x10000 (spawn 0x2000 (spawn 0x1000 (idle_memory\<lparr>cpu := (cpu idle_memory)\<lparr>rsp := 0x90000\<rparr>\<rparr>))))"
proof -
  let ?s = "idle_memory\<lparr>cpu := (cpu idle_memory)\<lparr>rsp := 0x90000\<rparr>\<rparr>"
  have n: "next_free_page ?s = 0x20000" and c: "rsp (cpu ?s) = 0x90000" by (simp_all add: idle_memory_def)
  have "sched_ok [] ?s" by (simp add: sched_ok_def layout_ok_def queues_def idle_memory_def page_def)
  moreover have "[0x1000, 0x2000] \<noteq> ([] :: u64 list)" by simp
  moreover have "unat (next_free_page ?s) + 8192 * length [0x1000, 0x2000 :: u64] < 2 ^ 64" unfolding n by simp
  moreover have "\<forall>a \<in> {0x10000, 0x10000 + 8, rsp (cpu ?s) - 8, rsp (cpu ?s) - 16, rsp (cpu ?s) - 24, rsp (cpu ?s) - 32,
      rsp (cpu ?s) - 40, rsp (cpu ?s) - 48}. unat a < unat (next_free_page ?s) \<or>
      unat (next_free_page ?s) + 8192 * length [0x1000, 0x2000 :: u64] \<le> unat a" unfolding n c by simp
  ultimately have "\<exists>l. map fst l = map (\<lambda>i. next_free_page ?s + of_nat (8192 * i)) [0..<length [0x1000, 0x2000 :: u64]] \<and>
    sched_inv l (sched_start 0x10000 (fold spawn [0x1000, 0x2000] ?s))"
    using tasks_start [of ?s "[0x1000, 0x2000]" "0x10000"] by blast
  then show ?thesis unfolding n by (simp add: upt_rec)
qed

end
