(* ===== verification/Kernel.thy ===== *)
theory Kernel
  imports Gui File_System Driver Sched
begin

text \<open>
  \<open>src/kernel/init.c\<close>, \<open>src/kernel/main.c\<close> and the registration of the keyboard driver: the whole
  kernel. Its state joins the states of the components; \<open>kernel_init\<close> runs their
  initialisers in order, \<open>kmain\<close> creates the three tasks and starts them, and \<open>kernel_step\<close> is one
  turn of the task that runs. The lemmas carry the invariants of the components through boot
  and show that they hold in every reachable state.
\<close>

section \<open>State and operations\<close>

record kernel = gui +
  kfs :: fs
  kdrivers :: drivers
  ksched :: sched

text \<open>\<open>kbd\<close> is the address of the static \<open>kbd_driver\<close>, whose \<open>init\<close> does nothing.\<close>

definition keyboard_init :: "'s \<Rightarrow> 's option" where
  "keyboard_init s = Some s"

definition kbd_driver :: "nat \<Rightarrow> drivers init_fun" where
  "kbd_driver kbd = (\<lambda>d. if d = kbd then Some keyboard_init else None)"

definition keyboard_register :: "nat \<Rightarrow> 'a kernel_scheme \<Rightarrow> 'a kernel_scheme" where
  "keyboard_register kbd s = s\<lparr>kdrivers := driver_register kbd (kdrivers s)\<rparr>"

definition syscall_init :: "'s \<Rightarrow> 's" where
  "syscall_init s = s"

definition kernel_init :: "hardware \<Rightarrow> nat \<Rightarrow> 'a kernel_scheme \<Rightarrow> 'a kernel_scheme option" where
  "kernel_init hw kbd s = do {
     let s = s\<lparr>ksched := mm_init hw (ksched s)\<rparr>;
     s \<leftarrow> console_init s;
     s \<leftarrow> pane_init hw s;
     s \<leftarrow> gui_init hw s;
     f \<leftarrow> fs_init (kfs s);
     let s = s\<lparr>kfs := f\<rparr>;
     s \<leftarrow> inventory_gather hw s;
     s \<leftarrow> acpi_init hw s;
     s \<leftarrow> console_write hw (c_lit ''LifeOS initialized\<newline>'') s;
     s \<leftarrow> shell_show_prompt hw s;
     let s = s\<lparr>ksched := sched_init (ksched s)\<rparr>;
     let s = keyboard_register kbd s;
     d \<leftarrow> driver_init_all (kbd_driver kbd) (kdrivers s);
     let s = s\<lparr>kdrivers := d\<rparr>;
     Some (syscall_init s) }"

text \<open>The three tasks: their code addresses are those of \<open>idle_task\<close>, \<open>shell_task\<close> and \<open>gui_task\<close>.\<close>

datatype task = Idle | Shell_task | Gui_task

definition task_list :: "task list" where
  "task_list = [Idle, Shell_task, Gui_task]"

text \<open>Every task is in the list, once: the list enumerates the type.\<close>

instantiation task :: enum
begin

definition "enum_task = task_list"

definition "enum_all_task P = list_all P task_list"

definition "enum_ex_task P = list_ex P task_list"

instance
proof
  show U: "(UNIV :: task set) = set enum_class.enum"
    using task.exhaust by (auto simp: enum_task_def task_list_def)
  show "distinct (enum_class.enum :: task list)" by (simp add: enum_task_def task_list_def)
  show "enum_class.enum_all P = Ball (UNIV :: task set) P" for P
    by (simp add: U enum_all_task_def enum_task_def list_all_iff)
  show "enum_class.enum_ex P = Bex (UNIV :: task set) P" for P
    by (simp add: U enum_ex_task_def enum_task_def list_ex_iff)
qed

end

lemma task_place: "\<exists>i < length task_list. task_list ! i = k"
  using UNIV_I [of k] unfolding UNIV_enum enum_task_def by (simp add: in_set_conv_nth)

definition kmain :: "hardware \<Rightarrow> nat \<Rightarrow> (task \<Rightarrow> u64) \<Rightarrow> u64 \<Rightarrow> 'a kernel_scheme \<Rightarrow> 'a kernel_scheme option" where
  "kmain hw kbd code boot s = do {
     s \<leftarrow> kernel_init hw kbd s;
     let (idle, k) = sched_create_task (code Idle) (ksched s);
     let k = sched_add_task idle k;
     let (shell, k) = sched_create_task (code Shell_task) k;
     let k = sched_add_task shell k;
     let (gui, k) = sched_create_task (code Gui_task) k;
     let k = sched_add_task gui k;
     Some (s\<lparr>ksched := sched_start boot k\<rparr>) }"

text \<open>One round of the loop of a task, up to its \<open>sched_yield\<close>.\<close>

fun task_round :: "hardware \<Rightarrow> task \<Rightarrow> 'a kernel_scheme \<Rightarrow> 'a kernel_scheme control option" where
  "task_round hw Idle s = Some (Continue s)"
| "task_round hw Shell_task s = shell_round hw s"
| "task_round hw Gui_task s = continue (gui_round hw s)"

section \<open>Stages of the boot\<close>

text \<open>What the initialisers above the console rely on and keep: the static data of shell, panes,
  queue, inventory and ACPI in shape, and no key waiting.\<close>

definition boot_ok :: "'a acpi_scheme \<Rightarrow> bool" where
  "boot_ok s \<longleftrightarrow> shell_base s \<and> pane_ok s \<and> input_inv s \<and> input_queue s = [] \<and> inventory_shape s \<and>
     pci_devices s < 2 ^ 32 \<and> length (acpi_tables s) = 16 \<and> acpi_table_count s \<le> 16 \<and>
     history_slots s = [] \<and> history_nav s = -1 \<and> \<not> have_e0 s"

lemma boot_ok_keep:
  fixes s t :: "'a acpi_scheme"
  assumes "console.more t = console.more s" and "con_keep t = con_keep s"
  shows "boot_ok t = boot_ok s"
  using shell_fields [OF assms(1)] pane_fields [OF assms(1)] inventory_fields [OF assms(1)] acpi_fields [OF assms(1)]
    input_inv_keep [OF assms(2)] assms(2)
  by (simp add: boot_ok_def shell_base_def history_inv_def pane_ok_def inventory_shape_def input_queue_def con_keep_def
    history_slots_def)

text \<open>The window depends on nothing below the framebuffer.\<close>

lemma gui_fields:
  fixes s t :: "'a gui_scheme"
  assumes "acpi.more t = acpi.more s"
  shows "gui_shows t = gui_shows s" "gui_text t = gui_text s" "gui.more t = gui.more s" "gui_buf t = gui_buf s"
    "gui_len t = gui_len s"
proof -
  have f: "fb t = fb s" "fb_width t = fb_width s" "fb_height t = fb_height s" "fb_pitch t = fb_pitch s"
    "vram t = vram s" "gui_buf t = gui_buf s" "gui_len t = gui_len s" "gui.more t = gui.more s"
    using assms by (cases s; cases t; simp)+
  then show "gui.more t = gui.more s" "gui_buf t = gui_buf s" "gui_len t = gui_len s" by simp_all
  show x: "gui_text t = gui_text s" using f by (simp add: gui_text_def)
  have "picture t = picture s" using f by (simp add: picture_def fun_eq_iff)
  then show "gui_shows t = gui_shows s" using f x by (simp add: gui_shows_def gui_inv_def fb_inv_def)
qed

text \<open>The console depends on nothing above it.\<close>

lemma drawn_fields:
  fixes s t :: "'a gui_scheme"
  assumes "gui_frame (fb_init s) t"
  shows "con_inv t = con_inv s" "con_term t = con_term s" "con_keep t = con_keep s" "boot_ok t = boot_ok s"
    "gui.more t = gui.more s" "vga_color t = vga_color s" "session_of t = session_of s"
proof -
  obtain m b n where t: "t = (fb_init s)\<lparr>vram := m, gui_buf := b, gui_len := n\<rparr>" using gui_frameD [OF assms] .
  show "con_inv t = con_inv s" "con_term t = con_term s" "con_keep t = con_keep s" "boot_ok t = boot_ok s"
    "gui.more t = gui.more s" "vga_color t = vga_color s" "session_of t = session_of s"
    unfolding t by (simp_all add: fb_init_def con_inv_def con_shape_def mirrored_def con_term_def con_keep_def boot_ok_def
      shell_base_def history_inv_def pane_ok_def input_inv_def input_queue_def inventory_shape_def session_of_def
      line_def history_slots_def sb_lines_def)
qed

text \<open>Console, panes and window.\<close>

definition window_up :: "'a gui_scheme \<Rightarrow> bool" where
  "window_up s \<longleftrightarrow> con_inv s \<and> boot_ok s \<and> gui_shows s \<and> gui_text s = []"

lemma early_wp:
  fixes s :: "'a gui_scheme"
  assumes "con_shape s" and "boot_ok s" and "length (gui_buf s) = 128" and "gui_len s = 0"
    and "uart_ready hw" and "fb_mapped hw"
  shows "wp (do { s \<leftarrow> console_init s; s \<leftarrow> pane_init hw s; gui_init hw s }) (\<lambda>t. window_up t \<and>
    gui.more t = gui.more s \<and> con_keep t = con_keep s \<and> con_term t = canvas (grid_cell (vga_color s) {} {}) 1 1)"
proof (rule wp_seq [OF console_init_wp [OF assms(1)]])
  fix s1 :: "'a gui_scheme"
  assume s1: "con_inv s1 \<and> con_term s1 = term_blank (vga_color s) (con_term s) \<and> con_frame s1 = con_frame s \<and> sb_view s1 = 0"
  then have m1: "console.more s1 = console.more s" "con_keep s1 = con_keep s" "vga_color s1 = vga_color s"
    by (simp_all add: con_frame_def con_keep_def)
  have sh: "con_shape s1" using s1 by (simp add: con_inv_def)
  show "wp (do { s \<leftarrow> pane_init hw s1; gui_init hw s }) (\<lambda>t. window_up t \<and> gui.more t = gui.more s \<and>
      con_keep t = con_keep s \<and> con_term t = canvas (grid_cell (vga_color s) {} {}) 1 1)"
  proof (rule wp_seq [OF pane_init_wp [OF sh assms(5)]])
    fix s2 :: "'a gui_scheme"
    let ?s1 = "s1\<lparr>grid_w := 1, grid_h := 1, active_x := 0, active_y := 0\<rparr>"
    assume s2: "con_inv s2 \<and> con_keep s2 = con_keep s1 \<and> console.more s2 = console.more ?s1 \<and>
      con_term s2 = canvas (grid_cell (vga_color s1) {} {}) 1 1"
    have "boot_ok s1" using boot_ok_keep [OF m1(1,2)] assms(2) by simp
    then have "boot_ok ?s1" by (simp add: boot_ok_def shell_base_def history_inv_def pane_ok_def input_inv_def
        input_queue_def inventory_shape_def history_slots_def)
    moreover have "con_keep ?s1 = con_keep s1" by (simp add: con_keep_def)
    ultimately have b: "boot_ok s2" using boot_ok_keep [of s2 ?s1] s2 by simp
    have "acpi.more s2 = acpi.more s" using acpi_fields(5) [of s2 ?s1] acpi_fields(5) [OF m1(1)] s2 by simp
    note g = gui_fields [OF this]
    have "length (gui_buf s2) = 128" "gui_len s2 = 0" using g assms(3,4) by simp_all
    from gui_init_wp [OF assms(6) this]
    show "wp (gui_init hw s2) (\<lambda>t. window_up t \<and> gui.more t = gui.more s \<and>
        con_keep t = con_keep s \<and> con_term t = canvas (grid_cell (vga_color s) {} {}) 1 1)"
    proof (rule wp_mono)
      fix t :: "'a gui_scheme"
      assume t: "gui_shows t \<and> gui_text t = [] \<and> gui_frame (fb_init s2) t"
      then show "window_up t \<and> gui.more t = gui.more s \<and> con_keep t = con_keep s \<and>
          con_term t = canvas (grid_cell (vga_color s) {} {}) 1 1"
        using drawn_fields [of s2 t] b s2 m1 g by (simp add: window_up_def)
    qed
  qed
qed

text \<open>Inventory, ACPI, the greeting and the prompt.\<close>

lemma scan_fields:
  fixes s t :: "'a gui_scheme"
  assumes "scan_frame (s\<lparr>cpu_cores := c, memory_bytes := m\<rparr>) t" and "inventory_shape t" and "pci_devices t < 2 ^ 32"
    and "window_up s"
  shows "window_up t" "gui.more t = gui.more s" "con_term t = con_term s" "con_keep t = con_keep s"
proof -
  obtain tr n b cl sc v d where t: "t = s\<lparr>cpu_cores := c, memory_bytes := m, trace := tr, pci_devices := n, pci_bus := b,
      pci_class := cl, pci_subclass := sc, pci_vendor := v, pci_device := d\<rparr>"
    using assms(1) unfolding scan_frame_def by blast
  show "gui.more t = gui.more s" "con_term t = con_term s" "con_keep t = con_keep s"
    by (simp_all add: t con_term_def con_keep_def sb_lines_def)
  have "con_inv t = con_inv s" "shell_base t = shell_base s" "pane_ok t = pane_ok s" "input_inv t = input_inv s"
    "input_queue t = input_queue s" "acpi_tables t = acpi_tables s" "acpi_table_count t = acpi_table_count s"
    "history_slots t = history_slots s" "history_nav t = history_nav s" "have_e0 t = have_e0 s" "acpi.more t = acpi.more s"
    by (simp_all add: t con_inv_def con_shape_def mirrored_def shell_base_def history_inv_def pane_ok_def input_inv_def
      input_queue_def history_slots_def)
  then show "window_up t"
    using assms(2-4) gui_fields [of t s] by (simp add: window_up_def boot_ok_def)
qed

lemma acpi_frame_fields:
  fixes s t :: "'a gui_scheme"
  assumes "acpi_frame s t" and "acpi_ready hw s t" and "window_up s"
  shows "window_up t" "gui.more t = gui.more s" "con_keep t = con_keep s"
    "\<exists>str. con_term t = term_write (vga_color s) str (con_term s)"
proof -
  let ?u = "s\<lparr>fadt_data := fadt_data t, fadt_table := fadt_table t, acpi_tables := acpi_tables t,
    acpi_table_count := acpi_table_count t\<rparr>"
  have m: "console.more t = console.more ?u" and k: "con_keep t = con_keep s" and i: "con_inv t"
    using assms(1) by (simp_all add: acpi_frame_def talks_def)
  show "con_keep t = con_keep s" by (rule k)
  show "\<exists>str. con_term t = term_write (vga_color s) str (con_term s)"
    using assms(1) by (simp add: acpi_frame_def talks_def)
  have "acpi.more t = acpi.more s" using acpi_fields(5) [OF m] by simp
  note g = gui_fields [OF this]
  show "gui.more t = gui.more s" by (rule g)
  have "length (acpi_tables t) = 16 \<and> acpi_table_count t \<le> 16"
    using assms(2,3) by (auto simp: acpi_ready_def window_up_def boot_ok_def Let_def split: option.splits)
  then have "boot_ok ?u"
    using assms(3) by (simp add: window_up_def boot_ok_def shell_base_def history_inv_def pane_ok_def input_inv_def
      input_queue_def inventory_shape_def history_slots_def)
  moreover have "con_keep ?u = con_keep s" by (simp add: con_keep_def)
  ultimately have "boot_ok t" using boot_ok_keep [OF m] k by simp
  then show "window_up t" using i g assms(3) by (simp add: window_up_def)
qed

definition greeting :: string where
  "greeting = ''LifeOS initialized\<newline>''"

text \<open>The kernel is up: every invariant holds, no key waits, the window shows its text.\<close>

definition kernel_up :: "'a gui_scheme \<Rightarrow> bool" where
  "kernel_up s \<longleftrightarrow> system_inv s \<and> input_queue s = [] \<and> gui_shows s"

lemma prompt_up:
  fixes s :: "'a gui_scheme"
  assumes "window_up s" and "uart_ready hw"
  shows "wp (shell_show_prompt hw s) (\<lambda>t. kernel_up t \<and> gui_text t = [] \<and> \<not> have_e0 t \<and> gui.more t = gui.more s \<and>
    lists_devices cfg fs t = lists_devices cfg fs s \<and>
    session_of t = \<lparr>ses_text = [], ses_pos = 0, ses_past = [], ses_nav = -1\<rparr> \<and>
    con_term t = term_write (vga_color s) prompt (con_term s))"
proof -
  have i: "con_inv s" and b: "boot_ok s" using assms(1) by (simp_all add: window_up_def)
  show ?thesis
  proof (rule wp_mono [OF shell_show_prompt_wp [OF i assms(2)]])
    fix t :: "'a gui_scheme"
    let ?u = "s\<lparr>cmd_len := 0, cmd_pos := 0, disp_len := 0, prompt_x := cursor_x t, prompt_y := cursor_y t\<rparr>"
    assume t: "draws (term_write (vga_color s) prompt) s t \<and> console.more t = console.more ?u"
    note m = conjunct2 [OF t]
    have "boot_ok ?u" using b by (simp add: boot_ok_def shell_base_def history_inv_def pane_ok_def input_inv_def
        input_queue_def inventory_shape_def history_slots_def)
    moreover have kt: "con_keep t = con_keep s" "con_inv t" using t by (simp_all add: draws_def)
    moreover have "con_keep ?u = con_keep s" by (simp add: con_keep_def)
    ultimately have bt: "boot_ok t" using boot_ok_keep [OF m] by simp
    have "shell_inv t" by (rule after_prompt_inv [OF m kt(2)]) (use b in \<open>simp add: boot_ok_def\<close>)
    then have sys: "system_inv t" "input_queue t = []"
      using bt by (simp_all add: system_inv_def ui_inv_def pane_inv_def boot_ok_def)
    have "acpi.more t = acpi.more s" using acpi_fields(5) [OF m] by simp
    note g = gui_fields [OF this]
    have ses: "session_of t = \<lparr>ses_text = [], ses_pos = 0, ses_past = [], ses_nav = -1\<rparr>"
      using shell_fields [OF m] bt by (simp add: session_of_def line_def boot_ok_def)
    have "\<not> have_e0 t" using bt by (simp add: boot_ok_def)
    moreover have "lists_devices cfg fs t = lists_devices cfg fs s"
      using inventory_fields [OF m] by (simp add: lists_devices_def)
    ultimately show "kernel_up t \<and> gui_text t = [] \<and> \<not> have_e0 t \<and> gui.more t = gui.more s \<and>
        lists_devices cfg fs t = lists_devices cfg fs s \<and>
        session_of t = \<lparr>ses_text = [], ses_pos = 0, ses_past = [], ses_nav = -1\<rparr> \<and>
        con_term t = term_write (vga_color s) prompt (con_term s)"
      using sys g ses t assms(1) by (simp add: kernel_up_def window_up_def draws_def)
  qed
qed

lemma greet_up:
  fixes s :: "'a gui_scheme"
  assumes "window_up s" and "uart_ready hw"
  shows "wp (do { s \<leftarrow> console_write hw (c_lit greeting) s; shell_show_prompt hw s }) (\<lambda>t. kernel_up t \<and>
    gui_text t = [] \<and> \<not> have_e0 t \<and> gui.more t = gui.more s \<and> lists_devices cfg fs t = lists_devices cfg fs s \<and>
    session_of t = \<lparr>ses_text = [], ses_pos = 0, ses_past = [], ses_nav = -1\<rparr> \<and>
    con_term t = term_write (vga_color s) (greeting @ prompt) (con_term s))"
proof -
  have i: "con_inv s" and nn: "NUL \<notin> set greeting" using assms(1) by (simp_all add: window_up_def greeting_def)
  show ?thesis
  proof (rule wp_seq [OF write_lit_outputs [OF assms(2) i nn]])
    fix u :: "'a gui_scheme"
    assume u: "outputs greeting s u"
    have m: "console.more u = console.more s" by (rule outputs_more [OF u])
    have k: "con_keep u = con_keep s" using u by (simp add: outputs_def con_frame_def con_keep_def)
    note g = gui_fields [OF acpi_fields(5) [OF m]]
    have "window_up u" using outputs_inv [OF u] boot_ok_keep [OF m k] g assms(1) by (simp add: window_up_def)
    moreover have "lists_devices cfg fs u = lists_devices cfg fs s"
      using inventory_fields [OF m] by (simp add: lists_devices_def)
    ultimately show "wp (shell_show_prompt hw u) (\<lambda>t. kernel_up t \<and>
        gui_text t = [] \<and> \<not> have_e0 t \<and> gui.more t = gui.more s \<and> lists_devices cfg fs t = lists_devices cfg fs s \<and>
        session_of t = \<lparr>ses_text = [], ses_pos = 0, ses_past = [], ses_nav = -1\<rparr> \<and>
        con_term t = term_write (vga_color s) (greeting @ prompt) (con_term s))"
      using prompt_up [of u hw cfg fs] assms(2) g u con_keep_color [OF k] by (simp add: outputs_def)
  qed
qed

lemma late_wp:
  fixes s :: "'a gui_scheme"
  assumes "window_up s" and "uart_ready hw" and "pci_answers hw cfg" and "firmware_ok hw"
  shows "wp (do { s \<leftarrow> inventory_gather hw s; s \<leftarrow> acpi_init hw s; s \<leftarrow> console_write hw (c_lit greeting) s;
      shell_show_prompt hw s }) (\<lambda>t. kernel_up t \<and> gui_text t = [] \<and> \<not> have_e0 t \<and> gui.more t = gui.more s \<and>
    lists_devices cfg (devices cfg) t \<and>
    session_of t = \<lparr>ses_text = [], ses_pos = 0, ses_past = [], ses_nav = -1\<rparr> \<and>
    (\<exists>str. con_term t = term_write (vga_color s) (str @ greeting @ prompt) (con_term s)))"
    (is "wp _ ?Q")
proof -
  have inv: "inventory_shape s" using assms(1) by (simp add: window_up_def boot_ok_def)
  show ?thesis
  proof (rule wp_seq [OF inventory_gather_wp [OF assms(3) inv]])
    fix s1 :: "'a gui_scheme"
    assume s1: "inventory_shape s1 \<and> lists_devices cfg (devices cfg) s1 \<and>
      scan_frame (s\<lparr>cpu_cores := hal_cpu_core_count hw, memory_bytes := hal_memory_size\<rparr>) s1"
    have "length (devices cfg) \<le> 65536"
      using length_filter_le [of "present cfg" pci_functions] by (simp add: devices_def length_pci_functions)
    then have "pci_devices s1 < 2 ^ 32" using s1 by (simp add: lists_devices_def)
    note f1 = scan_fields [OF _ _ this assms(1)]
    have w1: "window_up s1" "gui.more s1 = gui.more s" "con_term s1 = con_term s" "con_keep s1 = con_keep s"
      using f1 s1 by blast+
    have a1: "con_inv s1" "length (acpi_tables s1) = 16" using w1(1) by (simp_all add: window_up_def boot_ok_def)
    show "wp (do { s \<leftarrow> acpi_init hw s1; s \<leftarrow> console_write hw (c_lit greeting) s; shell_show_prompt hw s }) ?Q"
    proof (rule wp_seq [OF acpi_init_wp [OF a1(1) assms(2,4) a1(2)]])
      fix s2 :: "'a gui_scheme"
      assume s2: "acpi_frame s1 s2 \<and> acpi_ready hw s1 s2"
      note f2 = acpi_frame_fields [OF conjunct1 [OF s2] conjunct2 [OF s2] w1(1)]
      obtain str where str: "con_term s2 = term_write (vga_color s1) str (con_term s1)" using f2(4) by blast
      have "lists_devices cfg (devices cfg) s2"
        using s1 s2 inventory_fields [of s2 "s1\<lparr>fadt_data := fadt_data s2, fadt_table := fadt_table s2,
          acpi_tables := acpi_tables s2, acpi_table_count := acpi_table_count s2\<rparr>"]
        by (simp add: acpi_frame_def lists_devices_def)
      moreover have "vga_color s2 = vga_color s" "vga_color s1 = vga_color s"
        using con_keep_color [OF w1(4)] con_keep_color [OF f2(3)] by simp_all
      ultimately show "wp (do { s \<leftarrow> console_write hw (c_lit greeting) s2; shell_show_prompt hw s }) ?Q"
        using w1 f2(2) str
        by (intro wp_mono [OF greet_up [OF f2(1) assms(2), of cfg "devices cfg"]]) (auto intro: exI [of _ str])
    qed
  qed
qed

section \<open>The whole boot\<close>

text \<open>The invariants of the lower layers do not look at the fields the kernel adds.\<close>

lemmas low_defs = con_inv_def con_shape_def mirrored_def con_term_def con_keep_def boot_ok_def shell_base_def
  history_inv_def pane_ok_def input_inv_def input_queue_def inventory_shape_def session_of_def line_def
  history_slots_def sb_lines_def lists_devices_def gui_shows_def gui_inv_def fb_inv_def gui_text_def
  window_up_def kernel_up_def system_inv_def ui_inv_def pane_inv_def shell_inv_def line_inv_def

lemma kernel_upd [simp]:
  fixes s :: "'a kernel_scheme"
  shows "window_up (s\<lparr>kfs := f\<rparr>) = window_up s" "kernel_up (s\<lparr>ksched := k\<rparr>) = kernel_up s"
    "kernel_up (s\<lparr>kdrivers := d\<rparr>) = kernel_up s" "con_term (s\<lparr>kfs := f\<rparr>) = con_term s"
    "con_term (s\<lparr>ksched := k\<rparr>) = con_term s" "con_term (s\<lparr>kdrivers := d\<rparr>) = con_term s"
    "gui_text (s\<lparr>ksched := k\<rparr>) = gui_text s" "gui_text (s\<lparr>kdrivers := d\<rparr>) = gui_text s"
    "session_of (s\<lparr>ksched := k\<rparr>) = session_of s" "session_of (s\<lparr>kdrivers := d\<rparr>) = session_of s"
    "lists_devices cfg fs (s\<lparr>ksched := k\<rparr>) = lists_devices cfg fs s"
    "lists_devices cfg fs (s\<lparr>kdrivers := d\<rparr>) = lists_devices cfg fs s"
    "con_shape (s\<lparr>ksched := k\<rparr>) = con_shape s" "boot_ok (s\<lparr>ksched := k\<rparr>) = boot_ok s"
proof -
  have "picture (s\<lparr>kfs := f\<rparr>) = picture s" "picture (s\<lparr>ksched := k\<rparr>) = picture s" "picture (s\<lparr>kdrivers := d\<rparr>) = picture s"
    by (simp_all add: picture_def fun_eq_iff)
  then show "window_up (s\<lparr>kfs := f\<rparr>) = window_up s" "kernel_up (s\<lparr>ksched := k\<rparr>) = kernel_up s"
    "kernel_up (s\<lparr>kdrivers := d\<rparr>) = kernel_up s" by (simp_all add: low_defs)
qed (simp_all add: low_defs)

lemma kernel_fields:
  fixes s t :: "'a kernel_scheme"
  assumes "gui.more t = gui.more s"
  shows "kfs t = kfs s" "kdrivers t = kdrivers s" "ksched t = ksched s" "kernel.more t = kernel.more s"
  using assms by (cases s; cases t; simp)+

text \<open>The static data at boot: whatever video memory \<open>vga\<close>, memory \<open>m\<close> and registers \<open>c\<close> hold.\<close>

definition kernel_statics :: "u16 list \<Rightarrow> (u64 \<Rightarrow> u64) \<Rightarrow> regs \<Rightarrow> kernel" where
  "kernel_statics vga m c = gui.extend
     (gui_statics (fb_statics (acpi_statics (inventory_statics (pane_statics (shell_statics (console_statics vga)))))))
     (kernel.fields fs_statics drivers_statics
       \<lparr>next_free_page = 0, cells = m, task_list_head = 0, task_list_tail = 0, current_task = 0, cpu = c\<rparr>)"

lemma kernel_statics_ok:
  assumes "length vga = 2000"
  shows "con_shape (kernel_statics vga m c)" "boot_ok (kernel_statics vga m c)"
    "length (gui_buf (kernel_statics vga m c)) = 128" "gui_len (kernel_statics vga m c) = 0"
    "vga_color (kernel_statics vga m c) = 7" "kfs (kernel_statics vga m c) = fs_statics"
    "kdrivers (kernel_statics vga m c) = drivers_statics"
    "cells (ksched (kernel_statics vga m c)) = m" "cpu (ksched (kernel_statics vga m c)) = c"
  using assms
  by (simp_all add: kernel_statics_def gui_statics_def fb_statics_def acpi_statics_def inventory_statics_def
      pane_statics_def shell_statics_def console_statics_def gui.defs kernel.defs framebuffer.defs acpi.defs
      inventory.defs pane.defs shell.defs console.defs low_defs list_all_iff terminated_def)

lemma kbd_driver_keeps: "keeps_drivers (kbd_driver kbd)"
  by (auto simp: keeps_drivers_def run_init_def kbd_driver_def keyboard_init_def split: if_splits)

lemma keyboard_registered:
  assumes "kbd \<noteq> 0"
  shows "lists_drivers [kbd] (driver_register kbd drivers_statics)"
    and "driver_init_all (kbd_driver kbd) (driver_register kbd drivers_statics) = Some (driver_register kbd drivers_statics)"
proof -
  have "lists_drivers [] drivers_statics" by (simp add: lists_drivers_def drivers_statics_def)
  from register_lists [OF this assms] show l: "lists_drivers [kbd] (driver_register kbd drivers_statics)" by simp
  then have "chain (drv_next (driver_register kbd drivers_statics)) (drv_head (driver_register kbd drivers_statics)) [kbd] 0"
    by (simp add: lists_drivers_def fifo_def)
  from driver_loop_chain [OF this kbd_driver_keeps]
  show "driver_init_all (kbd_driver kbd) (driver_register kbd drivers_statics) = Some (driver_register kbd drivers_statics)"
    by (simp add: driver_init_all_def run_init_def kbd_driver_def keyboard_init_def)
qed

lemma boot_pages:
  assumes "unat (image_end hw) + 4096 \<le> 2 ^ 64"
  shows "sched_ok [] (sched_init (mm_init hw s))"
    and "unat (next_free_page (sched_init (mm_init hw s))) = first_page (unat (image_end hw))"
    and "cells (sched_init (mm_init hw s)) = cells s" "cpu (sched_init (mm_init hw s)) = cpu s"
proof -
  have n: "next_free_page (sched_init (mm_init hw s)) = next_free_page (mm_init hw s)" by (simp add: sched_init_def)
  show f: "unat (next_free_page (sched_init (mm_init hw s))) = first_page (unat (image_end hw))"
    unfolding n by (rule mm_init_page [OF assms])
  show "cells (sched_init (mm_init hw s)) = cells s" "cpu (sched_init (mm_init hw s)) = cpu s"
    by (simp_all add: sched_init_def mm_init_def Let_def)
  have "first_page (unat (image_end hw)) mod 4096 = 0" "0 < first_page (unat (image_end hw))"
    by (simp_all add: first_page_def max_def)
  then have "page (next_free_page (sched_init (mm_init hw s)))" "next_free_page (sched_init (mm_init hw s)) \<noteq> 0"
    using f by (auto simp: page_def)
  then show "sched_ok [] (sched_init (mm_init hw s))"
    by (simp add: sched_ok_def layout_ok_def queues_def) (simp add: sched_init_def)
qed

text \<open>What boot requires of the machine: a serial port that becomes ready, PCI configuration space that
  answers, ACPI firmware with consistent tables, memory at the framebuffer, and an image that
  leaves room for a page.\<close>

definition machine_ok :: "hardware \<Rightarrow> (u32 \<Rightarrow> u32) \<Rightarrow> bool" where
  "machine_ok hw cfg \<longleftrightarrow> uart_ready hw \<and> pci_answers hw cfg \<and> firmware_ok hw \<and> fb_mapped hw"

definition initialised :: "hardware \<Rightarrow> (u32 \<Rightarrow> u32) \<Rightarrow> nat \<Rightarrow> 'a kernel_scheme \<Rightarrow> bool" where
  "initialised hw cfg kbd t \<longleftrightarrow> kernel_up t \<and> gui_text t = [] \<and> \<not> have_e0 t \<and>
     session_of t = \<lparr>ses_text = [], ses_pos = 0, ses_past = [], ses_nav = -1\<rparr> \<and>
     lists_devices cfg (devices cfg) t \<and>
     (\<exists>str. con_term t = term_write 7 (str @ greeting @ prompt) (canvas (grid_cell 7 {} {}) 1 1)) \<and>
     fs_inv (kfs t) \<and> dir_of (kfs t) = replicate 16 None \<and> lists_drivers [kbd] (kdrivers t) \<and>
     sched_ok [] (ksched t) \<and> unat (next_free_page (ksched t)) = first_page (unat (image_end hw))"

lemma kernel_init_wp:
  assumes "machine_ok hw cfg" and "unat (image_end hw) + 4096 \<le> 2 ^ 64" and "kbd \<noteq> 0" and "length vga = 2000"
  shows "wp (kernel_init hw kbd (kernel_statics vga m c))
    (\<lambda>t. initialised hw cfg kbd t \<and> cpu (ksched t) = c \<and> cells (ksched t) = m)"
proof -
  note st = kernel_statics_ok [OF assms(4), of m c]
  have hw: "uart_ready hw" "pci_answers hw cfg" "firmware_ok hw" "fb_mapped hw"
    using assms(1) by (simp_all add: machine_ok_def)
  let ?s = "(kernel_statics vga m c)\<lparr>ksched := mm_init hw (ksched (kernel_statics vga m c))\<rparr>"
  have s: "con_shape ?s" "boot_ok ?s" "length (gui_buf ?s) = 128" "gui_len ?s = 0" "vga_color ?s = 7"
    using st by simp_all
  obtain f where f: "fs_init fs_statics = Some f" "fs_inv f" "dir_of f = replicate 16 None"
    using fs_init_wp [of fs_statics] fs_statics_inv(1)
    by (auto simp: wp_iff_Some fs_statics_def list_all_iff file_ok_def fs_inv_def)
  note k = boot_pages [OF assms(2), of "ksched (kernel_statics vga m c)"]
  let ?fin = "\<lambda>s. do {
      let s = s\<lparr>ksched := sched_init (ksched s)\<rparr>;
      let s = keyboard_register kbd s;
      d \<leftarrow> driver_init_all (kbd_driver kbd) (kdrivers s);
      Some (s\<lparr>kdrivers := d\<rparr>) }"
  have run: "kernel_init hw kbd (kernel_statics vga m c) = do {
      t \<leftarrow> do { s \<leftarrow> console_init ?s; s \<leftarrow> pane_init hw s; gui_init hw s };
      f \<leftarrow> fs_init (kfs t);
      t \<leftarrow> do { s \<leftarrow> inventory_gather hw (t\<lparr>kfs := f\<rparr>); s \<leftarrow> acpi_init hw s;
        s \<leftarrow> console_write hw (c_lit greeting) s; shell_show_prompt hw s };
      ?fin t }"
    by (simp add: kernel_init_def greeting_def syscall_init_def)
  show ?thesis
    unfolding run
  proof (rule wp_seq [OF early_wp [OF s(1-4) hw(1,4)]])
    fix t :: kernel
    assume t: "window_up t \<and> gui.more t = gui.more ?s \<and> con_keep t = con_keep ?s \<and>
      con_term t = canvas (grid_cell (vga_color ?s) {} {}) 1 1"
    have kt: "kfs t = fs_statics" "kdrivers t = drivers_statics" "ksched t = ksched ?s"
      using kernel_fields [of t ?s] t st by simp_all
    have w: "window_up (t\<lparr>kfs := f\<rparr>)" using t by simp
    have col: "vga_color (t\<lparr>kfs := f\<rparr>) = 7" using con_keep_color [of t ?s] t s(5) by simp
    show "wp (do { f \<leftarrow> fs_init (kfs t);
        t \<leftarrow> do { s \<leftarrow> inventory_gather hw (t\<lparr>kfs := f\<rparr>); s \<leftarrow> acpi_init hw s;
          s \<leftarrow> console_write hw (c_lit greeting) s; shell_show_prompt hw s };
        ?fin t }) (\<lambda>t. initialised hw cfg kbd t \<and> cpu (ksched t) = c \<and> cells (ksched t) = m)"
      unfolding kt(1) f(1) bind.bind_lunit
    proof (rule wp_seq [OF late_wp [OF w hw(1-3)]])
      fix u :: kernel
      assume u: "kernel_up u \<and> gui_text u = [] \<and> \<not> have_e0 u \<and> gui.more u = gui.more (t\<lparr>kfs := f\<rparr>) \<and>
        lists_devices cfg (devices cfg) u \<and>
        session_of u = \<lparr>ses_text = [], ses_pos = 0, ses_past = [], ses_nav = -1\<rparr> \<and>
        (\<exists>str. con_term u = term_write (vga_color (t\<lparr>kfs := f\<rparr>)) (str @ greeting @ prompt) (con_term (t\<lparr>kfs := f\<rparr>)))"
      have ku: "kfs u = f" "kdrivers u = drivers_statics" "ksched u = ksched ?s"
        using kernel_fields [of u "t\<lparr>kfs := f\<rparr>"] u kt by simp_all
      have "\<exists>str. con_term u = term_write 7 (str @ greeting @ prompt) (canvas (grid_cell 7 {} {}) 1 1)"
        using u t col s(5) by (simp only: kernel_upd)
      then show "wp (?fin u) (\<lambda>t. initialised hw cfg kbd t \<and> cpu (ksched t) = c \<and> cells (ksched t) = m)"
        using u ku f(2,3) k keyboard_registered [OF assms(3)] st
        by (simp add: keyboard_register_def initialised_def)
    qed
  qed
qed

section \<open>The running kernel\<close>

text \<open>A turn: the current task runs one round of its loop, computing as it likes in its registers and on
  its own stack, and yields. The tasks are those of the layout \<open>l\<close>, in the order of creation.\<close>

inductive kernel_step :: "hardware \<Rightarrow> layout \<Rightarrow> 'a kernel_scheme \<Rightarrow> 'a kernel_scheme \<Rightarrow> bool" for hw l where
  step: "i < length task_list \<Longrightarrow> current_task (ksched s) = fst (l ! i) \<Longrightarrow>
    task_round hw (task_list ! i) s = Some (Continue t) \<Longrightarrow> runs l (ksched t) u \<Longrightarrow>
    kernel_step hw l s (t\<lparr>ksched := sched_yield u\<rparr>)"

inductive_cases kernel_stepE: "kernel_step hw l s t"

definition kernel_inv :: "layout \<Rightarrow> 'a kernel_scheme \<Rightarrow> bool" where
  "kernel_inv l s \<longleftrightarrow> kernel_up s \<and> sched_inv l (ksched s) \<and> length l = length task_list"

text \<open>What no turn of any task changes while the keyboard queue stays empty: the screen, the shell's
  line and history, the files, the drivers.\<close>

definition shell_still :: "'a kernel_scheme \<Rightarrow> 'a kernel_scheme \<Rightarrow> bool" where
  "shell_still s t \<longleftrightarrow> con_term t = con_term s \<and> session_of t = session_of s \<and> kfs t = kfs s \<and> kdrivers t = kdrivers s"

lemma shell_still_refl [simp]: "shell_still s s"
  by (simp add: shell_still_def)

lemma shell_still_trans: "shell_still s t \<Longrightarrow> shell_still t u \<Longrightarrow> shell_still s u"
  by (simp add: shell_still_def)

lemma shell_still_upd [simp]: "shell_still s (t\<lparr>ksched := k\<rparr>) = shell_still s t"
  by (simp add: shell_still_def)

text \<open>The window's task changes, below the framebuffer, only the trace and the prefix flag.\<close>

lemma gui_turn_fields:
  fixes s t :: "'a kernel_scheme"
  assumes "gui_frame (s\<lparr>trace := tr, have_e0 := e\<rparr>) t" and "gui_shows t" and "kernel_up s"
  shows "kernel_up t" "shell_still s t" "ksched t = ksched s"
proof -
  obtain m b n where t: "t = s\<lparr>trace := tr, have_e0 := e, vram := m, gui_buf := b, gui_len := n\<rparr>"
    using gui_frameD [OF assms(1)] .
  show "shell_still s t" "ksched t = ksched s"
    by (simp_all add: t shell_still_def con_term_def sb_lines_def session_of_def line_def history_slots_def)
  have "system_inv t = system_inv s" "input_queue t = input_queue s"
    by (simp_all add: t low_defs)
  then show "kernel_up t" using assms(2,3) by (simp add: kernel_up_def)
qed

lemma task_round_wp:
  fixes s :: "'a kernel_scheme"
  assumes "kernel_up s" and "uart_ready hw" and "fb_mapped hw"
  shows "wp (task_round hw k s) (\<lambda>r. \<exists>t. r = Continue t \<and> kernel_up t \<and> shell_still s t \<and> ksched t = ksched s \<and>
    typed s t \<and> received t = received s + of_bool (k = Gui_task \<and> pending hw s))"
proof (cases k)
  case Idle
  then show ?thesis using assms(1) by simp
next
  case Shell_task
  have "system_inv s" "input_queue s = []" using assms(1) by (simp_all add: kernel_up_def)
  from shell_round_wp [OF this(1) assms(2)] this(2) have "wp (shell_round hw s) (\<lambda>r. r = Continue s)"
    by (auto elim: wp_mono)
  then show ?thesis unfolding Shell_task task_round.simps by (rule wp_mono) (use assms(1) in auto)
next
  case Gui_task
  have "gui_shows s" using assms(1) by (simp add: kernel_up_def)
  from gui_round_wp [OF assms(3) this]
  have "wp (gui_round hw s) (\<lambda>t. kernel_up t \<and> shell_still s t \<and> ksched t = ksched s \<and> typed s t \<and>
      received t = received s + of_bool (pending hw s))"
    by (rule wp_mono) (use gui_turn_fields [OF _ _ assms(1)] in blast)
  then show ?thesis unfolding Gui_task task_round.simps by (intro continue_wp) (auto elim: wp_mono)
qed

lemma kernel_step_inv:
  assumes "kernel_step hw l s t" and "kernel_inv l s" and "uart_ready hw" and "fb_mapped hw"
  shows "kernel_inv l t \<and> shell_still s t \<and> typed s t \<and>
    task_turn l (ksched s) (ksched t) \<and>
    (\<forall>i < length task_list. current_task (ksched s) = fst (l ! i) \<longrightarrow>
      received t = received s + of_bool (task_list ! i = Gui_task \<and> pending hw s))"
proof -
  from assms(1) obtain i v u where st: "t = v\<lparr>ksched := sched_yield u\<rparr>" "i < length task_list"
    "current_task (ksched s) = fst (l ! i)" "task_round hw (task_list ! i) s = Some (Continue v)" "runs l (ksched v) u"
    by (auto elim: kernel_stepE)
  have up: "kernel_up s" "sched_inv l (ksched s)" "length l = length task_list" using assms(2) by (simp_all add: kernel_inv_def)
  from task_round_wp [OF up(1) assms(3,4), of "task_list ! i"]
  have v: "kernel_up v" "shell_still s v" "ksched v = ksched s"
    "typed s v" "received v = received s + of_bool (task_list ! i = Gui_task \<and> pending hw s)"
    unfolding st(4) by auto
  have turn: "task_turn l (ksched s) (sched_yield u)" using st(5) v(3) by (simp add: turn)
  have i: "i < length l" using st(2) up(3) by simp
  have "sched_inv l (sched_yield u)" using turn_effect [OF up(2) st(3) i turn] by blast
  moreover have "typed s (v\<lparr>ksched := sched_yield u\<rparr>)" using v(4) by (simp add: typed_def gui_text_def)
  moreover have "j = i" if "j < length task_list" "current_task (ksched s) = fst (l ! j)" for j
    using that st(2,3) up(2,3) nth_eq_iff_index_eq [of "map fst l" j i] by (simp add: sched_inv_def layout_ok_def)
  ultimately show ?thesis using v(1,2,5) up(3) turn unfolding st(1) by (auto simp: kernel_inv_def received_def)
qed

lemma kernel_steps_inv:
  assumes "(kernel_step hw l)\<^sup>*\<^sup>* s t" and "kernel_inv l s" and "uart_ready hw" and "fb_mapped hw"
  shows "kernel_inv l t \<and> shell_still s t \<and> typed s t"
  using assms(1)
proof (induction rule: rtranclp_induct)
  case base
  show ?case using assms(2) by simp
next
  case (step t u)
  with kernel_step_inv [OF step.hyps(2) _ assms(3,4)] show ?case
    using shell_still_trans typed_trans by blast
qed

text \<open>No task is ever stuck: the round of the current task has a result, so whatever the task computes
  in its registers and on its stack, its turn ends in a step.\<close>

lemma kernel_progress:
  assumes "kernel_inv l s" and "uart_ready hw" and "fb_mapped hw"
  shows "\<exists>i < length task_list. current_task (ksched s) = fst (l ! i) \<and>
    (\<exists>v. task_round hw (task_list ! i) s = Some (Continue v) \<and>
      (\<forall>u. runs l (ksched s) u \<longrightarrow> kernel_step hw l s (v\<lparr>ksched := sched_yield u\<rparr>)))"
proof -
  have k: "kernel_up s" "sched_inv l (ksched s)" "length l = length task_list" using assms(1) by (simp_all add: kernel_inv_def)
  have "current_task (ksched s) \<in> fst ` set l" using k(2) by (simp add: sched_inv_def)
  then obtain i where i: "i < length l" "current_task (ksched s) = fst (l ! i)" by (auto simp: in_set_conv_nth)
  from task_round_wp [OF k(1) assms(2,3), of "task_list ! i"]
  obtain v where v: "task_round hw (task_list ! i) s = Some (Continue v)" "ksched v = ksched s" by (auto simp: wp_iff_Some)
  have "kernel_step hw l s (v\<lparr>ksched := sched_yield u\<rparr>)" if "runs l (ksched s) u" for u
    using step [of i s l hw v u] i k(3) v that by simp
  then show ?thesis using i k(3) v(1) by metis
qed

text \<open>And it can end, so runs of any length exist.\<close>

lemma kernel_step_exists:
  assumes "kernel_inv l s" and "uart_ready hw" and "fb_mapped hw"
  shows "\<exists>t. kernel_step hw l s t"
proof -
  have "current_task (ksched s) \<in> fst ` set l" using assms(1) by (simp add: kernel_inv_def sched_inv_def)
  then obtain sc where sc: "(current_task (ksched s), sc) \<in> set l" by auto
  let ?u = "(ksched s)\<lparr>cpu := (cpu (ksched s))\<lparr>rsp := sc + of_nat 4088\<rparr>\<rparr>"
  have "in_stack sc 48 4088 (sc + of_nat 4088)" unfolding in_stack_def by (rule exI [of _ 4088]) simp
  then have "runs l (ksched s) ?u" unfolding runs_def using sc by auto
  then show ?thesis using kernel_progress [OF assms] by blast
qed

lemma kernel_run_exists:
  assumes "kernel_inv l s" and "uart_ready hw" and "fb_mapped hw"
  shows "\<exists>t. (kernel_step hw l ^^ n) s t"
proof (induction n)
  case (Suc n)
  then obtain u where u: "(kernel_step hw l ^^ n) s u" by blast
  have "kernel_inv l u" using kernel_steps_inv [OF relpowp_imp_rtranclp [OF u] assms] by simp
  from kernel_step_exists [OF this assms(2,3)] u show ?case by auto
qed auto

section \<open>Starting the tasks\<close>

lemma kmain_eq:
  "kmain hw kbd code boot s = do {
     s \<leftarrow> kernel_init hw kbd s;
     Some (s\<lparr>ksched := sched_start boot (fold spawn (map code task_list) (ksched s))\<rparr>) }"
  by (simp add: kmain_def task_list_def spawn_def split_beta Let_def)

text \<open>The words the first switch writes, the static \<open>bootstrap_task\<close> and the top of the boot stack, lie
  outside the six pages of the tasks.\<close>

definition boot_room :: "hardware \<Rightarrow> u64 \<Rightarrow> regs \<Rightarrow> bool" where
  "boot_room hw boot c \<longleftrightarrow> first_page (unat (image_end hw)) + 24576 < 2 ^ 64 \<and>
     (\<forall>a \<in> {boot, boot + 8, rsp c - 8, rsp c - 16, rsp c - 24, rsp c - 32, rsp c - 40, rsp c - 48}.
       unat a < first_page (unat (image_end hw)) \<or> first_page (unat (image_end hw)) + 24576 \<le> unat a)"

lemma kmain_wp:
  assumes "machine_ok hw cfg" and "unat (image_end hw) + 4096 \<le> 2 ^ 64" and "kbd \<noteq> 0" and "length vga = 2000"
    and "boot_room hw boot c"
  shows "wp (kmain hw kbd code boot (kernel_statics vga m c)) (\<lambda>s. \<exists>l. kernel_inv l s \<and> gui_text s = [] \<and> \<not> have_e0 s \<and>
    current_task (ksched s) = fst (l ! 0) \<and>
    (\<forall>i < length task_list. saved (ksched s) (fst (l ! i)) = fresh_context (snd (l ! i)) (code (task_list ! i))))"
  unfolding kmain_eq
proof (rule wp_seq [OF kernel_init_wp [OF assms(1-4)]])
  fix t :: kernel
  assume t: "initialised hw cfg kbd t \<and> cpu (ksched t) = c \<and> cells (ksched t) = m"
  let ?k = "sched_start boot (fold spawn (map code task_list) (ksched t))"
  have ok: "sched_ok [] (ksched t)" "unat (next_free_page (ksched t)) = first_page (unat (image_end hw))"
    using t by (simp_all add: initialised_def)
  have len: "length (map code task_list) = 3" "map code task_list \<noteq> []" by (simp_all add: task_list_def)
  have room: "unat (next_free_page (ksched t)) + 8192 * length (map code task_list) < 2 ^ 64"
    using assms(5) unfolding ok(2) len(1) boot_room_def by simp
  have words: "\<forall>a \<in> {boot, boot + 8, rsp (cpu (ksched t)) - 8, rsp (cpu (ksched t)) - 16, rsp (cpu (ksched t)) - 24,
      rsp (cpu (ksched t)) - 32, rsp (cpu (ksched t)) - 40, rsp (cpu (ksched t)) - 48}.
      unat a < unat (next_free_page (ksched t)) \<or> unat (next_free_page (ksched t)) + 8192 * length (map code task_list) \<le> unat a"
    using assms(5) t unfolding ok(2) len(1) boot_room_def by simp
  obtain l where l: "map fst l = map (\<lambda>i. next_free_page (ksched t) + of_nat (8192 * i)) [0..<length (map code task_list)]"
    "sched_inv l ?k" "current_task ?k = fst (l ! 0)"
    "\<forall>i < length (map code task_list). saved ?k (fst (l ! i)) = fresh_context (snd (l ! i)) (map code task_list ! i)"
    using start_tasks [OF ok(1) len(2) room words] by blast
  have "length (map fst l) = 3" unfolding l(1) len(1) by simp
  then have "length l = length task_list" by (simp add: task_list_def)
  moreover have "kernel_up t" "gui_text t = []" "\<not> have_e0 t" using t by (simp_all add: initialised_def)
  ultimately have "kernel_inv l (t\<lparr>ksched := ?k\<rparr>)" "gui_text (t\<lparr>ksched := ?k\<rparr>) = []"
    using l(2) by (simp_all add: kernel_inv_def)
  then show "wp (Some (t\<lparr>ksched := ?k\<rparr>)) (\<lambda>s. \<exists>l. kernel_inv l s \<and> gui_text s = [] \<and> \<not> have_e0 s \<and>
      current_task (ksched s) = fst (l ! 0) \<and>
      (\<forall>i < length task_list. saved (ksched s) (fst (l ! i)) = fresh_context (snd (l ! i)) (code (task_list ! i))))"
    using l(3,4) \<open>\<not> have_e0 t\<close> by auto
qed

text \<open>The turns of the kernel are turns of its scheduler.\<close>

lemma kernel_steps_turns:
  assumes "(kernel_step hw l ^^ k) s t" and "kernel_inv l s" and "uart_ready hw" and "fb_mapped hw"
  shows "(task_turn l ^^ k) (ksched s) (ksched t)"
  using assms(1)
proof (induction k arbitrary: t)
  case (Suc k)
  then obtain u where u: "(kernel_step hw l ^^ k) s u" "kernel_step hw l u t" by auto
  have "kernel_inv l u" using kernel_steps_inv [OF relpowp_imp_rtranclp [OF u(1)] assms(2-4)] by simp
  from kernel_step_inv [OF u(2) this assms(3,4)] Suc.IH [OF u(1)] show ?case by auto
qed simp

section \<open>Properties\<close>

text \<open>A machine to boot on: the firmware tables of \<open>acpi_machine\<close>, all memory mapped, an empty PCI bus.\<close>

definition boot_machine :: hardware where
  "boot_machine = acpi_machine\<lparr>port_in := port_in (pci_machine (\<lambda>a. 0xFFFFFFFF))\<rparr>"

definition boot_regs :: regs where
  "boot_regs = \<lparr>rsp = 0x90000, rbp = 0, rbx = 0, r12 = 0, r13 = 0, r14 = 0, r15 = 0, rip = 0\<rparr>"

lemma firmware_memory:
  assumes "mem8 h = mem8 hw"
  shows "firmware_ok h = firmware_ok hw"
proof -
  have "ld h n a = ld hw n a" for n a by (induction n arbitrary: a) (simp_all add: assms)
  then have l: "ld h = ld hw" by (intro ext)
  have "sig_match h a sig = sig_match hw a sig" for a sig
    by (induction sig arbitrary: a) (simp_all add: assms cong: if_cong)
  then have m: "sig_match h = sig_match hw" by (intro ext)
  have "scan_rsdp h p e = scan_rsdp hw p e" for p e
  proof (induction "e - p" arbitrary: p rule: less_induct)
    case less
    have "p + RSDP_SIZE \<le> e \<Longrightarrow> scan_rsdp h (p + 16) e = scan_rsdp hw (p + 16) e" by (rule less) simp
    then show ?case by (simp add: scan_rsdp.simps [of _ p] m cong: if_cong)
  qed
  then have r: "scan_rsdp h = scan_rsdp hw" by (intro ext)
  have "find_rsdp h = find_rsdp hw" unfolding find_rsdp_def l r ..
  moreover have "root_table h = root_table hw" unfolding root_table_def l ..
  moreover have "root_signature h = root_signature hw" unfolding root_signature_def m ..
  ultimately have "acpi_root h = acpi_root hw" by (simp only: acpi_root_def)
  then show ?thesis by (simp add: firmware_ok_def readable_def le_value_def assms l)
qed

lemma boot_machine_ok: "machine_ok boot_machine (\<lambda>a. 0xFFFFFFFF)" "image_end boot_machine = 0x200000"
proof -
  have "mem8 boot_machine = mem8 acpi_machine" by (simp add: boot_machine_def)
  then have "firmware_ok boot_machine" using firmware_memory acpi_machine_firmware by blast
  moreover have "uart_ready boot_machine"
    by (auto simp: uart_ready_def ready_after_def boot_machine_def pci_machine_def intro!: exI [of _ 0] split: list.split io_event.split)
  moreover have "pci_answers boot_machine (\<lambda>a. 0xFFFFFFFF)" by (simp add: pci_answers_def boot_machine_def pci_machine_def)
  moreover have "fb_mapped boot_machine" by (simp add: fb_mapped_def boot_machine_def acpi_machine_def)
  ultimately show "machine_ok boot_machine (\<lambda>a. 0xFFFFFFFF)" by (simp add: machine_ok_def)
  show "image_end boot_machine = 0x200000" by (simp add: boot_machine_def acpi_machine_def quiet_machine_def)
qed

lemma boot_machine_room: "boot_room boot_machine 0x1F000 boot_regs" "unat (image_end boot_machine) + 4096 \<le> 2 ^ 64"
proof -
  have f: "first_page (unat (image_end boot_machine)) = 0x200000" by (simp add: boot_machine_ok(2) first_page_def)
  show "boot_room boot_machine 0x1F000 boot_regs" unfolding boot_room_def f by (simp add: boot_regs_def)
  show "unat (image_end boot_machine) + 4096 \<le> 2 ^ 64" by (simp add: boot_machine_ok(2))
qed

text \<open>C9. Boot: on a machine that satisfies what the initialisers rely on, \<open>kernel_init\<close> returns from
  the static initial state, whatever memory, video memory and registers hold, and every
  subsystem is up: the invariants of console, shell, panes, inventory and ACPI hold, the
  inventory lists the devices, the file system is empty, the keyboard driver is the one driver
  registered, the window shows the empty text, the screen shows the greeting and the prompt
  after whatever ACPI reported, and the scheduler is empty with all pages beyond the image free.\<close>

theorem kernel_init_boots:
  assumes "machine_ok hw cfg" and "unat (image_end hw) + 4096 \<le> 2 ^ 64" and "kbd \<noteq> 0" and "length vga = 2000"
  shows "wp (kernel_init hw kbd (kernel_statics vga m c)) (initialised hw cfg kbd)"
  by (rule wp_mono [OF kernel_init_wp [OF assms]]) simp

theorem kernel_init_boots_witness:
  "wp (kernel_init boot_machine 0x5000 (kernel_statics (replicate 2000 0x1234) (\<lambda>a. 0) boot_regs)) (\<lambda>t.
    dir_of (kfs t) = replicate 16 None \<and> lists_drivers [0x5000] (kdrivers t))"
  by (rule wp_mono [OF kernel_init_boots [OF boot_machine_ok(1) boot_machine_room(2)]]) (simp_all add: initialised_def)

text \<open>C1. The kernel never goes wrong: \<open>kmain\<close> returns with the first of its three tasks current and each
  task's saved context at the entry of that task's code on a stack of its own, and in every
  state reachable from there by turns of the tasks, whatever keys are pressed, all invariants
  hold (of the components and of the scheduler) and the round of the current task's loop has a
  result, so that its turn ends and the next task runs.\<close>

theorem kernel_runs:
  assumes "machine_ok hw cfg" and "unat (image_end hw) + 4096 \<le> 2 ^ 64" and "kbd \<noteq> 0" and "length vga = 2000"
    and "boot_room hw boot c"
  shows "wp (kmain hw kbd code boot (kernel_statics vga m c)) (\<lambda>s. \<exists>l. current_task (ksched s) = fst (l ! 0) \<and>
    (\<forall>k. \<exists>i < length task_list. task_list ! i = k \<and> saved (ksched s) (fst (l ! i)) = fresh_context (snd (l ! i)) (code k)) \<and>
    (\<forall>t. (kernel_step hw l)\<^sup>*\<^sup>* s t \<longrightarrow>
      kernel_inv l t \<and> (\<exists>i < length task_list. current_task (ksched t) = fst (l ! i) \<and>
        (\<exists>v. task_round hw (task_list ! i) t = Some (Continue v) \<and>
          (\<forall>u. runs l (ksched t) u \<longrightarrow> kernel_step hw l t (v\<lparr>ksched := sched_yield u\<rparr>))))))"
proof (rule wp_mono [OF kmain_wp [OF assms]], elim exE conjE)
  have hw: "uart_ready hw" "fb_mapped hw" using assms(1) by (simp_all add: machine_ok_def)
  fix s :: kernel and l
  assume l: "kernel_inv l s" "current_task (ksched s) = fst (l ! 0)"
    and start: "\<forall>i < length task_list. saved (ksched s) (fst (l ! i)) = fresh_context (snd (l ! i)) (code (task_list ! i))"
  have "\<exists>i < length task_list. task_list ! i = k \<and> saved (ksched s) (fst (l ! i)) = fresh_context (snd (l ! i)) (code k)" for k
    using task_place [of k] start by blast
  moreover have "kernel_inv l t" if "(kernel_step hw l)\<^sup>*\<^sup>* s t" for t using kernel_steps_inv [OF that l(1) hw] by simp
  ultimately show "\<exists>l. current_task (ksched s) = fst (l ! 0) \<and>
    (\<forall>k. \<exists>i < length task_list. task_list ! i = k \<and> saved (ksched s) (fst (l ! i)) = fresh_context (snd (l ! i)) (code k)) \<and>
    (\<forall>t. (kernel_step hw l)\<^sup>*\<^sup>* s t \<longrightarrow>
      kernel_inv l t \<and> (\<exists>i < length task_list. current_task (ksched t) = fst (l ! i) \<and>
        (\<exists>v. task_round hw (task_list ! i) t = Some (Continue v) \<and>
          (\<forall>u. runs l (ksched t) u \<longrightarrow> kernel_step hw l t (v\<lparr>ksched := sched_yield u\<rparr>)))))"
    using l(2) kernel_progress [OF _ hw] by blast
qed

theorem kernel_runs_witness:
  "wp (kmain boot_machine 0x5000 (\<lambda>k. 0x1000) 0x1F000 (kernel_statics (replicate 2000 0x1234) (\<lambda>a. 0) boot_regs))
    (\<lambda>s. kernel_up s)"
  by (rule wp_mono [OF kernel_runs [OF boot_machine_ok(1) boot_machine_room(2) _ _ boot_machine_room(1)]])
    (auto simp: kernel_inv_def)

text \<open>C17. The shell is deaf: nothing in the running kernel moves a key into the console's queue, so from a
  state in which the queue is empty, as boot leaves it, no turn of any task ever changes the
  text screen, the command line, the history or the files; all keys reach the window's text.\<close>

theorem shell_is_deaf:
  assumes "kernel_inv l s" and "uart_ready hw" and "fb_mapped hw" and "(kernel_step hw l)\<^sup>*\<^sup>* s t"
  shows "input_queue t = [] \<and> con_term t = con_term s \<and> session_of t = session_of s \<and> kfs t = kfs s \<and>
    typed s t"
  using kernel_steps_inv [OF assms(4,1-3)] by (simp add: kernel_inv_def kernel_up_def shell_still_def)

theorem shell_is_deaf_witness:
  "\<exists>l (s :: kernel). kernel_inv l s \<and> input_queue s = []"
proof -
  have "wp (kmain boot_machine 0x5000 (\<lambda>k. 0x1000) 0x1F000 (kernel_statics (replicate 2000 0x1234) (\<lambda>a. 0) boot_regs))
    (\<lambda>s. \<exists>l. kernel_inv l s)"
    by (rule wp_mono [OF kmain_wp [OF boot_machine_ok(1) boot_machine_room(2) _ _ boot_machine_room(1)]]) auto
  then obtain s l where s: "kernel_inv l (s :: kernel)" by (auto simp: wp_iff_Some)
  have "uart_ready boot_machine" "fb_mapped boot_machine" using boot_machine_ok(1) by (simp_all add: machine_ok_def)
  from shell_is_deaf [OF s this rtranclp.rtrancl_refl] s show ?thesis by blast
qed

text \<open>The three tasks alternate for ever: after \<open>k\<close> turns the task \<open>k\<close> places further runs, so each of
  idle, shell and window gets every third turn.\<close>

theorem tasks_alternate:
  assumes "kernel_inv l s" and "uart_ready hw" and "fb_mapped hw" and "current_task (ksched s) = fst (l ! i)" and "i < 3"
    and "(kernel_step hw l ^^ k) s t"
  shows "current_task (ksched t) = fst (l ! ((i + k) mod 3))"
proof -
  have l: "sched_inv l (ksched s)" "length l = 3" using assms(1) by (simp_all add: kernel_inv_def task_list_def)
  from turns_effect [OF kernel_steps_turns [OF assms(6,1-3)] l(1) assms(4)] show ?thesis using assms(5) l(2) by simp
qed

theorem tasks_alternate_witness:
  "\<exists>l (s :: kernel). kernel_inv l s \<and> current_task (ksched s) = fst (l ! 0)"
proof -
  have "wp (kmain boot_machine 0x5000 (\<lambda>k. 0x1000) 0x1F000 (kernel_statics (replicate 2000 0x1234) (\<lambda>a. 0) boot_regs))
    (\<lambda>s. \<exists>l. kernel_inv l s \<and> current_task (ksched s) = fst (l ! 0))"
    by (rule wp_mono [OF kmain_wp [OF boot_machine_ok(1) boot_machine_room(2) _ _ boot_machine_room(1)]]) auto
  then obtain s l where s: "kernel_inv l (s :: kernel)" "current_task (ksched s) = fst (l ! 0)" by (auto simp: wp_iff_Some)
  have "uart_ready boot_machine" "fb_mapped boot_machine" using boot_machine_ok(1) by (simp_all add: machine_ok_def)
  from tasks_alternate [OF s(1) this s(2), of 0 s] s show ?thesis by auto
qed

text \<open>What the window has received after \<open>n\<close> turns, when the controller always has a scancode.\<close>

lemma turns_received:
  assumes "kernel_inv l s" and "uart_ready hw" and "fb_mapped hw" and "current_task (ksched s) = fst (l ! i)" and "i < 3"
    and "\<And>u :: 'a kernel_scheme. pending hw u" and "(kernel_step hw l ^^ n) s t"
  shows "received (t :: 'a kernel_scheme) = received s + (\<Sum>j < n. of_bool ((i + j) mod 3 = 2))"
  using assms(7)
proof (induction n arbitrary: t)
  case (Suc n)
  then obtain u where u: "(kernel_step hw l ^^ n) s u" "kernel_step hw l u t" by auto
  have inv: "kernel_inv l u" using kernel_steps_inv [OF relpowp_imp_rtranclp [OF u(1)] assms(1-3)] by simp
  let ?j = "(i + n) mod 3"
  have "current_task (ksched u) = fst (l ! ?j)" by (rule tasks_alternate [OF assms(1-5) u(1)])
  moreover have "?j < length task_list" by (simp add: task_list_def)
  ultimately have "received t = received u + of_bool (task_list ! ?j = Gui_task)"
    using kernel_step_inv [OF u(2) inv assms(2,3)] assms(6) by simp
  moreover have "task_list ! ?j = Gui_task \<longleftrightarrow> ?j = 2"
  proof -
    have "?j = 0 \<or> ?j = 1 \<or> ?j = 2" by linarith
    then show ?thesis by (elim disjE) (simp_all add: task_list_def)
  qed
  ultimately show ?case using Suc.IH [OF u(1)] by simp
qed simp

lemma one_in_three:
  assumes "i < 3"
  shows "(\<Sum>j < 3 * k. of_bool ((i + j) mod 3 = 2)) = (k :: nat)"
proof (induction k)
  case (Suc k)
  have k: "3 * Suc k = Suc (Suc (Suc (3 * k)))" by simp
  have "(i + 3 * k) mod 3 = i mod 3" "(i + Suc (3 * k)) mod 3 = (i + 1) mod 3" "(i + Suc (Suc (3 * k))) mod 3 = (i + 2) mod 3"
    by presburger+
  moreover have "i = 0 \<or> i = 1 \<or> i = 2" using assms by linarith
  ultimately show ?case unfolding k sum.lessThan_Suc Suc.IH by (elim disjE) simp_all
qed simp

text \<open>A machine whose controller always answers with the scancode of the key A.\<close>

definition typing_machine :: hardware where
  "typing_machine = boot_machine\<lparr>port_in := \<lambda>t p. if p = 0x64 then 1 else if p = 0x60 then 0x1E
     else port_in boot_machine t p\<rparr>"

lemma typing_machine_ok: "machine_ok typing_machine (\<lambda>a. 0xFFFFFFFF)" "image_end typing_machine = image_end boot_machine"
  "pending typing_machine s" "boot_room typing_machine 0x1F000 boot_regs"
proof -
  have "firmware_ok typing_machine"
    using firmware_memory [of typing_machine boot_machine] boot_machine_ok(1) by (simp add: machine_ok_def typing_machine_def)
  moreover have "uart_ready typing_machine"
    by (auto simp: uart_ready_def ready_after_def typing_machine_def boot_machine_def pci_machine_def
        intro!: exI [of _ 0] split: list.split io_event.split)
  moreover have "pci_answers typing_machine (\<lambda>a. 0xFFFFFFFF)"
    by (simp add: pci_answers_def typing_machine_def boot_machine_def pci_machine_def)
  moreover have "fb_mapped typing_machine" by (simp add: fb_mapped_def typing_machine_def boot_machine_def acpi_machine_def)
  ultimately show "machine_ok typing_machine (\<lambda>a. 0xFFFFFFFF)" by (simp add: machine_ok_def)
  show e: "image_end typing_machine = image_end boot_machine" by (simp add: typing_machine_def)
  show "boot_room typing_machine 0x1F000 boot_regs" using boot_machine_room(1) unfolding boot_room_def e .
  show "pending typing_machine s" by (simp add: pending_def inb_def typing_machine_def)
qed

text \<open>C2. From the keyboard to the screen: in every state the kernel can reach after \<open>kmain\<close>, the window's
  text is what the scancodes received since then type, edited key by key, and the pixels of the
  framebuffer are exactly the picture of that text.\<close>

theorem window_shows_typed:
  assumes "machine_ok hw cfg" and "unat (image_end hw) + 4096 \<le> 2 ^ 64" and "kbd \<noteq> 0" and "length vga = 2000"
    and "boot_room hw boot c"
  shows "wp (kmain hw kbd code boot (kernel_statics vga m c)) (\<lambda>s. \<exists>l. kernel_inv l s \<and>
    current_task (ksched s) = fst (l ! 0) \<and> (\<forall>t. (kernel_step hw l)\<^sup>*\<^sup>* s t \<longrightarrow>
      (\<exists>new. trace t = new @ trace s \<and>
        (let str = fold text_key (typed_keys False (scancodes new)) [] in
          gui_text t = str \<and> picture t = text_picture str))))"
proof (rule wp_mono [OF kmain_wp [OF assms]], elim exE conjE)
  have hw: "uart_ready hw" "fb_mapped hw" using assms(1) by (simp_all add: machine_ok_def)
  fix s :: kernel and l
  assume s: "kernel_inv l s" "gui_text s = []" "\<not> have_e0 s" "current_task (ksched s) = fst (l ! 0)"
  have "\<exists>new. trace t = new @ trace s \<and> (let str = fold text_key (typed_keys False (scancodes new)) [] in
      gui_text t = str \<and> picture t = text_picture str)" if "(kernel_step hw l)\<^sup>*\<^sup>* s t" for t
  proof -
    from kernel_steps_inv [OF that s(1) hw] have "typed s t" "gui_shows t"
      by (simp_all add: kernel_inv_def kernel_up_def)
    then show ?thesis using s(2,3) by (auto simp: typed_def gui_shows_def spell_typed Let_def)
  qed
  then show "\<exists>l. kernel_inv l s \<and> current_task (ksched s) = fst (l ! 0) \<and> (\<forall>t. (kernel_step hw l)\<^sup>*\<^sup>* s t \<longrightarrow>
      (\<exists>new. trace t = new @ trace s \<and> (let str = fold text_key (typed_keys False (scancodes new)) [] in
        gui_text t = str \<and> picture t = text_picture str)))"
    using s(1,4) by blast
qed

theorem window_shows_typed_witness:
  "wp (kmain typing_machine 0x5000 (\<lambda>k. 0x1000) 0x1F000 (kernel_statics (replicate 2000 0x1234) (\<lambda>a. 0) boot_regs))
    (\<lambda>s. picture s = text_picture (gui_text s))"
proof (rule wp_mono [OF window_shows_typed [OF typing_machine_ok(1)]])
  show "unat (image_end typing_machine) + 4096 \<le> 2 ^ 64"
    using boot_machine_room(2) by (simp add: typing_machine_ok(2))
  show "boot_room typing_machine 0x1F000 boot_regs" by (rule typing_machine_ok(4))
  fix s :: kernel
  assume "\<exists>l. kernel_inv l s \<and> current_task (ksched s) = fst (l ! 0) \<and>
    (\<forall>t. (kernel_step typing_machine l)\<^sup>*\<^sup>* s t \<longrightarrow> (\<exists>new. trace t = new @ trace s \<and>
      (let str = fold text_key (typed_keys False (scancodes new)) [] in gui_text t = str \<and> picture t = text_picture str)))"
  then obtain l where "(kernel_step typing_machine l)\<^sup>*\<^sup>* s s \<longrightarrow> (\<exists>new. trace s = new @ trace s \<and>
      (let str = fold text_key (typed_keys False (scancodes new)) [] in gui_text s = str \<and> picture s = text_picture str))"
    by blast
  then show "picture s = text_picture (gui_text s)" unfolding Let_def by (metis rtranclp.rtrancl_refl)
qed simp_all

text \<open>C13. No key is lost for long: as long as the controller has scancodes, every three turns of the tasks
  take exactly one, whichever task runs first, so that after \<open>3 * k\<close> turns the window has received
  \<open>k\<close> scancodes and shows the text they spell.\<close>

theorem window_keeps_up:
  assumes "kernel_inv l s" and "uart_ready hw" and "fb_mapped hw" and "\<And>u :: 'a kernel_scheme. pending hw u"
    and "(kernel_step hw l ^^ (3 * k)) (s :: 'a kernel_scheme) t"
  shows "\<exists>new. trace t = new @ trace s \<and> length (scancodes new) = k \<and>
    (let str = fold text_key (typed_keys (have_e0 s) (scancodes new)) (gui_text s) in
      gui_text t = str \<and> picture t = text_picture str)"
proof -
  have l: "length l = 3" "current_task (ksched s) \<in> fst ` set l"
    using assms(1) by (simp_all add: kernel_inv_def task_list_def sched_inv_def)
  then obtain i where i: "i < 3" "current_task (ksched s) = fst (l ! i)" by (auto simp: in_set_conv_nth)
  have "received t = received s + k"
    using turns_received [OF assms(1-3) i(2,1) assms(4,5)] one_in_three [OF i(1)] by simp
  moreover have "typed s t" "gui_shows t"
    using kernel_steps_inv [OF relpowp_imp_rtranclp [OF assms(5)] assms(1-3)] by (simp_all add: kernel_inv_def kernel_up_def)
  ultimately show ?thesis
    by (auto simp: typed_def received_def gui_shows_def scancodes_append spell_typed Let_def)
qed

theorem window_keeps_up_witness:
  "\<exists>l (s :: kernel) t. kernel_inv l s \<and> (kernel_step typing_machine l ^^ 3) s t \<and>
    (\<exists>sc. gui_text t = fold text_key (typed_keys (have_e0 s) [sc]) (gui_text s))"
proof -
  have hw: "uart_ready typing_machine" "fb_mapped typing_machine" using typing_machine_ok(1) by (simp_all add: machine_ok_def)
  have room: "unat (image_end typing_machine) + 4096 \<le> 2 ^ 64" using boot_machine_room(2) by (simp add: typing_machine_ok(2))
  have "wp (kmain typing_machine 0x5000 (\<lambda>k. 0x1000) 0x1F000 (kernel_statics (replicate 2000 0x1234) (\<lambda>a. 0) boot_regs))
    (\<lambda>s. \<exists>l. kernel_inv l s)"
    by (rule wp_mono [OF kmain_wp [OF typing_machine_ok(1) room _ _ typing_machine_ok(4)]]) auto
  then obtain s l where s: "kernel_inv l (s :: kernel)" by (auto simp: wp_iff_Some)
  obtain t where t: "(kernel_step typing_machine l ^^ (3 * 1)) s t"
    using kernel_run_exists [OF s hw, of "3 * 1"] by blast
  obtain new where new: "length (scancodes new) = 1"
    "gui_text t = fold text_key (typed_keys (have_e0 s) (scancodes new)) (gui_text s)"
    using window_keeps_up [OF s hw typing_machine_ok(3) t] by (auto simp: Let_def)
  from new(1) obtain sc where "scancodes new = [sc]" by (auto simp: length_Suc_conv)
  with new(2) have "gui_text t = fold text_key (typed_keys (have_e0 s) [sc]) (gui_text s)" by (simp only:)
  with s t show ?thesis by (auto simp del: typed_keys.simps)
qed

text \<open>On a machine with nothing mapped at the framebuffer's address \<open>kernel_init\<close> never returns: the window's
  first pixel faults.\<close>

theorem boot_needs_framebuffer:
  assumes "mem8 hw FRAMEBUFFER_ADDR = None"
  shows "kernel_init hw kbd s = None"
proof -
  have "gui_init hw t = None" for t :: "'a kernel_scheme"
    using clear_fault [OF assms, of "fb_init t"] by (simp add: gui_init_def redraw_def fb_inv_def fb_init_def)
  then show ?thesis by (simp add: kernel_init_def Let_def bind_eq_None_conv)
qed

end
