(* ===== verification/Syscall.thy ===== *)
theory Syscall
  imports Kernel
begin

text \<open>
  \<open>src/kernel/syscall/syscall.c\<close>: the dispatcher of the two system calls. A string argument is the
  address of its characters in memory, read as they are written; the read may leave mapped
  memory or never find a terminator, so it is a \<open>partial_function\<close>.
\<close>

section \<open>Operations\<close>

text \<open>\<open>console_write\<close> on a pointer.\<close>

partial_function (option) console_write_at ::
    "hardware \<Rightarrow> nat \<Rightarrow> 'a console_scheme \<Rightarrow> 'a console_scheme option" where
  "console_write_at hw p s = do {
     b \<leftarrow> mem8 hw p;
     if b = 0 then Some s
     else do { s \<leftarrow> console_putc hw (char_of (unat b)) s; console_write_at hw (p + 1) s } }"

abbreviation SYS_CONSOLE_WRITE :: u32 where "SYS_CONSOLE_WRITE \<equiv> 0"
abbreviation SYS_YIELD :: u32 where "SYS_YIELD \<equiv> 1"

text \<open>For \<open>SYS_YIELD\<close> the state is the one after the switch, and the value is what the caller gets
  when it runs again.\<close>

definition syscall_dispatch ::
    "hardware \<Rightarrow> u32 \<Rightarrow> u32 \<Rightarrow> u32 \<Rightarrow> u32 \<Rightarrow> 'a kernel_scheme \<Rightarrow> (u32 \<times> 'a kernel_scheme) option" where
  "syscall_dispatch hw num arg0 arg1 arg2 s =
     (if num = SYS_CONSOLE_WRITE then do {
        s \<leftarrow> (if arg0 \<noteq> 0 then console_write_at hw (unat arg0) s else Some s);
        Some (0, s) }
      else if num = SYS_YIELD then Some (0, s\<lparr>ksched := sched_yield (ksched s)\<rparr>)
      else Some (-1, s))"

section \<open>Strings in memory\<close>

primrec string_at :: "hardware \<Rightarrow> nat \<Rightarrow> string \<Rightarrow> bool" where
  "string_at hw p [] \<longleftrightarrow> mem8 hw p = Some 0"
| "string_at hw p (c # cs) \<longleftrightarrow> c \<noteq> NUL \<and> mem8 hw p = Some (byte_of c) \<and> string_at hw (p + 1) cs"

lemma unat_byte_of: "unat (byte_of c) = of_char c"
  by (simp add: byte_of_def unat_of_nat)

lemma byte_of_zero: "byte_of c = 0 \<longleftrightarrow> c = NUL"
proof -
  have "byte_of c = 0 \<longleftrightarrow> (of_char c :: nat) = 0" using unat_byte_of [of c] unat_eq_zero [of "byte_of c"] by simp
  also have "\<dots> \<longleftrightarrow> c = NUL" using of_char_eq_iff [of c NUL, where 'a = nat] by simp
  finally show ?thesis .
qed

lemma string_no_NUL: "string_at hw p str \<Longrightarrow> NUL \<notin> set str"
  by (induction str arbitrary: p) auto

lemma write_at_eq: "string_at hw p str \<Longrightarrow> console_write_at hw p s = console_write hw (c_lit str) s"
proof (induction str arbitrary: p s)
  case Nil
  then show ?case by (simp add: console_write_at.simps c_lit_def)
next
  case (Cons c cs)
  then have "console_write_at hw p s = do { s \<leftarrow> console_putc hw c s; console_write_at hw (p + 1) s }"
    by (subst console_write_at.simps) (simp add: byte_of_zero unat_byte_of)
  then show ?case using Cons by (simp add: c_lit_def)
qed

section \<open>Properties\<close>

text \<open>C28. The system calls and their errors: writing prints exactly the string at the address and returns
  0, a null pointer is ignored, an address outside mapped memory faults; yielding switches to
  the next task of the queue; every other number returns \<open>(uint32_t)-1\<close> and does nothing. The
  second and third argument are never used.\<close>

theorem syscall_results:
  assumes "con_inv s" and "uart_ready hw"
  shows "(string_at hw (unat a) str \<and> a \<noteq> 0 \<longrightarrow>
      wp (syscall_dispatch hw SYS_CONSOLE_WRITE a b c s) (\<lambda>(r, t). r = 0 \<and> outputs str s t)) \<and>
    syscall_dispatch hw SYS_CONSOLE_WRITE 0 b c s = Some (0, s) \<and>
    (mem8 hw (unat a) = None \<and> a \<noteq> 0 \<longrightarrow> syscall_dispatch hw SYS_CONSOLE_WRITE a b c s = None) \<and>
    syscall_dispatch hw SYS_YIELD a b c s = Some (0, s\<lparr>ksched := context_switch (next_task (ksched s)) (ksched s)\<rparr>) \<and>
    (n \<notin> {SYS_CONSOLE_WRITE, SYS_YIELD} \<longrightarrow> syscall_dispatch hw n a b c s = Some (0xFFFFFFFF, s))"
proof -
  have "wp (syscall_dispatch hw SYS_CONSOLE_WRITE a b c s) (\<lambda>(r, t). r = 0 \<and> outputs str s t)"
    if "string_at hw (unat a) str" "a \<noteq> 0"
    using write_lit_outputs [OF assms(2,1) string_no_NUL [OF that(1)]] that(2) write_at_eq [OF that(1), of s]
    by (simp add: syscall_dispatch_def)
  then show ?thesis by (simp add: syscall_dispatch_def sched_yield_def console_write_at.simps)
qed

theorem syscall_results_witness:
  "syscall_dispatch boot_machine 7 1 2 3 (kernel_statics (replicate 2000 0) (\<lambda>a. 0) boot_regs) =
    Some (0xFFFFFFFF, kernel_statics (replicate 2000 0) (\<lambda>a. 0) boot_regs)"
proof -
  let ?s = "kernel_statics (replicate 2000 0) (\<lambda>a. 0) boot_regs"
  have "concat (replicate 25 (replicate 80 (0 :: u16))) = replicate 2000 0"
    by (simp add: numeral_eq_Suc replicate_add [symmetric])
  then have "mirrored ?s"
    by (simp add: mirrored_def kernel_statics_def gui_statics_def fb_statics_def acpi_statics_def inventory_statics_def
      pane_statics_def shell_statics_def console_statics_def gui.defs kernel.defs framebuffer.defs acpi.defs
      inventory.defs pane.defs shell.defs console.defs)
  moreover have "cursor_x ?s = 0" "cursor_y ?s = 0"
    by (simp_all add: kernel_statics_def gui_statics_def fb_statics_def acpi_statics_def inventory_statics_def
      pane_statics_def shell_statics_def console_statics_def gui.defs kernel.defs framebuffer.defs acpi.defs
      inventory.defs pane.defs shell.defs console.defs)
  ultimately have i: "con_inv ?s" using kernel_statics_ok(1) [of "replicate 2000 0"] by (simp add: con_inv_def)
  have "uart_ready boot_machine" using boot_machine_ok(1) by (simp add: machine_ok_def)
  from syscall_results [OF i this, of 1 "[]" 2 3 7] show ?thesis by simp
qed

end
