(* ===== verification/Boot_Loader.thy ===== *)
theory Boot_Loader
  imports Command
begin

text \<open>
  \<open>src/boot/bootloader.asm\<close> and \<open>src/kernel/entry.asm\<close>: from the boot sector to the call of \<open>kmain\<close>.
  The state is physical memory, byte by byte, the control and segment registers, and what went
  to the BIOS screen; a control-register or segment load that the processor refuses has no
  result. \<open>translate\<close> is the walk of the four-level page tables. The disk service of the BIOS is a
  parameter: for a number of sectors, their bytes or a failure. The lemmas show which addresses
  the tables map.
\<close>

section \<open>Memory\<close>

type_synonym memory = "nat \<Rightarrow> u8"

text \<open>\<open>mov dword [a], v\<close> and its inverse; a page-table entry is eight bytes.\<close>

definition st32 :: "nat \<Rightarrow> u32 \<Rightarrow> memory \<Rightarrow> memory" where
  "st32 a v m = m(a := ucast v, a + 1 := ucast (drop_bit 8 v), a + 2 := ucast (drop_bit 16 v),
     a + 3 := ucast (drop_bit 24 v))"

definition ld32 :: "memory \<Rightarrow> nat \<Rightarrow> u32" where
  "ld32 m a = ucast (m a) OR push_bit 8 (ucast (m (a + 1))) OR push_bit 16 (ucast (m (a + 2))) OR
     push_bit 24 (ucast (m (a + 3)))"

definition entry_at :: "memory \<Rightarrow> nat \<Rightarrow> u64" where
  "entry_at m a = ucast (ld32 m a) OR push_bit 32 (ucast (ld32 m (a + 4)))"

primrec store_bytes :: "nat \<Rightarrow> u8 list \<Rightarrow> memory \<Rightarrow> memory" where
  "store_bytes a [] m = m"
| "store_bytes a (b # bs) m = store_bytes (Suc a) bs (m(a := b))"

section \<open>Paging structures\<close>

abbreviation pml4 :: nat where "pml4 \<equiv> 0x8000"
abbreviation pdpt :: nat where "pdpt \<equiv> 0x9000"
abbreviation pd :: nat where "pd \<equiv> 0xA000"
abbreviation pd2 :: nat where "pd2 \<equiv> 0xB000"

text \<open>One round of \<open>setup_pd\<close> and of \<open>setup_pd2\<close>; both loops run \<open>ecx\<close> from 0 to 511.\<close>

definition pd_round :: "nat \<Rightarrow> memory \<Rightarrow> memory" where
  "pd_round ecx m = st32 (pd + ecx * 8 + 4) 0 (st32 (pd + ecx * 8) (push_bit 21 (of_nat ecx) OR 0x83) m)"

definition pd2_round :: "nat \<Rightarrow> memory \<Rightarrow> memory" where
  "pd2_round ecx m =
     st32 (pd2 + ecx * 8 + 4) 0 (st32 (pd2 + ecx * 8) ((push_bit 21 (of_nat ecx) + 0x40000000) OR 0x83) m)"

definition build_tables :: "memory \<Rightarrow> memory" where
  "build_tables m =
     (let m = st32 pml4 (of_nat pdpt OR 0x03) m; m = st32 (pml4 + 4) 0 m;
          m = st32 pdpt (of_nat pd OR 0x03) m; m = st32 (pdpt + 4) 0 m;
          m = st32 (pdpt + 8) (of_nat pd2 OR 0x03) m; m = st32 (pdpt + 12) 0 m;
          m = fold pd_round [0..<512] m
      in fold pd2_round [0..<512] m)"

section \<open>Translation of addresses\<close>

text \<open>The processor's walk from the table at \<open>root\<close>: bit 0 of an entry says that it is present, bit 7 in
  the second and third level that it maps a page itself. Addresses that are not canonical, and
  those that meet an absent entry, fault.\<close>

definition table_index :: "nat \<Rightarrow> nat \<Rightarrow> nat" where
  "table_index level a = a div 2 ^ (12 + 9 * level) mod 512"

definition frame_of :: "nat \<Rightarrow> u64 \<Rightarrow> nat" where
  "frame_of k e = unat (take_bit 52 e) div 2 ^ k * 2 ^ k"

definition walk :: "memory \<Rightarrow> nat \<Rightarrow> nat \<Rightarrow> nat \<Rightarrow> u64 option" where
  "walk m table level a = (let e = entry_at m (table + 8 * table_index level a) in if bit e 0 then Some e else None)"

definition translate :: "memory \<Rightarrow> nat \<Rightarrow> nat \<Rightarrow> nat option" where
  "translate m root a =
     (if 2 ^ 47 \<le> a \<and> a < 2 ^ 64 - 2 ^ 47 \<or> 2 ^ 64 \<le> a then None else do {
        e \<leftarrow> walk m root 3 a;
        e \<leftarrow> walk m (frame_of 12 e) 2 a;
        if bit e 7 then Some (frame_of 30 e + a mod 2 ^ 30) else do {
          e \<leftarrow> walk m (frame_of 12 e) 1 a;
          if bit e 7 then Some (frame_of 21 e + a mod 2 ^ 21) else do {
            e \<leftarrow> walk m (frame_of 12 e) 0 a;
            Some (frame_of 12 e + a mod 2 ^ 12) } } })"

section \<open>The processor\<close>

text \<open>\<open>cs_cache\<close> is the descriptor that the last load of \<open>cs\<close> fetched: it, not the table, decides the mode.\<close>

record bootstate = io +
  mem :: memory
  tele :: string
  cr0 :: u32
  cr3 :: nat
  cr4 :: u32
  efer :: u32
  gdtr :: "u64 list"
  cs :: u16
  cs_cache :: u64
  ds :: u16
  es :: u16
  ss :: u16
  sp :: nat
  ip :: nat

definition descriptor :: "u64 list \<Rightarrow> u16 \<Rightarrow> u64 option" where
  "descriptor g sel = (let i = unat sel div 8 in if 0 < i \<and> i < length g then Some (g ! i) else None)"

text \<open>Paging needs protection, and in long mode also \<open>PAE\<close>; \<open>LME\<close> cannot change while paging is on; a far jump
  needs a present code segment (for 64 bits, not also a 32-bit one); a data segment register a
  present, writable data segment.\<close>

definition set_cr0 :: "u32 \<Rightarrow> 'a bootstate_scheme \<Rightarrow> 'a bootstate_scheme option" where
  "set_cr0 v s =
     (if bit v 31 \<and> (\<not> bit v 0 \<or> bit (efer s) 8 \<and> \<not> bit (cr4 s) 5) then None else Some (s\<lparr>cr0 := v\<rparr>))"

definition set_efer :: "u32 \<Rightarrow> 'a bootstate_scheme \<Rightarrow> 'a bootstate_scheme option" where
  "set_efer v s = (if bit (cr0 s) 31 \<and> bit v 8 \<noteq> bit (efer s) 8 then None else Some (s\<lparr>efer := v\<rparr>))"

definition far_jump :: "u16 \<Rightarrow> 'a bootstate_scheme \<Rightarrow> 'a bootstate_scheme option" where
  "far_jump sel s = do {
     d \<leftarrow> descriptor (gdtr s) sel;
     if bit d 47 \<and> bit d 44 \<and> bit d 43 \<and> \<not> (bit d 53 \<and> bit d 54)
     then Some (s\<lparr>cs := sel, cs_cache := d\<rparr>) else None }"

definition load_data :: "u16 \<Rightarrow> 'a bootstate_scheme \<Rightarrow> 'a bootstate_scheme option" where
  "load_data sel s = do {
     d \<leftarrow> descriptor (gdtr s) sel;
     if bit d 47 \<and> bit d 44 \<and> \<not> bit d 43 \<and> bit d 41 then Some (s\<lparr>ds := sel, es := sel, ss := sel\<rparr>) else None }"

definition long_mode :: "'a bootstate_scheme \<Rightarrow> bool" where
  "long_mode s \<longleftrightarrow> bit (cr0 s) 0 \<and> bit (cr0 s) 31 \<and> bit (cr4 s) 5 \<and> bit (efer s) 8 \<and> bit (cs_cache s) 53"

section \<open>bootloader.asm\<close>

definition boot_gdt :: "u64 list" where
  "boot_gdt = [0x0000000000000000, 0x00CF9A000000FFFF, 0x00CF92000000FFFF, 0x00AF9A000000FFFF, 0x00AF92000000FFFF]"

abbreviation CODE32_SEL :: u16 where "CODE32_SEL \<equiv> 0x08"
abbreviation DATA32_SEL :: u16 where "DATA32_SEL \<equiv> 0x10"
abbreviation CODE64_SEL :: u16 where "CODE64_SEL \<equiv> 0x18"
abbreviation DATA64_SEL :: u16 where "DATA64_SEL \<equiv> 0x20"

definition err_msg :: string where
  "err_msg = ''Disk read failure'' @ [NUL]"

definition boot_serial_init :: "'a io_scheme \<Rightarrow> 'a io_scheme" where
  "boot_serial_init s =
     (let s = outb (SERIAL_PORT + 1) 0x00 s; s = outb (SERIAL_PORT + 3) 0x80 s;
          s = outb (SERIAL_PORT + 0) 0x01 s; s = outb (SERIAL_PORT + 1) 0x00 s;
          s = outb (SERIAL_PORT + 3) 0x03 s; s = outb (SERIAL_PORT + 2) 0xC7 s
      in outb (SERIAL_PORT + 4) 0x0B s)"

fun print_string :: "hardware \<Rightarrow> string \<Rightarrow> 'a bootstate_scheme \<Rightarrow> 'a bootstate_scheme option" where
  "print_string hw [] s = None"
| "print_string hw (c # str) s =
     (if c = NUL then Some s else do {
        s \<leftarrow> serial_wait hw (s\<lparr>tele := tele s @ [c]\<rparr>);
        print_string hw str (outb SERIAL_PORT (byte_of c) s) })"

text \<open>From \<open>lgdt\<close> to the jump into the kernel, and the whole boot sector. \<open>boot_drive\<close> is the address of that
  variable, \<open>dl\<close> the drive number from the firmware, \<open>sectors\<close> is \<open>KERNEL_SECTORS\<close>, of which \<open>al\<close> takes
  eight bits. What calls push on the stack below \<open>0x7C00\<close> is left out.\<close>

definition enter_protected :: "'a bootstate_scheme \<Rightarrow> 'a bootstate_scheme option" where
  "enter_protected s = do {
     let s = s\<lparr>gdtr := boot_gdt\<rparr>;
     s \<leftarrow> set_cr0 (cr0 s OR 0x1) s;
     s \<leftarrow> far_jump CODE32_SEL s;
     s \<leftarrow> load_data DATA32_SEL s;
     Some (s\<lparr>sp := 0x7C00\<rparr>) }"

definition enter_long :: "'a bootstate_scheme \<Rightarrow> 'a bootstate_scheme option" where
  "enter_long s = do {
     let s = s\<lparr>mem := build_tables (mem s)\<rparr>;
     let s = s\<lparr>cr3 := pml4\<rparr>;
     let s = s\<lparr>cr4 := cr4 s OR 0x20\<rparr>;
     s \<leftarrow> set_efer (efer s OR 0x100) s;
     s \<leftarrow> set_cr0 (cr0 s OR 0x80000000) s;
     s \<leftarrow> far_jump CODE64_SEL s;
     s \<leftarrow> load_data DATA64_SEL s;
     Some (s\<lparr>sp := 0x90000, ip := 0x1000\<rparr>) }"

definition boot_loader :: "hardware \<Rightarrow> (u8 \<Rightarrow> nat \<Rightarrow> bool \<times> u8 list) \<Rightarrow> nat \<Rightarrow> u8 \<Rightarrow> nat \<Rightarrow>
    'a bootstate_scheme \<Rightarrow> 'a bootstate_scheme control option" where
  "boot_loader hw bios boot_drive dl sectors s =
     (let s = s\<lparr>ds := 0, ss := 0, sp := 0x7C00\<rparr>;
          s = s\<lparr>mem := (mem s)(boot_drive := dl)\<rparr>;
          s = boot_serial_init s;
          s = s\<lparr>es := 0\<rparr>;
          (carry, content) = bios (mem s boot_drive) (sectors mod 256);
          s = s\<lparr>mem := store_bytes 0x1000 content (mem s)\<rparr> in
      if carry then do { s \<leftarrow> print_string hw err_msg s; Some (Halted s) }
      else do { s \<leftarrow> enter_protected s; continue (enter_long s) })"

section \<open>entry.asm\<close>

text \<open>Up to the call of \<open>kmain\<close>, whose return address \<open>ret\<close> is pushed.\<close>

definition entry_gdt :: "u64 list" where
  "entry_gdt = [0x0000000000000000, 0x00AF9A000000FFFF, 0x00AF92000000FFFF]"

definition kernel_entry :: "u64 \<Rightarrow> 'a bootstate_scheme \<Rightarrow> 'a bootstate_scheme option" where
  "kernel_entry ret s = do {
     let s = s\<lparr>gdtr := entry_gdt\<rparr>;
     s \<leftarrow> load_data 0x10 s;
     let s = s\<lparr>sp := 0x90000\<rparr>;
     let s = s\<lparr>sp := sp s - 8\<rparr>;
     Some (s\<lparr>mem := st32 (sp s + 4) (ucast (drop_bit 32 ret)) (st32 (sp s) (ucast ret) (mem s))\<rparr>) }"

section \<open>Reading back what was stored\<close>

lemma ld32_st32: "ld32 (st32 a v m) a = v"
proof (rule bit_word_eqI)
  fix n assume "n < LENGTH(32)"
  then consider "n < 8" | "8 \<le> n" "n < 16" | "16 \<le> n" "n < 24" | "24 \<le> n" "n < 32" by force
  then show "bit (ld32 (st32 a v m) a) n = bit v n"
    by cases (auto simp: ld32_def st32_def bit_simps less_diff_conv2)
qed

lemma ld32_st32_other: "b + 4 \<le> a \<or> a + 4 \<le> b \<Longrightarrow> ld32 (st32 a v m) b = ld32 m b"
  by (auto simp: ld32_def st32_def)

lemma st32_other: "b < a \<or> a + 4 \<le> b \<Longrightarrow> st32 a v m b = m b"
  by (auto simp: st32_def)

text \<open>An entry of two stores.\<close>

definition st_entry :: "nat \<Rightarrow> u32 \<Rightarrow> memory \<Rightarrow> memory" where
  "st_entry a v m = st32 (a + 4) 0 (st32 a v m)"

lemma entry_st_entry: "entry_at (st_entry a v m) a = ucast v"
  by (simp add: entry_at_def st_entry_def ld32_st32 ld32_st32_other)

lemma entry_st_entry_other: "b + 8 \<le> a \<or> a + 8 \<le> b \<Longrightarrow> entry_at (st_entry a v m) b = entry_at m b"
  by (auto simp: entry_at_def st_entry_def ld32_st32_other)

lemma st_entry_other: "b < a \<or> a + 8 \<le> b \<Longrightarrow> st_entry a v m b = m b"
  by (auto simp: st_entry_def st32_other)

text \<open>A table filled entry by entry.\<close>

lemma fill_table:
  assumes "n \<le> 512"
  shows "j < n \<Longrightarrow> entry_at (fold (\<lambda>i. st_entry (t + i * 8) (f i)) [0..<n] m) (t + 8 * j) = ucast (f j)"
    and "b + 8 \<le> t \<or> t + 4096 \<le> b \<Longrightarrow> entry_at (fold (\<lambda>i. st_entry (t + i * 8) (f i)) [0..<n] m) b = entry_at m b"
    and "b < t \<or> t + 4096 \<le> b \<Longrightarrow> fold (\<lambda>i. st_entry (t + i * 8) (f i)) [0..<n] m b = m b"
  using assms
proof (induction n)
  case (Suc n)
  {
    case 1
    then show ?case
      using Suc.IH(1) by (cases "j = n") (auto simp: entry_st_entry entry_st_entry_other mult.commute)
  next
    case 2
    then show ?case using Suc.IH(2) by (auto simp: entry_st_entry_other)
  next
    case 3
    then show ?case using Suc.IH(3) by (auto simp: st_entry_other)
  }
qed simp_all

section \<open>The tables of the boot loader\<close>

text \<open>The value of a page-directory entry: page \<open>k\<close> of 2 MiB, present, writable, large.\<close>

definition large_page :: "nat \<Rightarrow> u32" where
  "large_page k = push_bit 21 (of_nat k) OR 0x83"

lemma large_page_entry:
  assumes "k < 1024"
  shows "bit (ucast (large_page k) :: u64) 0" "bit (ucast (large_page k) :: u64) 7"
    and "frame_of 21 (ucast (large_page k)) = k * 2 ^ 21"
proof -
  show "bit (ucast (large_page k) :: u64) 0" "bit (ucast (large_page k) :: u64) 7"
    by (simp_all add: large_page_def bit_simps)
  have k: "\<not> bit k n" if "10 \<le> n" for n
    using power_increasing [OF that, of "2 :: nat"] assms by (simp add: bit_iff_odd)
  have "drop_bit 21 (take_bit 52 (ucast (large_page k) :: u64)) = of_nat k"
  proof (rule bit_word_eqI)
    fix n assume "n < LENGTH(64)"
    have "\<not> bit (0x83 :: u32) (21 + n)" by (rule bit_above [of _ 8]) simp_all
    then show "bit (drop_bit 21 (take_bit 52 (ucast (large_page k) :: u64))) n = bit (of_nat k :: u64) n"
      using k [of n] by (cases "n < 10") (auto simp: large_page_def bit_simps bit_of_nat_iff_bit)
  qed
  from arg_cong [OF this, of unat] have "unat (take_bit 52 (ucast (large_page k) :: u64)) div 2 ^ 21 = k"
    using assms by (simp add: drop_bit_eq_div unat_div unat_of_nat)
  then show "frame_of 21 (ucast (large_page k)) = k * 2 ^ 21" by (simp add: frame_of_def)
qed

lemma build_tables_eq:
  "build_tables m = fold (\<lambda>i. st_entry (pd2 + i * 8) (large_page (i + 512))) [0..<512]
     (fold (\<lambda>i. st_entry (pd + i * 8) (large_page i)) [0..<512]
       (st_entry (pdpt + 8) 0xB003 (st_entry pdpt 0xA003 (st_entry pml4 0x9003 m))))"
proof -
  have "push_bit 21 (of_nat i) + 0x40000000 = push_bit 21 (of_nat (i + 512) :: u32)" for i
    by (simp add: push_bit_eq_mult distrib_right)
  then have "pd2_round = (\<lambda>i. st_entry (pd2 + i * 8) (large_page (i + 512)))"
    by (intro ext) (simp add: pd2_round_def st_entry_def large_page_def)
  moreover have "pd_round = (\<lambda>i. st_entry (pd + i * 8) (large_page i))"
    by (intro ext) (simp add: pd_round_def st_entry_def large_page_def)
  ultimately show ?thesis by (simp add: build_tables_def st_entry_def Let_def)
qed

lemma build_tables_entries:
  shows "entry_at (build_tables m) pml4 = 0x9003" "entry_at (build_tables m) pdpt = 0xA003"
    "entry_at (build_tables m) (pdpt + 8) = 0xB003"
    and "j < 512 \<Longrightarrow> entry_at (build_tables m) (pd + 8 * j) = ucast (large_page j)"
    and "j < 512 \<Longrightarrow> entry_at (build_tables m) (pd2 + 8 * j) = ucast (large_page (j + 512))"
    and "pml4 + 8 \<le> b \<and> b + 8 \<le> pdpt \<or> pdpt + 16 \<le> b \<and> b + 8 \<le> pd \<Longrightarrow> entry_at (build_tables m) b = entry_at m b"
    and "a < pml4 \<or> 0xC000 \<le> a \<Longrightarrow> build_tables m a = m a"
proof -
  note pd1 = fill_table [OF order_refl, where t = pd and f = large_page]
    and pd2 = fill_table [OF order_refl, where t = pd2 and f = "\<lambda>i. large_page (i + 512)"]
  show "entry_at (build_tables m) pml4 = 0x9003" "entry_at (build_tables m) pdpt = 0xA003"
    "entry_at (build_tables m) (pdpt + 8) = 0xB003"
    by (simp_all add: build_tables_eq pd1(2) pd2(2) entry_st_entry entry_st_entry_other)
  show "j < 512 \<Longrightarrow> entry_at (build_tables m) (pd + 8 * j) = ucast (large_page j)"
    "j < 512 \<Longrightarrow> entry_at (build_tables m) (pd2 + 8 * j) = ucast (large_page (j + 512))"
    using pd1(1) [of j] pd2(1) [of j] by (simp_all add: build_tables_eq pd2(2))
  show "entry_at (build_tables m) b = entry_at m b"
    if "pml4 + 8 \<le> b \<and> b + 8 \<le> pdpt \<or> pdpt + 16 \<le> b \<and> b + 8 \<le> pd"
    using that by (auto simp: build_tables_eq pd1(2) pd2(2) entry_st_entry_other)
  show "build_tables m a = m a" if "a < pml4 \<or> 0xC000 \<le> a"
    using that by (auto simp: build_tables_eq pd1(3) pd2(3) st_entry_other)
qed

section \<open>What the tables map\<close>

lemma entry_at_zero: "(\<And>i. i < 8 \<Longrightarrow> m (a + i) = 0) \<Longrightarrow> entry_at m a = 0"
proof -
  assume z: "\<And>i. i < 8 \<Longrightarrow> m (a + i) = 0"
  from z [of 0] z [of 1] z [of 2] z [of 3] z [of 4] z [of 5] z [of 6] z [of 7]
  show ?thesis by (simp add: entry_at_def ld32_def ac_simps)
qed

text \<open>The tables as the loader leaves them. It does not clear the rest of the two upper ones, so what they
  map beyond the first 2 GiB depends on what the memory held.\<close>

definition tables_clear :: "memory \<Rightarrow> bool" where
  "tables_clear m \<longleftrightarrow> (\<forall>a. pml4 + 8 \<le> a \<and> a < pdpt \<or> pdpt + 16 \<le> a \<and> a < pd \<longrightarrow> m a = 0)"

definition tables_built :: "memory \<Rightarrow> bool" where
  "tables_built m \<longleftrightarrow> entry_at m pml4 = 0x9003 \<and> entry_at m pdpt = 0xA003 \<and> entry_at m (pdpt + 8) = 0xB003 \<and>
     (\<forall>j < 512. entry_at m (pd + 8 * j) = ucast (large_page j) \<and> entry_at m (pd2 + 8 * j) = ucast (large_page (j + 512)))"

definition tables_end :: "memory \<Rightarrow> bool" where
  "tables_end m \<longleftrightarrow> (\<forall>i. 0 < i \<and> i < 512 \<longrightarrow> entry_at m (pml4 + 8 * i) = 0) \<and>
     (\<forall>i. 2 \<le> i \<and> i < 512 \<longrightarrow> entry_at m (pdpt + 8 * i) = 0)"

lemma build_tables_built: "tables_built (build_tables m)"
  using build_tables_entries(3) [of m]
  by (simp add: tables_built_def build_tables_entries(1,2,4,5))

lemma build_tables_end:
  assumes "tables_clear m"
  shows "tables_end (build_tables m)"
proof -
  have "entry_at m (pml4 + 8 * i) = 0" if "0 < i" "i < 512" for i
    using assms that by (auto intro!: entry_at_zero simp: tables_clear_def)
  moreover have "entry_at m (pdpt + 8 * i) = 0" if "2 \<le> i" "i < 512" for i
    using assms that by (auto intro!: entry_at_zero simp: tables_clear_def)
  ultimately show ?thesis by (simp add: tables_end_def build_tables_entries(6))
qed

text \<open>Stores elsewhere do not matter.\<close>

lemma entry_at_st32: "b + 8 \<le> a \<Longrightarrow> entry_at (st32 a v m) b = entry_at m b"
  by (simp add: entry_at_def ld32_st32_other)

lemma tables_st32:
  assumes "0xC000 \<le> a"
  shows "tables_built (st32 a v m) = tables_built m" "tables_end (st32 a v m) = tables_end m"
  using assms by (auto simp: tables_built_def tables_end_def entry_at_st32)

lemma walk_Some: "entry_at m (t + 8 * table_index k a) = e \<Longrightarrow> bit e 0 \<Longrightarrow> walk m t k a = Some e"
  by (simp add: walk_def)

lemma translate_large:
  assumes "walk m root 3 a = Some e3" and "walk m (frame_of 12 e3) 2 a = Some e2" and "\<not> bit e2 7"
    and "walk m (frame_of 12 e2) 1 a = Some e1" and "bit e1 7" and "a < 2 ^ 47"
  shows "translate m root a = Some (frame_of 21 e1 + a mod 2 ^ 21)"
  using assms by (simp add: translate_def)

text \<open>The first 2 GiB are mapped to themselves.\<close>

lemma translate_low:
  assumes "tables_built m" and "a < 2 ^ 31"
  shows "translate m pml4 a = Some a"
proof -
  note e = assms(1) [unfolded tables_built_def]
  define g j where "g = table_index 2 a" and "j = table_index 1 a"
  have i: "table_index 3 a = 0" "g = a div 2 ^ 30" using assms(2) by (simp_all add: table_index_def g_def)
  have "j = a div 2 ^ 21 mod 512" by (simp add: table_index_def j_def)
  moreover have "a div 2 ^ 21 = a div 2 ^ 30 * 512 + a div 2 ^ 21 mod 512"
    using div_mult_mod_eq [of "a div 2 ^ 21" 512] by (simp add: div_mult2_eq [symmetric])
  ultimately have j: "j < 512" "a div 2 ^ 21 = g * 512 + j" using i(2) by simp_all
  have a: "a div 2 ^ 21 * 2 ^ 21 + a mod 2 ^ 21 = a" by (rule div_mult_mod_eq)
  have f: "frame_of 12 (0x9003 :: u64) = pdpt" "frame_of 12 (0xA003 :: u64) = pd" "frame_of 12 (0xB003 :: u64) = pd2"
    by (simp_all add: frame_of_def take_bit_eq_mod)
  have b: "bit (0x9003 :: u64) 0" "bit (0xA003 :: u64) 0" "bit (0xB003 :: u64) 0"
    "\<not> bit (0xA003 :: u64) 7" "\<not> bit (0xB003 :: u64) 7" by (simp_all add: bit_iff_odd)
  have one: "walk m pml4 3 a = Some 0x9003"
    by (rule walk_Some) (simp_all add: i e b)
  have small: "a < 2 ^ 47" using assms(2) by simp
  have "g = 0 \<or> g = 1" using assms(2) i(2) by auto
  then show ?thesis
  proof
    assume g: "g = 0"
    have two: "walk m (frame_of 12 0x9003) 2 a = Some 0xA003"
      unfolding f by (rule walk_Some) (simp_all add: g [unfolded g_def] e b)
    have three: "walk m (frame_of 12 0xA003) 1 a = Some (ucast (large_page j))"
      unfolding f by (rule walk_Some) (use j(1) in \<open>simp_all only: j_def [symmetric] e large_page_entry\<close>)
    have "translate m pml4 a = Some (frame_of 21 (ucast (large_page j)) + a mod 2 ^ 21)"
      by (rule translate_large [OF one two b(4) three _ small]) (use j(1) in \<open>simp add: large_page_entry\<close>)
    then show ?thesis using large_page_entry(3) [of j] j a g by simp
  next
    assume g: "g = 1"
    have two: "walk m (frame_of 12 0x9003) 2 a = Some 0xB003"
      unfolding f by (rule walk_Some) (use e in \<open>simp_all add: g [unfolded g_def] b\<close>)
    have three: "walk m (frame_of 12 0xB003) 1 a = Some (ucast (large_page (j + 512)))"
      unfolding f
    by (rule walk_Some) (use j(1) large_page_entry(1) [of "j + 512"] in \<open>simp_all only: j_def [symmetric] e\<close>)
    have "translate m pml4 a = Some (frame_of 21 (ucast (large_page (j + 512))) + a mod 2 ^ 21)"
      by (rule translate_large [OF one two b(5) three _ small]) (use j(1) in \<open>simp add: large_page_entry\<close>)
    then show ?thesis using large_page_entry(3) [of "j + 512"] j a g by simp
  qed
qed

text \<open>Nothing else is, when the two upper tables end there.\<close>

lemma translate_high:
  assumes "tables_built m" and "tables_end m" and "2 ^ 31 \<le> a"
  shows "translate m pml4 a = None"
proof (cases "2 ^ 47 \<le> a \<and> a < 2 ^ 64 - 2 ^ 47 \<or> 2 ^ 64 \<le> a")
  case True
  then show ?thesis by (simp add: translate_def)
next
  case canonical: False
  show ?thesis
  proof (cases "a < 2 ^ 39")
    case True
    have "2 \<le> a div 2 ^ 30" "a div 2 ^ 30 < 512" using assms(3) True by auto
    then have "2 \<le> table_index 2 a" "table_index 2 a < 512" by (simp_all add: table_index_def)
    then have "entry_at m (pdpt + 8 * table_index 2 a) = 0" using assms(2) by (simp add: tables_end_def)
    moreover have "table_index 3 a = 0" using True by (simp add: table_index_def)
    moreover have "frame_of 12 (0x9003 :: u64) = pdpt" by (simp add: frame_of_def take_bit_eq_mod)
    ultimately show ?thesis using assms(1) by (simp add: translate_def walk_def tables_built_def)
  next
    case False
    have "0 < table_index 3 a"
    proof (cases "a < 2 ^ 47")
      case True
      then show ?thesis using False by (simp add: table_index_def)
    next
      case high: False
      have "2 ^ 25 - 256 \<le> a div 2 ^ 39" "a div 2 ^ 39 < 2 ^ 25" using canonical high by auto
      then obtain k where "a div 2 ^ 39 = 2 ^ 25 - 256 + k" "k < 256"
        using le_Suc_ex by fastforce
      moreover have "(2 ^ 25 - 256 + k) mod 512 = (2 ^ 25 - 256) mod 512 + k"
        using \<open>k < 256\<close> mod_add_left_eq [of "2 ^ 25 - 256" 512 k] by simp
      ultimately show ?thesis by (simp add: table_index_def)
    qed
    moreover have "table_index 3 a < 512" by (simp add: table_index_def)
    ultimately have "entry_at m (pml4 + 8 * table_index 3 a) = 0"
      using assms(2) by (simp add: tables_end_def)
    then show ?thesis by (simp add: translate_def walk_def)
  qed
qed

section \<open>Properties\<close>

lemma boot_descriptors:
  "descriptor boot_gdt CODE32_SEL = Some 0x00CF9A000000FFFF" "descriptor boot_gdt DATA32_SEL = Some 0x00CF92000000FFFF"
  "descriptor boot_gdt CODE64_SEL = Some 0x00AF9A000000FFFF" "descriptor boot_gdt DATA64_SEL = Some 0x00AF92000000FFFF"
  by (simp_all add: descriptor_def boot_gdt_def)

lemma descriptor_bits:
  "bit (0x00CF9A000000FFFF :: u64) 47" "bit (0x00CF9A000000FFFF :: u64) 44" "bit (0x00CF9A000000FFFF :: u64) 43"
  "\<not> bit (0x00CF9A000000FFFF :: u64) 53"
  "bit (0x00AF9A000000FFFF :: u64) 47" "bit (0x00AF9A000000FFFF :: u64) 44" "bit (0x00AF9A000000FFFF :: u64) 43"
  "bit (0x00AF9A000000FFFF :: u64) 53" "\<not> bit (0x00AF9A000000FFFF :: u64) 54"
  "bit (0x00CF92000000FFFF :: u64) 47" "bit (0x00CF92000000FFFF :: u64) 44" "\<not> bit (0x00CF92000000FFFF :: u64) 43"
  "bit (0x00CF92000000FFFF :: u64) 41"
  "bit (0x00AF92000000FFFF :: u64) 47" "bit (0x00AF92000000FFFF :: u64) 44" "\<not> bit (0x00AF92000000FFFF :: u64) 43"
  "bit (0x00AF92000000FFFF :: u64) 41"
  by (simp_all add: bit_iff_odd)

lemma control_bits:
  "bit (w OR 0x1 :: u32) n \<longleftrightarrow> bit w n \<or> n = 0" "bit (w OR 0x20 :: u32) n \<longleftrightarrow> bit w n \<or> n = 5"
  "bit (w OR 0x100 :: u32) n \<longleftrightarrow> bit w n \<or> n = 8" "bit (w OR 0x80000000 :: u32) n \<longleftrightarrow> bit w n \<or> n = 31"
  using bit_exp_iff [where 'a = u32, of 0 n] bit_exp_iff [where 'a = u32, of 5 n]
    bit_exp_iff [where 'a = u32, of 8 n] bit_exp_iff [where 'a = u32, of 31 n]
  by (auto simp: bit_or_iff bit_1_iff)

lemma enter_protected_eq:
  assumes "\<not> bit (cr0 s) 31"
  shows "enter_protected s = Some (s\<lparr>gdtr := boot_gdt, cr0 := cr0 s OR 1, cs := CODE32_SEL,
    cs_cache := 0x00CF9A000000FFFF, ds := DATA32_SEL, es := DATA32_SEL, ss := DATA32_SEL, sp := 0x7C00\<rparr>)"
  using assms
  by (simp add: enter_protected_def set_cr0_def far_jump_def load_data_def boot_descriptors descriptor_bits control_bits)

lemma enter_long_eq:
  assumes "\<not> bit (cr0 s) 31" and "bit (cr0 s) 0" and "gdtr s = boot_gdt"
  shows "enter_long s = Some (s\<lparr>mem := build_tables (mem s), cr3 := pml4, cr4 := cr4 s OR 0x20, efer := efer s OR 0x100,
    cr0 := cr0 s OR 0x80000000, cs := CODE64_SEL, cs_cache := 0x00AF9A000000FFFF, ds := DATA64_SEL, es := DATA64_SEL,
    ss := DATA64_SEL, sp := 0x90000, ip := 0x1000\<rparr>)"
  using assms
  by (simp add: enter_long_def set_cr0_def set_efer_def far_jump_def load_data_def boot_descriptors descriptor_bits
      control_bits)

lemma store_bytes_at:
  "store_bytes a bs m b = (if a \<le> b \<and> b < a + length bs then bs ! (b - a) else m b)"
  by (induction bs arbitrary: a m) (auto simp: nth_Cons' Suc_diff_Suc)

lemma boot_serial_fields:
  fixes s :: "'a bootstate_scheme"
  shows "boot_serial_init s = s\<lparr>trace := trace (boot_serial_init s)\<rparr>"
    and "serial_out (trace (boot_serial_init s)) = serial_out (trace s) @ [1]"
  by (simp_all add: boot_serial_init_def outb_def)


text \<open>Up to the disk access.\<close>

lemma boot_start:
  fixes s :: "'a bootstate_scheme"
  assumes "bios dl (n mod 256) = (carry, content)"
  obtains u where "boot_loader hw bios bd dl n s =
      (if carry then do { s \<leftarrow> print_string hw err_msg u; Some (Halted s) }
       else do { s \<leftarrow> enter_protected u; continue (enter_long s) })"
    "mem u = store_bytes 0x1000 content ((mem s)(bd := dl))" "cr0 u = cr0 s" "tele u = tele s"
    "serial_out (trace u) = serial_out (trace s) @ [1]"
proof -
  define v where "v = s\<lparr>ds := 0, ss := 0, sp := 0x7C00, mem := (mem s)(bd := dl)\<rparr>"
  define u where "u = (boot_serial_init v)\<lparr>es := 0\<rparr>"
  have u: "u = v\<lparr>trace := trace u, es := 0\<rparr>"
    unfolding u_def by (subst boot_serial_fields(1)) simp
  have f: "mem u = (mem s)(bd := dl)" "cr0 u = cr0 s" "tele u = tele s"
    by (subst u, simp add: v_def)+
  have "serial_out (trace u) = serial_out (trace s) @ [1]"
    unfolding u_def by (simp add: boot_serial_fields(2)) (simp add: v_def)
  moreover have "mem (boot_serial_init v) = (mem s)(bd := dl)" by (subst boot_serial_fields(1)) (simp add: v_def)
  ultimately show thesis
    using f assms by (intro that [of "u\<lparr>mem := store_bytes 0x1000 content (mem u)\<rparr>"])
      (simp_all add: boot_loader_def u_def [symmetric] v_def [symmetric])
qed

lemma boot_loader_run:
  fixes s :: "'a bootstate_scheme"
  assumes "bios dl (n mod 256) = (False, content)" and "0x1000 + length content \<le> 0x7A00" and "\<not> bit (cr0 s) 31"
    and "tables_clear (mem s)" and "0x7C00 \<le> bd" and "bd < 0x7E00"
  obtains t where "boot_loader hw bios bd dl n s = Some (Continue t)" "long_mode t" "cs t = CODE64_SEL" "ip t = 0x1000"
    "sp t = 0x90000" "cr3 t = pml4" "tables_built (mem t)" "tables_end (mem t)"
    "\<And>a. a < pml4 \<or> 0xC000 \<le> a \<Longrightarrow> mem t a = store_bytes 0x1000 content ((mem s)(bd := dl)) a"
proof -
  obtain u where u: "boot_loader hw bios bd dl n s = do { s \<leftarrow> enter_protected u; continue (enter_long s) }"
    "mem u = store_bytes 0x1000 content ((mem s)(bd := dl))" "cr0 u = cr0 s"
    using boot_start [where bios = bios and dl = dl and n = n and hw = hw and bd = bd and s = s, OF assms(1)] by auto
  have c: "\<not> bit (cr0 u) 31" "mem u = store_bytes 0x1000 content ((mem s)(bd := dl))"
    using assms(3) u(2,3) by simp_all
  define t where "t = u\<lparr>mem := build_tables (mem u), cr3 := pml4, cr4 := cr4 u OR 0x20, efer := efer u OR 0x100,
    cr0 := (cr0 u OR 1) OR 0x80000000, gdtr := boot_gdt, cs := CODE64_SEL, cs_cache := 0x00AF9A000000FFFF,
    ds := DATA64_SEL, es := DATA64_SEL, ss := DATA64_SEL, sp := 0x90000, ip := 0x1000\<rparr>"
  have run: "boot_loader hw bios bd dl n s = Some (Continue t)"
    using c(1) unfolding u(1)
    by (simp add: enter_protected_eq enter_long_eq control_bits continue_def t_def)
  have "tables_clear (mem u)" using assms(2,4-6) by (auto simp: tables_clear_def c(2) store_bytes_at)
  then have tables: "tables_built (mem t)" "tables_end (mem t)"
    by (simp_all add: t_def build_tables_end build_tables_built)
  have rest: "mem t a = store_bytes 0x1000 content ((mem s)(bd := dl)) a" if "a < pml4 \<or> 0xC000 \<le> a" for a
    using that by (simp add: t_def build_tables_entries(7) c(2))
  have mode: "long_mode t" by (simp add: long_mode_def t_def control_bits descriptor_bits)
  show thesis by (rule that [OF run mode _ _ _ _ tables rest]) (simp_all add: t_def)
qed

text \<open>C12. From the boot sector to the kernel: when the BIOS delivers the image and it ends below the
  loader and its stack, the loader reaches the entry point \<open>0x1000\<close> in 64-bit mode with the stack at \<open>0x90000\<close>; no
  step of the switch is one the processor refuses; the image lies at \<open>0x1000\<close> unharmed, as does the loader
  but for the drive number it saves; and the page tables map exactly the first 2 GiB, each address to itself, provided the
  memory of the tables was clear before, which the loader does not see to.\<close>

theorem boot_loader_hands_over:
  fixes s :: "'a bootstate_scheme"
  assumes "bios dl (n mod 256) = (False, content)" and "0x1000 + length content \<le> 0x7A00" and "\<not> bit (cr0 s) 31"
    and "tables_clear (mem s)" and "0x7C00 \<le> bd" and "bd < 0x7E00"
  shows "wp (boot_loader hw bios bd dl n s) (\<lambda>r. \<exists>t. r = Continue t \<and> long_mode t \<and> ip t = 0x1000 \<and> sp t = 0x90000 \<and>
    (\<forall>i < length content. mem t (0x1000 + i) = content ! i) \<and>
    (\<forall>a. 0x7C00 \<le> a \<and> a < 0x7E00 \<longrightarrow> mem t a = (if a = bd then dl else mem s a)) \<and>
    (\<forall>a. translate (mem t) (cr3 t) a = (if a < 2 ^ 31 then Some a else None)))"
proof -
  obtain t where t: "boot_loader hw bios bd dl n s = Some (Continue t)" "long_mode t" "cs t = CODE64_SEL" "ip t = 0x1000"
    "sp t = 0x90000" "cr3 t = pml4" "tables_built (mem t)" "tables_end (mem t)"
    "\<And>a. a < pml4 \<or> 0xC000 \<le> a \<Longrightarrow> mem t a = store_bytes 0x1000 content ((mem s)(bd := dl)) a"
    using boot_loader_run [of bios dl n content s bd hw, OF assms] by blast
  have "mem t (0x1000 + i) = content ! i" if "i < length content" for i
    using that assms(2) t(9) [of "0x1000 + i"] by (simp add: store_bytes_at)
  moreover have "mem t a = (if a = bd then dl else mem s a)" if "0x7C00 \<le> a \<and> a < 0x7E00" for a
    using that assms(2) t(9) [of a] by (simp add: store_bytes_at)
  ultimately show ?thesis
    using t translate_low [OF t(7)] translate_high [OF t(7,8)] by simp
qed

definition power_on :: bootstate where
  "power_on = \<lparr>trace = [], mem = \<lambda>a. 0, tele = [], cr0 = 0x10, cr3 = 0, cr4 = 0, efer = 0, gdtr = [], cs = 0,
     cs_cache = 0, ds = 0, es = 0, ss = 0, sp = 0, ip = 0x7C00\<rparr>"

lemma power_on_ok: "\<not> bit (cr0 power_on) 31" "tables_clear (mem power_on)"
  by (simp_all add: power_on_def tables_clear_def bit_iff_odd)

theorem boot_loader_hands_over_witness:
  "wp (boot_loader quiet_machine (\<lambda>d n. (False, replicate (512 * n) 0x90)) 0x7DA0 0x80 34 power_on) (\<lambda>r. \<exists>t. r = Continue t \<and>
    mem t 0x53FF = 0x90 \<and> translate (mem t) (cr3 t) 0x7FFFFFFF = Some 0x7FFFFFFF \<and>
    translate (mem t) (cr3 t) 0xE0000000 = None)"
proof (rule wp_mono [OF boot_loader_hands_over [OF _ _ power_on_ok, where content = "replicate 17408 0x90"]])
  fix r :: "bootstate control"
  assume "\<exists>t. r = Continue t \<and> long_mode t \<and> ip t = 0x1000 \<and> sp t = 0x90000 \<and>
    (\<forall>i < length (replicate 17408 (0x90 :: u8)). mem t (0x1000 + i) = replicate 17408 0x90 ! i) \<and>
    (\<forall>a. 0x7C00 \<le> a \<and> a < 0x7E00 \<longrightarrow> mem t a = (if a = 0x7DA0 then 0x80 else mem power_on a)) \<and>
    (\<forall>a. translate (mem t) (cr3 t) a = (if a < 2 ^ 31 then Some a else None))"
  then obtain t where t: "r = Continue t" "\<And>a. translate (mem t) (cr3 t) a = (if a < 2 ^ 31 then Some a else None)"
    and i: "\<And>i. i < 17408 \<Longrightarrow> mem t (0x1000 + i) = 0x90" by auto
  from i [of 17407] t show "\<exists>t. r = Continue t \<and> mem t 0x53FF = 0x90 \<and>
      translate (mem t) (cr3 t) 0x7FFFFFFF = Some 0x7FFFFFFF \<and> translate (mem t) (cr3 t) 0xE0000000 = None" by simp
qed simp_all



text \<open>The entry stub runs in the mode the loader set up, but its own table has only three entries: \<open>cs\<close>,
  which it does not reload, selects the one past the end.\<close>

lemma kernel_entry_eq:
  "kernel_entry ret s = Some (s\<lparr>gdtr := entry_gdt, ds := 0x10, es := 0x10, ss := 0x10, sp := 0x8FFF8,
    mem := st32 0x8FFFC (ucast (drop_bit 32 ret)) (st32 0x8FFF8 (ucast ret) (mem s))\<rparr>)"
proof -
  have "descriptor entry_gdt 0x10 = Some 0x00AF92000000FFFF" by (simp add: descriptor_def entry_gdt_def)
  then show ?thesis by (simp add: kernel_entry_def load_data_def descriptor_bits)
qed

lemma entry_cs_dangles:
  assumes "kernel_entry ret t = Some u" and "cs t = CODE64_SEL"
  shows "descriptor (gdtr u) (cs u) = None" and "long_mode u = long_mode t"
  using assms by (auto simp: kernel_entry_eq descriptor_def entry_gdt_def long_mode_def)

end
