(* ===== verification/Boot.thy ===== *)
theory Boot
  imports Kernel Boot_Loader
begin

text \<open>
  The boot loader, the entry stub and the kernel together: the kernel runs in the address space
  that the loader's tables describe. The lemmas compare what the kernel needs of that space, and
  where its image lies, with what the loader provides.
\<close>

section \<open>The kernel behind the tables\<close>

text \<open>The machine as code sees it through the tables: an address that they do not map faults.\<close>

definition seen :: "'a bootstate_scheme \<Rightarrow> hardware \<Rightarrow> hardware" where
  "seen t hw = hw\<lparr>mem8 := \<lambda>a. map_option (mem t) (translate (mem t) (cr3 t) a)\<rparr>"

text \<open>\<open>call kmain\<close> in \<open>entry.asm\<close>, after the stub.\<close>

definition start_kernel :: "hardware \<Rightarrow> nat \<Rightarrow> (task \<Rightarrow> u64) \<Rightarrow> u64 \<Rightarrow> u64 \<Rightarrow> kernel \<Rightarrow> 'a bootstate_scheme \<Rightarrow> kernel option" where
  "start_kernel hw kbd code boot ret k s = do {
     s \<leftarrow> kernel_entry ret s;
     kmain (seen s hw) kbd code boot k }"

lemma entry_tables:
  assumes "kernel_entry ret t = Some u"
  shows "tables_built (mem u) = tables_built (mem t)" "tables_end (mem u) = tables_end (mem t)" "cr3 u = cr3 t"
  using assms by (auto simp: kernel_entry_eq tables_st32)

section \<open>Properties\<close>

text \<open>C11. LifeOS does not come up: loaded and started by its own boot loader, whatever the image holds and
  whatever the machine answers, it never gets through \<open>kernel_init\<close>, because the first pixel of the
  window lies outside the 2 GiB that the loader maps.\<close>

theorem booted_kernel_faults:
  fixes s :: "'a bootstate_scheme"
  assumes "bios dl (n mod 256) = (False, content)" and "0x1000 + length content \<le> 0x7A00" and "\<not> bit (cr0 s) 31"
    and "tables_clear (mem s)" and "0x7C00 \<le> bd" and "bd < 0x7E00"
  shows "wp (boot_loader hw bios bd dl n s) (\<lambda>r. \<exists>t. r = Continue t \<and> start_kernel hw kbd code boot ret k t = None)"
proof -
  obtain t where t: "boot_loader hw bios bd dl n s = Some (Continue t)" "cr3 t = pml4" "tables_built (mem t)" "tables_end (mem t)"
    using boot_loader_run [of bios dl n content s bd hw, OF assms] by blast
  have "kmain (seen u hw) kbd code boot k = None" if u: "kernel_entry ret t = Some u" for u
  proof -
    have "translate (mem u) (cr3 u) FRAMEBUFFER_ADDR = None"
      using t entry_tables [OF u] by (simp add: translate_high)
    then have "kernel_init (seen u hw) kbd k = None" by (intro boot_needs_framebuffer) (simp add: seen_def)
    then show ?thesis by (simp add: kmain_def)
  qed
  then have "start_kernel hw kbd code boot ret k t = None"
    by (cases "kernel_entry ret t") (simp_all add: start_kernel_def)
  then show ?thesis using t(1) by simp
qed

theorem booted_kernel_faults_witness:
  "wp (boot_loader boot_machine (\<lambda>d n. (False, replicate (512 * n) 0x90)) 0x7DA0 0x80 34 power_on) (\<lambda>r. \<exists>t. r = Continue t \<and>
    start_kernel boot_machine 0x5000 (\<lambda>k. 0x1000) 0x1F000 0x1020 (kernel_statics (replicate 2000 0) (\<lambda>a. 0) boot_regs) t = None)"
  by (rule booted_kernel_faults [where content = "replicate 17408 0x90"]) (simp_all add: power_on_ok)

text \<open>Where the image lies: the array \<open>files\<close> alone takes more than 64 KiB, so the image, which starts at
  \<open>0x1000\<close>, contains the addresses of the four page tables, and the floor of \<open>0xB000\<close> in \<open>mm_init\<close> never
  applies.\<close>

definition file_bytes :: nat where
  "file_bytes = 32 + 4096 + 4 + 4"

lemma tables_inside_image:
  assumes "0x1000 + 16 * file_bytes \<le> unat (image_end hw)"
  shows "pml4 \<le> a \<and> a < pd2 + 4096 \<Longrightarrow> 0x1000 \<le> a \<and> a < unat (image_end hw)"
    and "0xB000 < first_page (unat (image_end hw))"
  using assms by (auto simp: file_bytes_def first_page_def max_def)

end
