(* ===== verification/Typing.thy ===== *)
theory Typing
  imports Shell_Task
begin

text \<open>
  The keyboard queue between its producer, \<open>console_poll_input\<close>, and its consumer, the shell task.
  A schedule is any sequence of polls and of rounds of the shell. The pair of queue and session
  follows a small specification under every schedule, so keys reach the line in the order in
  which they were typed, whenever the shell gets its turns.
\<close>

section \<open>Schedules\<close>

datatype turn = Poll | Serve

text \<open>What a turn amounts to: a key for the queue, a key that lays the panes out and shows a fresh
  prompt, a key (or no key) that leaves queue and session alone, a round of the shell.\<close>

datatype deed = Queue char | Relayout | Aside | Served

definition deed_of :: "char \<Rightarrow> 'a console_scheme \<Rightarrow> deed" where
  "deed_of c s =
     (if queued_key s c then Queue (if c = CHR 0x7F then BACKSPACE else c)
      else if c \<in> pane_keys then Relayout else Aside)"

text \<open>A poll, with what the key that \<open>console_poll_input\<close> reads amounts to.\<close>

definition poll :: "hardware \<Rightarrow> 'a acpi_scheme \<Rightarrow> (deed \<times> 'a acpi_scheme) option" where
  "poll hw s = do {
     (c, u) \<leftarrow> keyboard_read_char hw s;
     t \<leftarrow> console_poll_input hw s;
     Some (deed_of c u, t) }"

lemma poll_eq:
  "poll hw s = do { (c, u) \<leftarrow> keyboard_read_char hw s; t \<leftarrow> handle_key hw c u; Some (deed_of c u, t) }"
  by (cases "keyboard_read_char hw s") (auto simp: poll_def console_poll_input_def)

primrec schedule :: "hardware \<Rightarrow> turn list \<Rightarrow> 'a acpi_scheme \<Rightarrow> (deed list \<times> 'a acpi_scheme control) option" where
  "schedule hw [] s = Some ([], Continue s)"
| "schedule hw (x # xs) s =
     (case x of
        Poll \<Rightarrow> do { (d, t) \<leftarrow> poll hw s; (ds, r) \<leftarrow> schedule hw xs t; Some (d # ds, r) }
      | Serve \<Rightarrow> do {
          r \<leftarrow> shell_round hw s;
          case r of Halted t \<Rightarrow> Some ([Served], Halted t)
          | Continue t \<Rightarrow> do { (ds, r) \<leftarrow> schedule hw xs t; Some (Served # ds, r) } })"

section \<open>The specification\<close>

text \<open>A key of the line; \<open>None\<close> when it runs a command that stops the machine.\<close>

definition ses_step :: "char \<Rightarrow> session \<Rightarrow> session option" where
  "ses_step c e =
     (if c \<noteq> NEWLINE then Some (ses_key c e)
      else if ses_text e \<in> {''restart'', ''shutdown'', ''exit''} then None
      else Some \<lparr>ses_text = [], ses_pos = 0,
        ses_past = (if ses_text e = [] then ses_past e else take 8 (ses_text e # ses_past e)), ses_nav = -1\<rparr>)"

fun deed_spec :: "deed \<Rightarrow> string \<times> session \<Rightarrow> (string \<times> session) option" where
  "deed_spec (Queue c) (q, e) = Some (take 127 (q @ [c]), e)"
| "deed_spec Relayout (q, e) = Some (q, e\<lparr>ses_text := [], ses_pos := 0\<rparr>)"
| "deed_spec Aside (q, e) = Some (q, e)"
| "deed_spec Served ([], e) = Some ([], e)"
| "deed_spec Served (c # q, e) = map_option (Pair q) (ses_step c e)"

primrec deeds_spec :: "deed list \<Rightarrow> string \<times> session \<Rightarrow> (string \<times> session) option" where
  "deeds_spec [] a = Some a"
| "deeds_spec (d # ds) a = do { a \<leftarrow> deed_spec d a; deeds_spec ds a }"

definition typed_line :: "'a acpi_scheme \<Rightarrow> string \<times> session" where
  "typed_line s = (input_queue s, session_of s)"

text \<open>The keys that went to the queue, and whether each of them found room there, when \<open>n\<close> keys waited
  at the start.\<close>

definition queued :: "deed list \<Rightarrow> string" where
  "queued ds = concat (map (\<lambda>d. case d of Queue c \<Rightarrow> [c] | _ \<Rightarrow> []) ds)"

fun room :: "nat \<Rightarrow> deed list \<Rightarrow> bool" where
  "room n [] \<longleftrightarrow> True"
| "room n (Queue c # ds) \<longleftrightarrow> n < 127 \<and> room (n + 1) ds"
| "room n (Served # ds) \<longleftrightarrow> room (n - 1) ds"
| "room n (_ # ds) \<longleftrightarrow> room n ds"

lemma queued_simps [simp]: "queued [] = []" "queued (Queue c # ds) = c # queued ds"
  "queued (Relayout # ds) = queued ds" "queued (Aside # ds) = queued ds" "queued (Served # ds) = queued ds"
  by (simp_all add: queued_def)

text \<open>What happens to the line: a key is handed to it, or (\<open>None\<close>) a pane key empties it.\<close>

primrec line_steps :: "char option list \<Rightarrow> session \<Rightarrow> session option" where
  "line_steps [] e = Some e"
| "line_steps (a # as) e = (case a of
     None \<Rightarrow> line_steps as (e\<lparr>ses_text := [], ses_pos := 0\<rparr>)
   | Some c \<Rightarrow> do { e \<leftarrow> ses_step c e; line_steps as e })"

abbreviation keys_of :: "char option list \<Rightarrow> string" where
  "keys_of as \<equiv> List.map_filter (\<lambda>a. a) as"

text \<open>As long as the queue has room, the keys handed to the line and those that still wait are together
  what was typed, in order, whatever pane keys come between.\<close>

lemma deeds_in_order:
  assumes "room (length q) ds"
  shows "\<exists>as rest. keys_of as @ rest = q @ queued ds \<and> count_list as None = count_list ds Relayout \<and>
    (\<forall>e. deeds_spec ds (q, e) = map_option (Pair rest) (line_steps as e))"
  using assms
proof (induction ds arbitrary: q)
  case Nil
  then show ?case by (intro exI [of _ "[]"] exI [of _ q]) simp
next
  case (Cons d ds)
  have skip: ?case if "room (length q') ds" "q' @ queued ds = q @ queued (d # ds)" "d \<noteq> Relayout"
    "\<And>e. deed_spec d (q, e) = Some (q', e)" for q'
    using Cons.IH [OF that(1)] that(2-4) by auto
  show ?case
  proof (cases d)
    case (Queue c)
    with Cons.prems have "length q < 127" "room (length q + 1) ds" by simp_all
    with Queue show ?thesis by (intro skip [of "q @ [c]"]) simp_all
  next
    case Relayout
    then obtain as rest where "keys_of as @ rest = q @ queued ds" "count_list as None = count_list ds Relayout"
      "\<And>e. deeds_spec ds (q, e) = map_option (Pair rest) (line_steps as e)"
      using Cons.IH [of q] Cons.prems by auto
    with Relayout show ?thesis by (intro exI [of _ "None # as"] exI [of _ rest]) (simp add: map_filter_simps)
  next
    case Aside
    with Cons.prems show ?thesis by (intro skip [of q]) simp_all
  next
    case Served
    show ?thesis
    proof (cases q)
      case Nil
      with Served Cons.prems show ?thesis by (intro skip [of q]) simp_all
    next
      case q: (Cons c cs)
      obtain as rest where "keys_of as @ rest = cs @ queued ds" "count_list as None = count_list ds Relayout"
        "\<And>e. deeds_spec ds (cs, e) = map_option (Pair rest) (line_steps as e)"
        using Cons.IH [of cs] Cons.prems Served q by auto
      with Served q show ?thesis
        by (intro exI [of _ "Some c # as"] exI [of _ rest]) (auto simp: map_filter_simps split: Option.bind_split)
    qed
  qed
qed

section \<open>The turns\<close>

lemma system_inv_pane:
  fixes s t :: "'a acpi_scheme"
  assumes "system_inv s" and "ui_inv t" and "pane.more t = pane.more s"
  shows "system_inv t"
proof -
  have "inventory_shape t \<and> pci_devices t < 2 ^ 32 \<and> length (acpi_tables t) = 16 \<and> acpi_table_count t \<le> 16"
    using assms(1,3) unfolding system_inv_def by (cases s; cases t) (simp add: inventory_shape_def)
  with assms(2) show ?thesis by (simp add: system_inv_def)
qed

lemma typed_lineI:
  assumes "input_queue t = input_queue s" and "session_of t = session_of s"
  shows "typed_line t = typed_line s"
  using assms by (simp add: typed_line_def)

lemma session_more:
  fixes s t :: "'a acpi_scheme"
  assumes "console.more t = console.more s"
  shows "session_of t = session_of s" "pane.more t = pane.more s"
  using shell_fields [OF assms] pane_fields [OF assms]
  by (simp_all add: session_of_def line_def history_slots_def)

lemma relayout_effect:
  fixes s u :: "'a acpi_scheme"
  assumes "system_inv s" and "redrawn s g u" and "t = u \<or> t = u\<lparr>ctrl := False\<rparr>"
  shows "system_inv t" "typed_line t = (input_queue s, (session_of s)\<lparr>ses_text := [], ses_pos := 0\<rparr>)"
proof -
  have "ui_inv u" using redrawn_ui_inv [OF assms(2)] system_invD(3) [OF assms(1)] by (simp add: ui_inv_def)
  then have ui: "ui_inv t" using assms(3) by auto
  have "pane.more t = pane.more s" using assms(2,3) by (auto simp: redrawn_def shell_keep_def)
  with assms(1) ui show "system_inv t" by (rule system_inv_pane)
  have u: "line u = []" "line_inv u" "history_slots u = history_slots s" "history_nav u = history_nav s" "input_queue u = input_queue s"
    using assms(2) queue_keep [of u s]
    by (simp_all add: redrawn_def pane_drawn_def Let_def shell_keep_def history_slots_def pane_inv_def shell_inv_def)
  then have "cmd_pos u = 0" using line_invD(3,5) [of u] by simp
  with u have "typed_line u = (input_queue s, (session_of s)\<lparr>ses_text := [], ses_pos := 0\<rparr>)"
    by (simp add: typed_line_def session_of_def)
  moreover have "typed_line (u\<lparr>ctrl := False\<rparr>) = typed_line u"
    by (simp add: typed_line_def input_queue_def session_of_def line_def history_slots_def)
  ultimately show "typed_line t = (input_queue s, (session_of s)\<lparr>ses_text := [], ses_pos := 0\<rparr>)" using assms(3) by auto
qed

lemma handle_key_follows:
  fixes s :: "'a acpi_scheme"
  assumes "system_inv s" and "uart_ready hw"
  shows "wp (handle_key hw c s) (\<lambda>t. system_inv t \<and> deed_spec (deed_of c s) (typed_line s) = Some (typed_line t))"
proof -
  have ui: "ui_inv s" and pane: "pane_inv s" using system_invD [OF assms(1)] by simp_all
  consider "queued_key s c" | "c \<in> pane_keys" | "c = NUL \<or> c = KEY_CTRL"
    | "c \<in> {KEY_UP, KEY_DOWN}" "ctrl s \<or> sb_view s \<noteq> 0"
    unfolding queued_key_def insert_iff empty_iff by argo
  then show ?thesis
  proof cases
    case 1
    show ?thesis
    proof (rule wp_mono [OF handle_key_queue [OF ui 1]], elim conjE)
      fix t :: "'a acpi_scheme"
      assume t: "ui_inv t" "input_queue t = take 127 (input_queue s @ [if c = CHR 0x7F then BACKSPACE else c])"
        "t = s\<lparr>input_buf := input_buf t, input_head := input_head t\<rparr>"
      have m: "console.more t = console.more s" by (subst t(3)) simp
      show "system_inv t \<and> deed_spec (deed_of c s) (typed_line s) = Some (typed_line t)"
        using system_inv_pane [OF assms(1) t(1)] session_more [OF m] 1 t(2) by (simp add: typed_line_def deed_of_def)
    qed
  next
    case 2
    then have d: "deed_of c s = Relayout" by (auto simp: deed_of_def queued_key_def)
    show ?thesis unfolding d
    proof (rule wp_mono [OF handle_key_redraws [OF pane assms(2) 2]], elim exE conjE)
      fix t u :: "'a acpi_scheme"
      assume u: "redrawn s (grid_after c (ctrl s) (pane_grid s)) u"
        and "t = (if c \<in> {KEY_ALT_R, KEY_FN} then u\<lparr>ctrl := False\<rparr> else u)"
      then have "t = u \<or> t = u\<lparr>ctrl := False\<rparr>" by presburger
      from relayout_effect [OF assms(1) u this]
      show "system_inv t \<and> deed_spec Relayout (typed_line s) = Some (typed_line t)" by (simp add: typed_line_def)
    qed
  next
    case 3
    then have "\<not> queued_key s c" "c \<notin> pane_keys" by (auto simp: queued_key_def)
    then have d: "deed_of c s = Aside" unfolding deed_of_def by (simp only: if_False)
    have run: "handle_key hw c s = Some (if c = NUL then s else s\<lparr>ctrl := True\<rparr>)"
      using 3 by (elim disjE) (simp_all add: handle_key_def)
    have "system_inv (s\<lparr>ctrl := True\<rparr>)" by (rule system_inv_pane [OF assms(1)]) (use ui in simp_all)
    moreover have "typed_line (s\<lparr>ctrl := True\<rparr>) = typed_line s"
      by (simp add: typed_line_def input_queue_def session_of_def line_def history_slots_def)
    ultimately show ?thesis unfolding run d using assms(1) by (cases "typed_line s") simp
  next
    case 4
    then have run: "handle_key hw c s = scroll_view c s" by (auto simp: handle_key_def)
    have "\<not> queued_key s c" "c \<notin> pane_keys" using 4 by (auto simp: queued_key_def)
    then have d: "deed_of c s = Aside" unfolding deed_of_def by (simp only: if_False)
    show ?thesis unfolding run d
    proof (rule wp_mono [OF scroll_view_wp [OF ui]], elim conjE)
      fix t :: "'a acpi_scheme"
      assume "ui_inv t" "input_queue t = input_queue s" and m: "console.more t = console.more s"
      then show "system_inv t \<and> deed_spec Aside (typed_line s) = Some (typed_line t)"
        using system_inv_pane [OF assms(1)] session_more [OF m] by (simp add: typed_line_def)
    qed
  qed
qed

lemma poll_follows:
  fixes s :: "'a acpi_scheme"
  assumes "system_inv s" and "uart_ready hw"
  shows "wp (poll hw s) (\<lambda>(d, t). system_inv t \<and> deed_spec d (typed_line s) = Some (typed_line t))"
  unfolding poll_eq
proof (rule wp_seq [OF keyboard_read_char_wp], clarify)
  fix c and t :: "'a acpi_scheme"
  assume "t = s\<lparr>trace := trace t, have_e0 := have_e0 t\<rparr>"
  moreover have "system_inv (s\<lparr>trace := tr, have_e0 := e\<rparr>)" for tr e
    by (rule system_inv_pane [OF assms(1)]) (use system_invD(3) [OF assms(1)] in simp_all)
  moreover have "typed_line (s\<lparr>trace := tr, have_e0 := e\<rparr>) = typed_line s" for tr e
    by (simp add: typed_line_def input_queue_def session_of_def line_def history_slots_def)
  ultimately have t: "system_inv t" "typed_line t = typed_line s" by metis+
  show "wp (do { u \<leftarrow> handle_key hw c t; Some (deed_of c t, u) })
      (\<lambda>(d, t). system_inv t \<and> deed_spec d (typed_line s) = Some (typed_line t))"
    by (rule wp_seq [OF handle_key_follows [OF t(1) assms(2)]]) (simp add: t(2))
qed

lemma rev_lastn: "rev (lastn n xs) = take n (rev xs)"
  by (cases "n \<le> length xs") (simp_all add: lastn_def rev_drop)

lemma enter_follows:
  fixes s :: "'a acpi_scheme"
  assumes "command_ok r" and "enter_effect hw s r"
  shows "case r of Halted t \<Rightarrow> con_inv t \<and> ses_step NEWLINE (session_of s) = None
    | Continue t \<Rightarrow> system_inv t \<and> input_queue t = input_queue s \<and> ses_step NEWLINE (session_of s) = Some (session_of t)"
proof -
  obtain u e where u: "entered s u" and e: "command_effect hw (line s) u e"
    and r: "case e of Halted t \<Rightarrow> r = Halted t
      | Continue t \<Rightarrow> (\<exists>v. r = Continue v \<and> system_inv v \<and> draws (term_write (vga_color t) prompt) t v \<and>
          session_of v = \<lparr>ses_text = [], ses_pos = 0, ses_past = rev (history_slots u), ses_nav = -1\<rparr>)"
    using assms(2) [unfolded enter_effect_def] by (elim exE conjE)
  have ses: "ses_text (session_of s) = line s" "ses_past (session_of s) = rev (history_slots s)"
    by (simp_all add: session_of_def)
  have past: "rev (lastn 8 (history_slots s @ [l])) = take 8 (l # rev (history_slots s))" for l
    by (simp add: rev_lastn)
  show ?thesis
  proof (cases e)
    case (Halted t)
    then have "line s \<in> {''restart'', ''shutdown'', ''exit''}" using e command_effect_control(1) by blast
    then show ?thesis using Halted r assms(1) by (simp add: command_ok_def ses_step_def ses)
  next
    case (Continue t)
    then have c: "line s \<notin> {''restart'', ''shutdown'', ''exit''}" "keeps u t"
      using e command_effect_control(2) by blast+
    obtain v where v: "r = Continue v" "system_inv v" "con_keep v = con_keep t"
      "session_of v = \<lparr>ses_text = [], ses_pos = 0, ses_past = rev (history_slots u), ses_nav = -1\<rparr>"
      using r Continue by (auto simp: draws_def)
    have "con_keep v = con_keep s" using v(3) c(2) u by (simp add: keeps_def entered_def)
    then have "input_queue v = input_queue s" by (rule queue_keep)
    then show ?thesis using v c(1) u past by (simp add: ses_step_def ses entered_def)
  qed
qed

lemma serve_follows:
  fixes s :: "'a acpi_scheme"
  assumes "system_inv s" and "uart_ready hw" and "NUL \<notin> set (input_queue s)"
  shows "wp (shell_round hw s) (\<lambda>r. case r of
      Halted t \<Rightarrow> con_inv t \<and> deed_spec Served (typed_line s) = None
    | Continue t \<Rightarrow> system_inv t \<and> deed_spec Served (typed_line s) = Some (typed_line t))"
    (is "wp _ ?Q")
  unfolding shell_round_def
proof (rule wp_seq [OF getc_system [OF assms(1)]], clarify)
  fix c and t :: "'a acpi_scheme"
  assume t: "system_inv t" "t = s\<lparr>input_tail := input_tail t\<rparr>"
    and q: "case input_queue s of [] \<Rightarrow> c = NUL \<and> t = s | x # xs \<Rightarrow> c = x \<and> input_queue t = xs"
  have ses: "session_of t = session_of s" by (subst t(2)) (simp add: session_of_def line_def history_slots_def)
  show "wp (if c \<noteq> NUL then shell_key hw c t else Some (Continue t)) ?Q"
  proof (cases "input_queue s")
    case Nil
    with q assms(1) show ?thesis by (simp add: typed_line_def)
  next
    case (Cons x xs)
    then have c: "c \<noteq> NUL" "input_queue t = xs" "x = c" using q assms(3) by auto
    have "wp (shell_key hw c t) ?Q"
    proof (cases "c = NEWLINE")
      case True
      have "wp (shell_key hw c t) (\<lambda>r. command_ok r \<and> enter_effect hw t r)"
        using shell_enter_wp [OF t(1) assms(2)] True by (simp add: shell_key_def)
      then show ?thesis
      proof (rule wp_mono, elim conjE)
        fix r :: "'a acpi_scheme control" assume "command_ok r" and "enter_effect hw t r"
        from enter_follows [OF this] show "?Q r" using Cons c ses True by (cases r) (simp_all add: typed_line_def)
      qed
    next
      case False
      show ?thesis
        by (rule wp_mono [OF shell_key_wp [OF t(1) assms(2) c(1) False]])
          (use Cons c ses False queue_keep in \<open>fastforce simp: key_effect_def typed_line_def ses_step_def\<close>)
    qed
    with c(1) show ?thesis by simp
  qed
qed

text \<open>Null characters never enter the queue.\<close>

lemma deed_of_NUL: "deed_of c s \<noteq> Queue NUL"
  by (auto simp: deed_of_def queued_key_def)

lemma deed_spec_no_NUL:
  assumes "deed_spec d (q, e) = Some (q', e')" and "d \<noteq> Queue NUL" and "NUL \<notin> set q"
  shows "NUL \<notin> set q'"
proof (cases d)
  case (Queue c)
  then have "set q' \<subseteq> set (q @ [c])" using assms(1) set_take_subset [of 127 "q @ [c]"] by auto
  with Queue assms(2,3) show ?thesis by auto
next
  case Served
  with assms(1,3) show ?thesis by (cases q) auto
qed (use assms in auto)

text \<open>A schedule that has led to \<open>r\<close> has followed the specification from \<open>a\<close>.\<close>

definition follows :: "string \<times> session \<Rightarrow> deed list \<Rightarrow> 'a acpi_scheme control \<Rightarrow> bool" where
  "follows a ds r = (case r of
      Halted t \<Rightarrow> con_inv t \<and> deeds_spec ds a = None
    | Continue t \<Rightarrow> system_inv t \<and> deeds_spec ds a = Some (typed_line t))"

lemma follows_Cons: "deed_spec d a = Some b \<Longrightarrow> follows b ds r \<Longrightarrow> follows a (d # ds) r"
  by (simp add: follows_def split: control.splits)

lemma follows_halt: "con_inv t \<Longrightarrow> deed_spec d a = None \<Longrightarrow> follows a [d] (Halted t)"
  by (simp add: follows_def)

lemma follows_iff:
  "follows (q, e) ds r = (case r of
      Halted t \<Rightarrow> con_inv t \<and> deeds_spec ds (q, e) = None
    | Continue t \<Rightarrow> system_inv t \<and> deeds_spec ds (q, e) = Some (input_queue t, session_of t))"
  by (simp add: follows_def typed_line_def split: control.splits)

lemma schedule_follows:
  fixes s :: "'a acpi_scheme"
  assumes "system_inv s" and "uart_ready hw" and "NUL \<notin> set (input_queue s)"
  shows "wp (schedule hw xs s) (\<lambda>(ds, r). follows (typed_line s) ds r)"
  using assms(1,3)
proof (induction xs arbitrary: s)
  case Nil
  then show ?case by (simp add: follows_def)
next
  case (Cons x xs)
  have next_wp: "wp (do { (ds, r) \<leftarrow> schedule hw xs t; Some (d # ds, r) }) (\<lambda>(ds, r). follows (typed_line s) ds r)"
    if t: "system_inv t" "deed_spec d (typed_line s) = Some (typed_line t)" "d \<noteq> Queue NUL" for d and t :: "'a acpi_scheme"
  proof (rule wp_seq [OF Cons.IH [OF t(1)]])
    show "NUL \<notin> set (input_queue t)"
      using deed_spec_no_NUL [OF _ t(3) Cons.prems(2)] t(2) unfolding typed_line_def by blast
  qed (use follows_Cons [OF t(2)] in auto)
  show ?case
  proof (cases x)
    case Poll
    have "wp (poll hw s) (\<lambda>(d, t). system_inv t \<and> deed_spec d (typed_line s) = Some (typed_line t) \<and> d \<noteq> Queue NUL)"
      using poll_follows [OF Cons.prems(1) assms(2)] deed_of_NUL
      by (auto simp: wp_iff_Some poll_def split: Option.bind_splits)
    then show ?thesis unfolding Poll schedule.simps turn.case by (rule wp_seq) (use next_wp in auto)
  next
    case Serve
    show ?thesis
      unfolding Serve schedule.simps turn.case
      by (rule wp_seq [OF serve_follows [OF Cons.prems(1) assms(2) Cons.prems(2)]])
        (auto intro: next_wp follows_halt split: control.splits simp del: wp_bind)
  qed
qed

section \<open>Properties\<close>

text \<open>A machine on which one key is always held down.\<close>

definition key_machine :: "u8 \<Rightarrow> hardware" where
  "key_machine sc = quiet_machine\<lparr>port_in := \<lambda>t p. if p = 0x64 then 1 else if p = 0x60 then ucast sc else 0x20\<rparr>"

lemma key_machine_ready [simp]: "uart_ready (key_machine sc)"
  using quiet_machine_ready
  by (simp add: key_machine_def uart_ready_def ready_after_def quiet_machine_def)

lemma key_machine_poll:
  assumes "poll (key_machine 0x1E) booting_acpi = Some (d, t)"
  shows "d = Queue (CHR ''a'')"
proof -
  have a: "scancode_ascii ! 30 = CHR ''a''" by code_simp
  have e0: "\<not> have_e0 booting_acpi"
    by (simp add: booting_acpi_def acpi_statics_def acpi.defs inventory_statics_def inventory.defs one_pane_def
        pane_statics_def pane.defs typing_shell_def shell_statics_def shell.defs blank_console_def console_statics_def console.defs)
  obtain u where "keyboard_read_char (key_machine 0x1E) booting_acpi = Some (CHR ''a'', u)"
    using e0 a by (simp add: keyboard_read_char_def decode_plain_def rd_def inb_def Let_def key_machine_def scancode_ascii_length)
  then show ?thesis using assms by (auto simp: poll_def deed_of_def queued_key_def split: Option.bind_splits)
qed

text \<open>C7. Input as a whole: under every schedule of polls and rounds of the shell the calls return, the
  invariants of all layers hold, and queue and session are what the specification makes of the
  keys that were read, dropped keys, panes laid out anew, recalled lines and executed commands
  included; the machine stops exactly when the line that is entered says so.\<close>

theorem typing_refines:
  assumes "system_inv s" and "uart_ready hw" and "NUL \<notin> set (input_queue s)"
  shows "wp (schedule hw xs s) (\<lambda>(ds, r). case r of
      Halted t \<Rightarrow> con_inv t \<and> deeds_spec ds (input_queue s, session_of s) = None
    | Continue t \<Rightarrow> system_inv t \<and> deeds_spec ds (input_queue s, session_of s) = Some (input_queue t, session_of t))"
  using schedule_follows [OF assms, of xs] by (simp only: typed_line_def follows_iff)

theorem typing_refines_witness:
  "wp (schedule (key_machine 0x1E) [Poll, Serve] booting_acpi) (\<lambda>(ds, r). \<exists>t. r = Continue t \<and>
    input_queue t = [] \<and> session_of t = \<lparr>ses_text = ''abac'', ses_pos = 3, ses_past = [], ses_nav = -1\<rparr>)"
proof -
  note run = typing_refines [OF booting_system key_machine_ready [of "0x1E"], where xs = "[Poll, Serve]"]
  then obtain ds r where e: "schedule (key_machine 0x1E) [Poll, Serve] booting_acpi = Some (ds, r)"
    by (auto simp: wp_iff_Some simp del: schedule.simps)
  have ds: "ds = [Queue (CHR ''a''), Served]"
    using e by (auto dest: key_machine_poll split: Option.bind_splits control.splits)
  show ?thesis using run e
    by (simp add: ds ses_step_def ses_key_def ses_edit_def del: schedule.simps split: control.splits)
qed

text \<open>C23. No key is lost or overtaken, in a session of any length: provided that each key finds fewer
  than 127 keys waiting when it is typed, the keys handed to the shell, in the order in which it
  takes them, followed by those still waiting are exactly the keys that waited at first followed
  by those typed, whenever the shell got its turns; and the line, the cursor and the history are
  what these keys make of them, each pane key typed meanwhile emptying the line once. The machine
  stops only when one of the keys handed over in this order enters a command that stops it.\<close>

theorem keys_in_order:
  assumes "system_inv s" and "uart_ready hw" and "NUL \<notin> set (input_queue s)"
  shows "wp (schedule hw xs s) (\<lambda>(ds, r). room (length (input_queue s)) ds \<longrightarrow>
    (\<exists>as rest. keys_of as @ rest = input_queue s @ queued ds \<and> count_list as None = count_list ds Relayout \<and>
      (case r of Halted t \<Rightarrow> line_steps as (session_of s) = None
       | Continue t \<Rightarrow> input_queue t = rest \<and> line_steps as (session_of s) = Some (session_of t))))"
proof (rule wp_mono [OF schedule_follows [OF assms]], clarify)
  fix ds and r :: "'a acpi_scheme control"
  assume f: "follows (typed_line s) ds r" and "room (length (input_queue s)) ds"
  then obtain as rest where a: "keys_of as @ rest = input_queue s @ queued ds"
    "count_list as None = count_list ds Relayout"
    "\<And>e. deeds_spec ds (input_queue s, e) = map_option (Pair rest) (line_steps as e)"
    using deeds_in_order by blast
  have "case r of Halted t \<Rightarrow> line_steps as (session_of s) = None
      | Continue t \<Rightarrow> input_queue t = rest \<and> line_steps as (session_of s) = Some (session_of t)"
    using f a(3) [of "session_of s"]
    by (cases "line_steps as (session_of s)"; cases r) (simp_all add: typed_line_def follows_iff)
  with a(1,2) show "\<exists>as rest. keys_of as @ rest = input_queue s @ queued ds \<and>
      count_list as None = count_list ds Relayout \<and> (case r of Halted t \<Rightarrow> line_steps as (session_of s) = None
       | Continue t \<Rightarrow> input_queue t = rest \<and> line_steps as (session_of s) = Some (session_of t))" by blast
qed

theorem keys_in_order_witness:
  "wp (schedule (key_machine 0x1E) [Poll, Serve] booting_acpi) (\<lambda>(ds, r). \<exists>t as. r = Continue t \<and>
    keys_of as @ input_queue t = ''a'' \<and> line_steps as (session_of booting_acpi) = Some (session_of t))"
proof -
  note run = keys_in_order [OF booting_system key_machine_ready [of "0x1E"], where xs = "[Poll, Serve]"]
  then obtain ds r where e: "schedule (key_machine 0x1E) [Poll, Serve] booting_acpi = Some (ds, r)"
    by (auto simp: wp_iff_Some simp del: schedule.simps)
  have ds: "ds = [Queue (CHR ''a''), Served]"
    using e by (auto dest: key_machine_poll split: Option.bind_splits control.splits)
  have follow: "follows ([], session_of booting_acpi) ds r"
    using schedule_follows [OF booting_system key_machine_ready [of "0x1E"], of "[Poll, Serve]"] e
    by (simp add: typed_line_def del: schedule.simps)
  then obtain t where "r = Continue t"
    by (cases r) (simp_all add: follows_def ds ses_step_def)
  with run e show ?thesis by (auto simp: ds simp del: schedule.simps booting_session)
qed

end
