(* ===== verification/Unit_Tests.thy ===== *)
theory Unit_Tests
  imports File_System
begin

text \<open>
  The unit tests of the file system, \<open>src/tests/fs_test.c\<close> and its three siblings, as programs on the
  model. They pass from every state of the file table, as \<open>fs_init\<close> is their first call.
\<close>

section \<open>The tests\<close>

text \<open>\<open>assert\<close> ends the program when its condition does not hold.\<close>

definition check :: "bool \<Rightarrow> unit option" where
  "check b = (if b then Some () else None)"

definition name_of :: "nat option \<Rightarrow> fs \<Rightarrow> char list option" where
  "name_of p s = do { i \<leftarrow> p; f \<leftarrow> rd (files s) i; Some (fname f) }"

definition fs_test :: "fs \<Rightarrow> int option" where
  "fs_test s = do {
     s \<leftarrow> fs_init s;
     (f, s) \<leftarrow> fs_create (c_lit ''test'') s;
     _ \<leftarrow> check (f \<noteq> None);
     (r, s) \<leftarrow> fs_write f (c_lit ''hello'') 5 s;
     _ \<leftarrow> check (r = 5);
     (r, buf) \<leftarrow> fs_read f (replicate 6 NUL) 5 s;
     _ \<leftarrow> check (r = 5);
     eq \<leftarrow> str_eq buf (c_lit ''hello'');
     _ \<leftarrow> check eq;
     f2 \<leftarrow> fs_open (c_lit ''test'') s;
     _ \<leftarrow> check (f2 = f);
     Some 0 }"

definition fs_list_test :: "fs \<Rightarrow> int option" where
  "fs_list_test s = do {
     s \<leftarrow> fs_init s;
     (f, s) \<leftarrow> fs_create (c_lit ''alpha'') s;
     (f, s) \<leftarrow> fs_create (c_lit ''beta'') s;
     (count, list) \<leftarrow> fs_list (replicate 2 None) 2 s;
     _ \<leftarrow> check (count = 2);
     p \<leftarrow> rd list 0;
     n \<leftarrow> name_of p s;
     eq \<leftarrow> str_eq n (c_lit ''alpha'');
     _ \<leftarrow> check eq;
     p \<leftarrow> rd list 1;
     n \<leftarrow> name_of p s;
     eq \<leftarrow> str_eq n (c_lit ''beta'');
     _ \<leftarrow> check eq;
     Some 0 }"

definition fs_delete_test :: "fs \<Rightarrow> int option" where
  "fs_delete_test s = do {
     s \<leftarrow> fs_init s;
     (f, s) \<leftarrow> fs_create (c_lit ''temp'') s;
     (r, s) \<leftarrow> fs_delete (c_lit ''temp'') s;
     _ \<leftarrow> check (r = 0);
     f \<leftarrow> fs_open (c_lit ''temp'') s;
     _ \<leftarrow> check (f = None);
     (r, s) \<leftarrow> fs_delete (c_lit ''temp'') s;
     _ \<leftarrow> check (r = -1);
     Some 0 }"

definition fs_rename_test :: "fs \<Rightarrow> int option" where
  "fs_rename_test s = do {
     s \<leftarrow> fs_init s;
     (f, s) \<leftarrow> fs_create (c_lit ''old'') s;
     (r, s) \<leftarrow> fs_rename (c_lit ''old'') (c_lit ''new'') s;
     _ \<leftarrow> check (r = 0);
     f \<leftarrow> fs_open (c_lit ''old'') s;
     _ \<leftarrow> check (f = None);
     f \<leftarrow> fs_open (c_lit ''new'') s;
     _ \<leftarrow> check (f \<noteq> None);
     (r, s) \<leftarrow> fs_rename (c_lit ''missing'') (c_lit ''x'') s;
     _ \<leftarrow> check (r = -1);
     (f, s) \<leftarrow> fs_create (c_lit ''taken'') s;
     (r, s) \<leftarrow> fs_rename (c_lit ''new'') (c_lit ''taken'') s;
     _ \<leftarrow> check (r = -1);
     Some 0 }"

section \<open>Calls on a known directory\<close>

definition holds :: "directory \<Rightarrow> fs \<Rightarrow> bool" where
  "holds d s \<longleftrightarrow> fs_inv s \<and> dir_of s = d"

lemma check_True [simp]: "check True = Some ()"
  by (simp add: check_def)

lemma check_holds: "b \<Longrightarrow> wp k Q \<Longrightarrow> wp (do { _ \<leftarrow> check b; k }) Q"
  by simp

lemma init_holds:
  assumes "fs_inv s" and "\<And>t. holds (replicate 16 None) t \<Longrightarrow> wp (k t) Q"
  shows "wp (fs_init s \<bind> k) Q"
proof (rule wp_seq [OF fs_init_wp])
  show "length (files s) = 16" "list_all (\<lambda>f. file_ok (f\<lparr>fused := False\<rparr>)) (files s)"
    using assms(1) by (auto simp: fs_inv_def list_all_iff file_ok_def)
qed (use assms(2) in \<open>simp add: holds_def\<close>)

lemma create_holds:
  assumes "holds d s" and "NUL \<notin> set n" and "dir_create n d = (p, d')"
    and "\<And>t. holds d' t \<Longrightarrow> wp (k p t) Q"
  shows "wp (do { (p, t) \<leftarrow> fs_create (c_lit n) s; k p t }) Q"
  using assms by (intro wp_seq [OF fs_create_wp]) (auto simp: holds_def)

lemma write_holds:
  assumes "holds d s" and "handle_ok p" and "min len 4096 \<le> length bs" and "dir_write p (take len bs) d = (r, d')"
    and "\<And>t. holds d' t \<Longrightarrow> wp (k r t) Q"
  shows "wp (do { (r, t) \<leftarrow> fs_write p bs len s; k r t }) Q"
  using assms by (intro wp_seq [OF fs_write_wp]) (auto simp: holds_def)

lemma read_holds:
  assumes "holds d s" and "handle_ok p" and "dir_read p len d = Some c" and "length c \<le> length buf"
    and "wp (k (int (length c)) (overwrite 0 c buf)) Q"
  shows "wp (do { (r, b) \<leftarrow> fs_read p buf len s; k r b }) Q"
  using assms by (intro wp_seq [OF fs_read_wp]) (auto simp: holds_def)

lemma open_holds:
  assumes "holds d s" and "NUL \<notin> set n" and "wp (k (first (named n) d)) Q"
  shows "wp (do { p \<leftarrow> fs_open (c_lit n) s; k p }) Q"
  using assms by (simp add: holds_def fs_open_eq)

lemma delete_holds:
  assumes "holds d s" and "NUL \<notin> set n" and "dir_delete n d = (r, d')"
    and "\<And>t. holds d' t \<Longrightarrow> wp (k r t) Q"
  shows "wp (do { (r, t) \<leftarrow> fs_delete (c_lit n) s; k r t }) Q"
  using assms by (intro wp_seq [OF fs_delete_wp]) (auto simp: holds_def)

lemma rename_holds:
  assumes "holds d s" and "NUL \<notin> set n" and "NUL \<notin> set m" and "dir_rename n m d = (r, d')"
    and "\<And>t. holds d' t \<Longrightarrow> wp (k r t) Q"
  shows "wp (do { (r, t) \<leftarrow> fs_rename (c_lit n) (c_lit m) s; k r t }) Q"
  using assms by (intro wp_seq [OF fs_rename_wp]) (auto simp: holds_def)

lemma list_holds:
  assumes "holds d s" and "length (dir_list mx d) \<le> length out"
    and "wp (k (int (length (dir_list mx d))) (overwrite 0 (map Some (dir_list mx d)) out)) Q"
  shows "wp (do { (r, l) \<leftarrow> fs_list out mx s; k r l }) Q"
  using assms by (simp add: holds_def fs_list_eq)

lemma name_holds:
  assumes "holds d s" and "i < 16" and "d ! i = Some (n, c)"
  shows "\<exists>x. name_of (Some i) s = Some x \<and> terminated x \<and> c_str x = n"
proof -
  have l: "length (files s) = 16" "file_ok (files s ! i)" "entry_of (files s ! i) = Some (n, c)"
    using assms fs_invD(4) [of s i] by (auto simp: holds_def fs_inv_def list_all_length)
  then show ?thesis using assms(2) by (auto simp: name_of_def entry_of_def file_ok_def split: if_splits)
qed

section \<open>Results\<close>

text \<open>The directories the tests go through, as the specification computes them.\<close>

abbreviation empty_dir :: directory where
  "empty_dir \<equiv> replicate 16 None"

abbreviation dir1 :: "string \<Rightarrow> string \<Rightarrow> directory" where
  "dir1 n c \<equiv> Some (n, c) # replicate 15 None"

abbreviation dir2 :: "string \<Rightarrow> string \<Rightarrow> directory" where
  "dir2 n m \<equiv> Some (n, []) # Some (m, []) # replicate 14 None"

lemma fs_test_passes:
  assumes "fs_inv s"
  shows "wp (fs_test s) (\<lambda>r. r = 0)"
proof -
  have d: "dir_create ''test'' empty_dir = (Some 0, dir1 ''test'' [])"
    "dir_write (Some 0) (take 5 (c_lit ''hello'')) (dir1 ''test'' []) = (5, dir1 ''test'' ''hello'')"
    "dir_read (Some 0) 5 (dir1 ''test'' ''hello'') = Some ''hello''"
    "overwrite 0 ''hello'' (replicate 6 NUL) = c_lit ''hello''"
    "first (named ''test'') (dir1 ''test'' ''hello'') = Some 0"
    by code_simp+
  have h: "handle_ok (Some 0)" "min 5 4096 \<le> length (c_lit ''hello'')" by (simp_all add: handle_ok_def c_lit_def)
  show ?thesis
    unfolding fs_test_def
    by (rule init_holds [OF assms], rule create_holds [OF _ _ d(1)], assumption, simp, rule check_holds, simp,
        rule write_holds [OF _ h d(2)], assumption, rule check_holds, simp,
        rule read_holds [OF _ h(1) d(3)], assumption, simp, rule check_holds, simp)
      (simp only: d(4) str_eq_terminated [OF terminated_lit terminated_lit] simp_thms bind.bind_lunit check_True,
        rule open_holds, assumption, simp, rule check_holds, simp_all only: d(5) simp_thms wp_Some)
qed

lemma fs_list_test_passes:
  assumes "fs_inv s"
  shows "wp (fs_list_test s) (\<lambda>r. r = 0)"
proof -
  have d: "dir_create ''alpha'' empty_dir = (Some 0, dir1 ''alpha'' [])"
    "dir_create ''beta'' (dir1 ''alpha'' []) = (Some 1, dir2 ''alpha'' ''beta'')"
    "dir_list 2 (dir2 ''alpha'' ''beta'') = [0, 1]"
    "overwrite 0 (map Some [0, 1]) (replicate 2 None) = [Some 0, Some (1 :: nat)]"
    by code_simp+
  have names: "wp (do { p \<leftarrow> rd [Some 0, Some 1] 0; n \<leftarrow> name_of p t; eq \<leftarrow> str_eq n (c_lit ''alpha''); _ \<leftarrow> check eq;
      p \<leftarrow> rd [Some 0, Some 1] 1; n \<leftarrow> name_of p t; eq \<leftarrow> str_eq n (c_lit ''beta''); _ \<leftarrow> check eq; Some 0 })
    (\<lambda>r. r = (0 :: int))" if t: "holds (dir2 ''alpha'' ''beta'') t" for t
    using name_holds [OF t, of 0 "''alpha''" "[]"] name_holds [OF t, of 1 "''beta''" "[]"] by auto
  show ?thesis
    unfolding fs_list_test_def
    by (rule init_holds [OF assms], rule create_holds [OF _ _ d(1)], assumption, simp,
        rule create_holds [OF _ _ d(2)], assumption, simp, rule list_holds, assumption, simp add: d(3),
        rule check_holds, simp add: d(3)) (simp only: d(3,4) names)
qed

lemma fs_delete_test_passes:
  assumes "fs_inv s"
  shows "wp (fs_delete_test s) (\<lambda>r. r = 0)"
proof -
  have d: "dir_create ''temp'' empty_dir = (Some 0, dir1 ''temp'' [])"
    "dir_delete ''temp'' (dir1 ''temp'' []) = (0, empty_dir)"
    "first (named ''temp'') empty_dir = None" "dir_delete ''temp'' empty_dir = (-1, empty_dir)"
    by code_simp+
  show ?thesis
    unfolding fs_delete_test_def
    by (rule init_holds [OF assms], rule create_holds [OF _ _ d(1)], assumption, simp,
        rule delete_holds [OF _ _ d(2)], assumption, simp, rule check_holds, simp,
        rule open_holds, assumption, simp, rule check_holds, simp only: d(3) simp_thms,
        rule delete_holds [OF _ _ d(4)], assumption, simp, rule check_holds) simp_all
qed

lemma fs_rename_test_passes:
  assumes "fs_inv s"
  shows "wp (fs_rename_test s) (\<lambda>r. r = 0)"
proof -
  have d: "dir_create ''old'' empty_dir = (Some 0, dir1 ''old'' [])"
    "dir_rename ''old'' ''new'' (dir1 ''old'' []) = (0, dir1 ''new'' [])"
    "first (named ''old'') (dir1 ''new'' []) = None" "first (named ''new'') (dir1 ''new'' []) = Some 0"
    "dir_rename ''missing'' ''x'' (dir1 ''new'' []) = (-1, dir1 ''new'' [])"
    "dir_create ''taken'' (dir1 ''new'' []) = (Some 1, dir2 ''new'' ''taken'')"
    "dir_rename ''new'' ''taken'' (dir2 ''new'' ''taken'') = (-1, dir2 ''new'' ''taken'')"
    by code_simp+
  show ?thesis
    unfolding fs_rename_test_def
    by (rule init_holds [OF assms], rule create_holds [OF _ _ d(1)], assumption, simp,
        rule rename_holds [OF _ _ _ d(2)], assumption, simp, simp, rule check_holds, simp,
        rule open_holds, assumption, simp, rule check_holds, simp only: d(3) simp_thms,
        rule open_holds, assumption, simp, rule check_holds, simp only: d(4) option.distinct simp_thms,
        rule rename_holds [OF _ _ _ d(5)], assumption, simp, simp, rule check_holds, simp,
        rule create_holds [OF _ _ d(6)], assumption, simp,
        rule rename_holds [OF _ _ _ d(7)], assumption, simp, simp, rule check_holds) simp_all
qed

theorem fs_unit_tests_pass:
  assumes "fs_inv s"
  shows "wp (fs_test s) (\<lambda>r. r = 0)" "wp (fs_list_test s) (\<lambda>r. r = 0)" "wp (fs_delete_test s) (\<lambda>r. r = 0)"
    "wp (fs_rename_test s) (\<lambda>r. r = 0)"
  by (fact fs_test_passes [OF assms] fs_list_test_passes [OF assms] fs_delete_test_passes [OF assms]
      fs_rename_test_passes [OF assms])+

end
