(* ===== verification/Device_Tests.thy ===== *)
theory Device_Tests
  imports Acpi Unit_Tests
begin

text \<open>
  The unit tests of the hardware inventory and of the ACPI parser, with the variants of
  \<open>inventory.c\<close> and \<open>acpi.c\<close> that the symbols \<open>INVENTORY_TEST\<close> and \<open>ACPI_TEST\<close> select. The first takes the
  hardware abstraction layer from the test program, the second looks for its tables in an array
  of the test program, wherever the compiler puts that array, and prints nothing.
\<close>

section \<open>Inventory: the hardware comes from the test\<close>

record test_hal =
  cpu_core_count :: u32
  memory_size :: u64
  config_read :: "u8 \<Rightarrow> u8 \<Rightarrow> u8 \<Rightarrow> u8 \<Rightarrow> u32"
  vendor_id :: "u8 \<Rightarrow> u8 \<Rightarrow> u8 \<Rightarrow> u16"
  device_id :: "u8 \<Rightarrow> u8 \<Rightarrow> u8 \<Rightarrow> u16"
  class_code :: "u8 \<Rightarrow> u8 \<Rightarrow> u8 \<Rightarrow> u8"
  subclass_code :: "u8 \<Rightarrow> u8 \<Rightarrow> u8 \<Rightarrow> u8"

definition gather_step_test :: "test_hal \<Rightarrow> nat \<times> nat \<times> nat \<Rightarrow> 'a inventory_scheme \<Rightarrow> 'a inventory_scheme option" where
  "gather_step_test hal = (\<lambda>(bus, dev, func) s.
     let bus = of_nat bus; dev = of_nat dev; func = of_nat func;
         data = config_read hal bus dev func 0
     in if data AND 0xFFFF \<noteq> 0xFFFF then
          let class = class_code hal bus dev func;
              subclass = subclass_code hal bus dev func;
              vendor = vendor_id hal bus dev func;
              device = device_id hal bus dev func
          in do {
            s \<leftarrow> (if pci_devices s < MAX_INVENTORY_PCI
                   then record_device bus class subclass vendor device s else Some s);
            Some (s\<lparr>pci_devices := to_u32 (pci_devices s + 1)\<rparr>) }
        else Some s)"

definition inventory_gather_test :: "test_hal \<Rightarrow> 'a inventory_scheme \<Rightarrow> 'a inventory_scheme option" where
  "inventory_gather_test hal s =
     for_each pci_functions (gather_step_test hal)
       (s\<lparr>cpu_cores := cpu_core_count hal, memory_bytes := memory_size hal, pci_devices := 0\<rparr>)"

text \<open>\<open>src/tests/inventory_test.c\<close>: two functions on bus 0 and one on bus 1.\<close>

definition pci_device_lookup :: "u8 \<Rightarrow> u8 \<Rightarrow> u8 \<Rightarrow> bool" where
  "pci_device_lookup bus dev func \<longleftrightarrow> (bus = 0 \<and> dev = 0 \<and> func < 2) \<or> (bus = 1 \<and> dev = 0 \<and> func = 0)"

definition three_devices :: test_hal where
  "three_devices =
     (let read = \<lambda>bus dev func offset. if pci_device_lookup bus dev func then 0x12345678 else 0xFFFF
      in \<lparr>cpu_core_count = 4, memory_size = 128 * 1024 * 1024, config_read = read,
          vendor_id = \<lambda>bus dev func. ucast (read bus dev func 0 AND 0xFFFF :: u32),
          device_id = \<lambda>bus dev func. ucast (drop_bit 16 (read bus dev func 0) AND 0xFFFF :: u32),
          class_code = \<lambda>bus dev func. 0x02, subclass_code = \<lambda>bus dev func. 0\<rparr>)"

definition inventory_test :: "'a inventory_scheme \<Rightarrow> int option" where
  "inventory_test s = do {
     inv \<leftarrow> inventory_gather_test three_devices s;
     _ \<leftarrow> check (cpu_cores inv = 4);
     _ \<leftarrow> check (memory_bytes inv = 128 * 1024 * 1024);
     _ \<leftarrow> check (pci_devices inv = 3);
     _ \<leftarrow> for_each [0..<pci_devices inv] (\<lambda>i u. do {
       b \<leftarrow> rd (pci_bus inv) i;
       _ \<leftarrow> check (if i < 2 then b = 0 else b = 1);
       c \<leftarrow> rd (pci_class inv) i;
       _ \<leftarrow> check (c = 0x02);
       sc \<leftarrow> rd (pci_subclass inv) i;
       _ \<leftarrow> check (sc = 0);
       v \<leftarrow> rd (pci_vendor inv) i;
       _ \<leftarrow> check (v = 0x5678);
       d \<leftarrow> rd (pci_device inv) i;
       check (d = 0x1234) }) ();
     Some 0 }"

text \<open>\<open>src/tests/multi_gpu_inventory_test.c\<close>: one display controller on each of two buses.\<close>

definition gpu_present :: "u8 \<Rightarrow> u8 \<Rightarrow> u8 \<Rightarrow> bool" where
  "gpu_present bus dev func \<longleftrightarrow> func = 0 \<and> dev = 0 \<and> (bus = 1 \<or> bus = 2)"

definition two_gpus :: test_hal where
  "two_gpus = \<lparr>cpu_core_count = 8, memory_size = 256 * 1024 * 1024,
     config_read = \<lambda>bus dev func offset. if gpu_present bus dev func then 0xDEADBEEF else 0xFFFF,
     vendor_id = \<lambda>bus dev func. 0xBEEF, device_id = \<lambda>bus dev func. 0xFEED,
     class_code = \<lambda>bus dev func. if gpu_present bus dev func then 0x03 else 0x00,
     subclass_code = \<lambda>bus dev func. 0x00\<rparr>"

definition multi_gpu_inventory_test :: "'a inventory_scheme \<Rightarrow> int option" where
  "multi_gpu_inventory_test s = do {
     inv \<leftarrow> inventory_gather_test two_gpus s;
     _ \<leftarrow> check (pci_devices inv = 2);
     b \<leftarrow> rd (pci_bus inv) 0;
     _ \<leftarrow> check (b = 1);
     b \<leftarrow> rd (pci_bus inv) 1;
     _ \<leftarrow> check (b = 2);
     _ \<leftarrow> for_each [0..<2] (\<lambda>i u. do {
       c \<leftarrow> rd (pci_class inv) i;
       _ \<leftarrow> check (c = 0x03);
       v \<leftarrow> rd (pci_vendor inv) i;
       _ \<leftarrow> check (v = 0xBEEF);
       d \<leftarrow> rd (pci_device inv) i;
       check (d = 0xFEED) }) ();
     Some 0 }"

section \<open>ACPI: the firmware's memory is an array of the test\<close>

definition root_table_test :: "hardware \<Rightarrow> nat \<Rightarrow> nat \<Rightarrow> (bool \<times> nat) option" where
  "root_table_test hw start rsdp = do {
     revision \<leftarrow> ld hw 1 (rsdp + 15);
     use_xsdt \<leftarrow> (if revision \<ge> 2 then map_option (\<lambda>x. x \<noteq> 0) (ld hw 8 (rsdp + 24)) else Some False);
     a \<leftarrow> (if use_xsdt then ld hw 8 (rsdp + 24) else ld hw 4 (rsdp + 16));
     Some (use_xsdt, (start + a) mod 2 ^ 64) }"

definition parse_entry_test :: "hardware \<Rightarrow> nat \<Rightarrow> bool \<Rightarrow> nat \<Rightarrow> nat \<Rightarrow> 'a acpi_scheme \<Rightarrow> 'a acpi_scheme option" where
  "parse_entry_test hw start use_xsdt sdt i s =
     (if acpi_table_count s < MAX_ACPI_TABLES then do {
        addr \<leftarrow> ld hw (entry_size use_xsdt) (sdt + SDT_SIZE + i * entry_size use_xsdt);
        let hdr = (start + addr) mod 2 ^ 64;
        if hdr = 0 then Some s else do {
          ts \<leftarrow> wr (acpi_tables s) (acpi_table_count s) hdr;
          let s = s\<lparr>acpi_tables := ts, acpi_table_count := acpi_table_count s + 1\<rparr>;
          facp \<leftarrow> sig_match hw hdr ''FACP'';
          if facp then do {
            a \<leftarrow> ld hw 4 (hdr + 64);
            b \<leftarrow> ld hw 4 (hdr + 68);
            Some (s\<lparr>fadt_data := \<lparr>pm1a_cnt_blk = of_nat a, pm1b_cnt_blk = of_nat b, slp_typa = 0, slp_typb = 0\<rparr>,
                    fadt_table := True\<rparr>) }
          else Some s } }
      else Some s)"

definition acpi_init_test :: "hardware \<Rightarrow> nat \<Rightarrow> nat \<Rightarrow> 'a acpi_scheme \<Rightarrow> 'a acpi_scheme option" where
  "acpi_init_test hw start n s = do {
     let defaults = s\<lparr>fadt_data := \<lparr>pm1a_cnt_blk = 0x604, pm1b_cnt_blk = 0xB004, slp_typa = 0, slp_typb = 0\<rparr>,
                      fadt_table := True\<rparr>;
     rsdp \<leftarrow> scan_rsdp hw start (start + n);
     case rsdp of
       None \<Rightarrow> Some defaults
     | Some p \<Rightarrow> do {
         (use_xsdt, sdt) \<leftarrow> root_table_test hw start p;
         if sdt = 0 then Some defaults else do {
           ok \<leftarrow> root_signature hw sdt;
           if ok then do {
             len \<leftarrow> ld hw 4 (sdt + 4);
             for_each [0..<entry_count use_xsdt len] (parse_entry_test hw start use_xsdt sdt)
               (s\<lparr>acpi_table_count := 0\<rparr>) }
           else Some defaults } } }"

text \<open>\<open>test_mem\<close> lies at some address \<open>start\<close>; nothing else may be read. The tests fill it with
  little-endian stores of \<open>n\<close> bytes, with \<open>memcpy\<close> and with \<open>memset\<close>.\<close>

definition test_machine :: "nat \<Rightarrow> u8 list \<Rightarrow> hardware" where
  "test_machine start m = quiet_machine\<lparr>mem8 :=
     \<lambda>a. if start \<le> a \<and> a < start + length m then Some (m ! (a - start)) else None\<rparr>"

primrec poke :: "nat \<Rightarrow> nat \<Rightarrow> nat \<Rightarrow> u8 list \<Rightarrow> u8 list option" where
  "poke 0 a v m = Some m"
| "poke (Suc n) a v m = do { m \<leftarrow> wr m a (of_nat v); poke n (a + 1) (v div 256) m }"

primrec memcpy :: "nat \<Rightarrow> string \<Rightarrow> u8 list \<Rightarrow> u8 list option" where
  "memcpy a [] m = Some m"
| "memcpy a (c # cs) m = do { m \<leftarrow> wr m a (byte_of c); memcpy (a + 1) cs m }"

definition memset :: "nat \<Rightarrow> u8 \<Rightarrow> nat \<Rightarrow> u8 list \<Rightarrow> u8 list option" where
  "memset a b n m = for_each [0..<n] (\<lambda>i m. wr m (a + i) b) m"

text \<open>\<open>src/tests/acpi_test.c\<close> and \<open>src/tests/acpi_xsdt_test.c\<close>: the tables, and what is asserted of them.
  The test's own \<open>struct fadt_table\<close> has the layout of \<open>acpi_fadt_table\<close>.\<close>

definition rsdt_memory :: "u8 list option" where
  "rsdt_memory = do {
     m \<leftarrow> memcpy 16 ''RSD PTR '' (replicate 256 0);
     m \<leftarrow> poke 1 (16 + 15) 1 m;
     m \<leftarrow> poke 4 (16 + 16) 64 m;
     m \<leftarrow> poke 4 (16 + 20) (size_of acpi_rsdp) m;
     m \<leftarrow> memcpy 64 ''RSDT'' m;
     m \<leftarrow> poke 4 (64 + 4) (size_of acpi_sdt_header + 4) m;
     m \<leftarrow> poke 4 (64 + size_of acpi_sdt_header) 128 m;
     m \<leftarrow> memset 128 0 (size_of acpi_fadt_table) m;
     m \<leftarrow> memcpy 128 ''FACP'' m;
     m \<leftarrow> poke 4 (128 + 4) (size_of acpi_fadt_table) m;
     m \<leftarrow> poke 4 (128 + 64) 0x1111 m;
     poke 4 (128 + 68) 0x2222 m }"

definition acpi_test :: "nat \<Rightarrow> 'a acpi_scheme \<Rightarrow> int option" where
  "acpi_test start s = do {
     m \<leftarrow> rsdt_memory;
     let hw = test_machine start m;
     s \<leftarrow> acpi_init_test hw start 256 s;
     f \<leftarrow> acpi_get_fadt s;
     _ \<leftarrow> check (pm1a_cnt_blk f = 0x1111);
     _ \<leftarrow> check (pm1b_cnt_blk f = 0x2222);
     _ \<leftarrow> check (slp_typa f = 0);
     _ \<leftarrow> check (slp_typb f = 0);
     hdr \<leftarrow> acpi_get_table hw ''FACP'' s;
     _ \<leftarrow> check (hdr \<noteq> None);
     Some 0 }"

definition xsdt_memory :: "u8 list option" where
  "xsdt_memory = do {
     m \<leftarrow> memset 16 0 (size_of acpi_rsdp) (replicate 512 0);
     m \<leftarrow> memcpy 16 ''RSD PTR '' m;
     m \<leftarrow> poke 1 (16 + 15) 2 m;
     m \<leftarrow> poke 8 (16 + 24) 128 m;
     m \<leftarrow> poke 4 (16 + 20) (size_of acpi_rsdp) m;
     m \<leftarrow> memcpy 128 ''XSDT'' m;
     m \<leftarrow> poke 4 (128 + 4) (size_of acpi_sdt_header + 8) m;
     m \<leftarrow> poke 8 (128 + size_of acpi_sdt_header) 192 m;
     m \<leftarrow> memset 192 0 (size_of acpi_fadt_table) m;
     m \<leftarrow> memcpy 192 ''FACP'' m;
     m \<leftarrow> poke 4 (192 + 4) (size_of acpi_fadt_table) m;
     m \<leftarrow> poke 4 (192 + 64) 0xAAAA m;
     poke 4 (192 + 68) 0xBBBB m }"

definition acpi_xsdt_test :: "nat \<Rightarrow> 'a acpi_scheme \<Rightarrow> int option" where
  "acpi_xsdt_test start s = do {
     m \<leftarrow> xsdt_memory;
     let hw = test_machine start m;
     s \<leftarrow> acpi_init_test hw start 512 s;
     f \<leftarrow> acpi_get_fadt s;
     _ \<leftarrow> check (pm1a_cnt_blk f = 0xAAAA);
     _ \<leftarrow> check (pm1b_cnt_blk f = 0xBBBB);
     hdr \<leftarrow> acpi_get_table hw ''FACP'' s;
     _ \<leftarrow> check (hdr \<noteq> None);
     Some 0 }"

section \<open>The inventory tests pass\<close>

definition answers :: "test_hal \<Rightarrow> nat \<times> nat \<times> nat \<Rightarrow> bool" where
  "answers hal = (\<lambda>(bus, dev, func). config_read hal (of_nat bus) (of_nat dev) (of_nat func) 0 AND 0xFFFF \<noteq> 0xFFFF)"

text \<open>Only the functions that answer matter.\<close>

lemma gather_answering:
  "for_each xs (gather_step_test hal) s = for_each (filter (answers hal) xs) (gather_step_test hal) s"
proof (induction xs arbitrary: s)
  case (Cons x xs)
  have "gather_step_test hal x s = Some s" if "\<not> answers hal x"
    using that by (cases x) (simp add: gather_step_test_def answers_def Let_def)
  then show ?case using Cons by simp
qed simp

lemma filter_front:
  assumes "k \<le> n" and "\<And>i x. k \<le> i \<Longrightarrow> i < n \<Longrightarrow> x \<in> set (g i) \<Longrightarrow> \<not> P x"
  shows "filter P (concat (map g [0..<n])) = concat (map (\<lambda>i. filter P (g i)) [0..<k])"
proof -
  have "[0..<n] = [0..<k] @ [k..<n]" using assms(1) by (metis le0 le_add_diff_inverse upt_add_eq_append)
  moreover have "filter P (concat (map g [k..<n])) = []" using assms(2) by (auto simp: filter_empty_conv)
  ultimately show ?thesis by (simp add: filter_concat comp_def)
qed

lemma filter_functions:
  assumes "\<And>b d f. b < 256 \<Longrightarrow> d < 32 \<Longrightarrow> f < 8 \<Longrightarrow> P (b, d, f) \<Longrightarrow> b < 3 \<and> d = 0 \<and> f < 2"
  shows "filter P pci_functions = filter P [(0, 0, 0), (0, 0, 1), (1, 0, 0), (1, 0, 1), (2, 0, 0), (2, 0, 1)]"
proof -
  let ?row = "\<lambda>b d. concat (map (\<lambda>f. [(b, d, f)]) [0..<8])"
  have "filter P pci_functions = filter P (concat (map (\<lambda>b. concat (map (?row b) [0..<32])) [0..<256]))"
    by (simp only: pci_functions_def concat_map_singleton)
  also have "\<dots> = concat (map (\<lambda>b. filter P (concat (map (?row b) [0..<32]))) [0..<3])"
    by (rule filter_front) (use assms in fastforce)+
  also have "\<dots> = concat (map (\<lambda>b. concat (map (\<lambda>d. filter P (?row b d)) [0..<1])) [0..<3])"
    by (intro arg_cong [where f = concat] map_cong refl filter_front) (use assms in fastforce)+
  also have "\<dots> = concat (map (\<lambda>b. concat (map (\<lambda>d. concat (map (\<lambda>f. filter P [(b, d, f)]) [0..<2])) [0..<1])) [0..<3])"
    by (intro arg_cong [where f = concat] map_cong refl filter_front) (use assms in fastforce)+
  finally show ?thesis by (simp add: numeral_2_eq_2 numeral_3_eq_3)
qed

lemma three_devices_found:
  "filter (answers three_devices) pci_functions = [(0, 0, 0), (0, 0, 1), (1, 0, 0)]"
proof -
  have a: "answers three_devices (b, d, f) \<longleftrightarrow> (b = 0 \<and> d = 0 \<and> f < 2) \<or> (b = 1 \<and> d = 0 \<and> f = 0)"
    if "b < 256" "d < 32" "f < 8" for b d f
  proof -
    have "(of_nat b = (0 :: u8) \<longleftrightarrow> b = 0)" "(of_nat b = (1 :: u8) \<longleftrightarrow> b = 1)"
      "(of_nat d = (0 :: u8) \<longleftrightarrow> d = 0)" "(of_nat f = (0 :: u8) \<longleftrightarrow> f = 0)" "(of_nat f < (2 :: u8) \<longleftrightarrow> f < 2)"
      using that by (simp_all add: word_less_nat_alt unat_of_nat word_unat_eq_iff)
    then show ?thesis by (simp add: answers_def three_devices_def Let_def pci_device_lookup_def)
  qed
  have "filter (answers three_devices) pci_functions =
      filter (answers three_devices) [(0, 0, 0), (0, 0, 1), (1, 0, 0), (1, 0, 1), (2, 0, 0), (2, 0, 1)]"
    by (rule filter_functions) (auto simp: a)
  then show ?thesis by (simp add: a)
qed

lemma two_gpus_found: "filter (answers two_gpus) pci_functions = [(1, 0, 0), (2, 0, 0)]"
proof -
  have a: "answers two_gpus (b, d, f) \<longleftrightarrow> f = 0 \<and> d = 0 \<and> (b = 1 \<or> b = 2)"
    if "b < 256" "d < 32" "f < 8" for b d f
  proof -
    have "(of_nat b = (1 :: u8) \<longleftrightarrow> b = 1)" "(of_nat b = (2 :: u8) \<longleftrightarrow> b = 2)"
      "(of_nat d = (0 :: u8) \<longleftrightarrow> d = 0)" "(of_nat f = (0 :: u8) \<longleftrightarrow> f = 0)"
      using that by (simp_all add: unat_of_nat word_unat_eq_iff)
    then show ?thesis by (simp add: answers_def two_gpus_def gpu_present_def)
  qed
  have "filter (answers two_gpus) pci_functions =
      filter (answers two_gpus) [(0, 0, 0), (0, 0, 1), (1, 0, 0), (1, 0, 1), (2, 0, 0), (2, 0, 1)]"
    by (rule filter_functions) (auto simp: a)
  then show ?thesis by (simp add: a)
qed

lemma gather_test_eq:
  "inventory_gather_test hal s = for_each (filter (answers hal) pci_functions) (gather_step_test hal)
     (s\<lparr>cpu_cores := cpu_core_count hal, memory_bytes := memory_size hal, pci_devices := 0\<rparr>)"
  unfolding inventory_gather_test_def by (rule gather_answering)

theorem inventory_test_passes:
  assumes "inventory_shape s"
  shows "inventory_test s = Some 0"
  using assms unfolding inventory_test_def gather_test_eq three_devices_found
  by (simp add: gather_step_test_def Let_def three_devices_def pci_device_lookup_def record_device_def
      inventory_shape_def upt_conv_Cons)

theorem multi_gpu_inventory_test_passes:
  assumes "inventory_shape s"
  shows "multi_gpu_inventory_test s = Some 0"
  using assms unfolding multi_gpu_inventory_test_def gather_test_eq two_gpus_found
  by (simp add: gather_step_test_def Let_def two_gpus_def gpu_present_def record_device_def
      inventory_shape_def upt_conv_Cons)

section \<open>The ACPI tests pass\<close>

fun le :: "u8 list \<Rightarrow> nat" where
  "le [] = 0"
| "le (b # bs) = unat b + 256 * le bs"

lemma test_machine_mem: "k < length m \<Longrightarrow> mem8 (test_machine start m) (start + k) = Some (m ! k)"
  by (simp add: test_machine_def)

lemma ld_test: "k + n \<le> length m \<Longrightarrow> ld (test_machine start m) n (start + k) = Some (le (take n (drop k m)))"
proof (induction n arbitrary: k)
  case (Suc n)
  then have "drop k m = m ! k # drop (Suc k) m" by (intro Cons_nth_drop_Suc [symmetric]) simp
  then show ?case using Suc.IH [of "Suc k"] Suc.prems by (simp add: test_machine_mem)
qed simp

lemma sig_match_test:
  "length sig = n \<Longrightarrow> k + n \<le> length m \<Longrightarrow>
    sig_match (test_machine start m) (start + k) sig = Some (take n (drop k m) = map byte_of sig)"
proof (induction sig arbitrary: k n)
  case (Cons c sig)
  then have "drop k m = m ! k # drop (Suc k) m" by (intro Cons_nth_drop_Suc [symmetric]) simp
  then show ?case using Cons.IH [of "n - 1" "Suc k"] Cons.prems by (auto simp: test_machine_mem)
qed simp

text \<open>The run of the parser over memory with a root pointer at 16, whose root table at \<open>r\<close> has one entry,
  an FADT at \<open>f\<close>.\<close>

lemma acpi_init_test_run:
  fixes s :: "'a acpi_scheme"
  assumes "length m = n" and "start + n \<le> 2 ^ 64" and "length (acpi_tables s) = 16"
    and "52 \<le> n" and "r + 44 \<le> n" and "f + 72 \<le> n" and "0 < r" and "0 < f"
    and "take 8 (drop 0 m) \<noteq> map byte_of ''RSD PTR ''" and "take 8 (drop 16 m) = map byte_of ''RSD PTR ''"
    and "x \<longleftrightarrow> 2 \<le> le (take 1 (drop 31 m)) \<and> le (take 8 (drop 40 m)) \<noteq> 0"
    and "r = (if x then le (take 8 (drop 40 m)) else le (take 4 (drop 32 m)))"
    and "take 4 (drop r m) = map byte_of (if x then ''XSDT'' else ''RSDT'')"
    and "le (take 4 (drop (r + 4) m)) = 36 + entry_size x"
    and "f = le (take (entry_size x) (drop (r + 36) m))" and "take 4 (drop f m) = map byte_of ''FACP''"
    and "a = le (take 4 (drop (f + 64) m))" and "b = le (take 4 (drop (f + 68) m))"
  shows "acpi_init_test (test_machine start m) start n s = Some (s\<lparr>acpi_table_count := 1,
    acpi_tables := (acpi_tables s)[0 := start + f], fadt_table := True,
    fadt_data := \<lparr>pm1a_cnt_blk = of_nat a, pm1b_cnt_blk = of_nat b, slp_typa = 0, slp_typb = 0\<rparr>\<rparr>)"
proof -
  let ?hw = "test_machine start m"
  have scan: "scan_rsdp ?hw start (start + n) = Some (Some (start + 16))"
  proof -
    have "sig_match ?hw (start + 0) ''RSD PTR '' = Some False" "sig_match ?hw (start + 16) ''RSD PTR '' = Some True"
      by (subst sig_match_test [where n = 8]; use assms(1,4,9,10) in simp)+
    then show ?thesis
      using assms(4) by (subst scan_rsdp.simps, subst scan_rsdp.simps) (simp del: sig_match.simps)
  qed
  have root: "root_table_test ?hw start (start + 16) = Some (x, start + r)"
  proof -
    obtain p where p: "p = start + 16" by simp
    have "p + 15 = start + 31" "p + 24 = start + 40" "p + 16 = start + 32" by (simp_all add: p)
    then have "ld ?hw 1 (p + 15) = Some (le (take 1 (drop 31 m)))" "ld ?hw 8 (p + 24) = Some (le (take 8 (drop 40 m)))"
      "ld ?hw 4 (p + 16) = Some (le (take 4 (drop 32 m)))"
      by (simp_all only:) (rule ld_test; use assms(1,4) in simp)+
    moreover have "(start + r) mod 2 ^ 64 = start + r" using assms(2,5) by simp
    ultimately show ?thesis
      using assms(11,12) unfolding p [symmetric] by (cases x) (auto simp: root_table_test_def simp del: ld.simps One_nat_def)
  qed
  have sgn: "root_signature ?hw (start + r) = Some True"
  proof -
    have "sig_match ?hw (start + r) (if x then ''XSDT'' else ''RSDT'') = Some True"
      by (subst sig_match_test [where n = 4]; use assms(1,5,13) in simp)
    moreover have "\<exists>b. sig_match ?hw (start + r) ''RSDT'' = Some b"
      by (subst sig_match_test [where n = 4]; use assms(1,5) in simp)
    ultimately show ?thesis by (auto simp: root_signature_def simp del: sig_match.simps split: if_splits)
  qed
  have len: "ld ?hw 4 (start + r + 4) = Some (36 + entry_size x)"
    using ld_test [of "r + 4" 4 m start] assms(1,5,14) by (simp add: add.assoc del: ld.simps)
  have count: "entry_count x (36 + entry_size x) = 1" by (subst entry_count_eq) (simp_all add: entry_size_def)
  have e: "ld ?hw (entry_size x) (start + r + 36) = Some f"
    using ld_test [of "r + 36" "entry_size x" m start] assms(1,5,15) by (simp add: add.assoc entry_size_def)
  have fadt: "sig_match ?hw (start + f) ''FACP'' = Some True"
    "ld ?hw 4 (start + f + 64) = Some a" "ld ?hw 4 (start + f + 68) = Some b"
  proof -
    show "sig_match ?hw (start + f) ''FACP'' = Some True"
      by (subst sig_match_test [where n = 4]; use assms(1,6,16) in simp)
  qed (use ld_test [of "f + 64" 4 m start] ld_test [of "f + 68" 4 m start] assms(1,6,17,18) in
    \<open>simp_all add: add.assoc del: ld.simps\<close>)
  show ?thesis
    using assms(2,3,5-8)
    by (simp add: acpi_init_test_def Let_def scan root sgn len count parse_entry_test_def e fadt
        del: ld.simps sig_match.simps)
qed

lemma get_table_test:
  assumes "acpi_table_count s = 1" and "acpi_tables s = (start + f) # ts" and "length sig = n" and "f + n \<le> length m"
    and "take n (drop f m) = map byte_of sig"
  shows "acpi_get_table (test_machine start m) sig s = Some (Some (start + f))"
  using assms by (simp add: acpi_get_table_def sig_match_test [OF assms(3)])

text \<open>Memory as the tests fill it.\<close>

primrec le_bytes :: "nat \<Rightarrow> nat \<Rightarrow> u8 list" where
  "le_bytes 0 v = []"
| "le_bytes (Suc n) v = of_nat v # le_bytes n (v div 256)"

lemma length_le_bytes [simp]: "length (le_bytes n v) = n"
  by (induction n arbitrary: v) simp_all

lemma le_le_bytes: "le (le_bytes n v) = v mod 256 ^ n"
proof (induction n arbitrary: v)
  case (Suc n)
  then show ?case by (simp add: unat_of_nat mod_mult2_eq)
qed simp

lemma poke_eq: "a + n \<le> length m \<Longrightarrow> poke n a v m = Some (overwrite a (le_bytes n v) m)"
proof (induction n arbitrary: a v m)
  case (Suc n)
  then show ?case using Suc.IH [of "a + 1" "m[a := of_nat v]"] overwrite_Cons [of a m] by (simp add: wr_def)
qed simp

lemma memcpy_eq: "a + length cs \<le> length m \<Longrightarrow> memcpy a cs m = Some (overwrite a (map byte_of cs) m)"
proof (induction cs arbitrary: a m)
  case (Cons c cs)
  then show ?case using Cons.IH [of "a + 1" "m[a := byte_of c]"] overwrite_Cons [of a m] by (simp add: wr_def)
qed simp

lemma memset_eq: "a + n \<le> length m \<Longrightarrow> memset a b n m = Some (overwrite a (replicate n b) m)"
proof (induction n)
  case (Suc n)
  then have "memset a b (Suc n) m = wr (overwrite a (replicate n b) m) (a + n) b" by (simp add: memset_def)
  also have "\<dots> = Some (overwrite a (replicate (Suc n) b) m)"
    using Suc.prems overwrite_snoc [of a "replicate n b" m b]
    by (simp add: wr_def replicate_append_same)
  finally show ?case .
qed (simp add: memset_def)

text \<open>Memory of \<open>N\<close> zero bytes after a list of stores, the last one first, and a field of it.\<close>

primrec filled :: "nat \<Rightarrow> (nat \<times> u8 list) list \<Rightarrow> u8 list" where
  "filled N [] = replicate N 0"
| "filled N (w # ws) = overwrite (fst w) (snd w) (filled N ws)"

definition stores_fit :: "nat \<Rightarrow> (nat \<times> u8 list) list \<Rightarrow> bool" where
  "stores_fit N ws \<longleftrightarrow> (\<forall>w \<in> set ws. fst w + length (snd w) \<le> N)"

primrec field_at :: "nat \<Rightarrow> nat \<Rightarrow> nat \<Rightarrow> (nat \<times> u8 list) list \<Rightarrow> u8 list" where
  "field_at N k n [] = replicate (min n (N - k)) 0"
| "field_at N k n (w # ws) =
     (if k + n \<le> fst w \<or> fst w + length (snd w) \<le> k then field_at N k n ws
      else take n (drop k (overwrite (fst w) (snd w) (filled N ws))))"

lemma length_filled: "stores_fit N ws \<Longrightarrow> length (filled N ws) = N"
  by (induction ws) (auto simp: stores_fit_def)

lemma overwrite_same: "a \<le> length m \<Longrightarrow> length xs = n \<Longrightarrow> take n (drop a (overwrite a xs m)) = xs"
  by (simp add: overwrite_def)

lemma field_filled: "stores_fit N ws \<Longrightarrow> take n (drop k (filled N ws)) = field_at N k n ws"
proof (induction ws)
  case (Cons w ws)
  then have "stores_fit N ws" "fst w + length (snd w) \<le> length (filled N ws)"
    using length_filled [of N ws] by (simp_all add: stores_fit_def)
  with Cons.IH show ?case by (auto simp: overwrite_def drop_take min_def)
qed simp

lemma fill_steps:
  assumes "stores_fit N ws"
  shows "a + n \<le> N \<Longrightarrow> poke n a v (filled N ws) = Some (filled N ((a, le_bytes n v) # ws))"
    "a + length cs \<le> N \<Longrightarrow> memcpy a cs (filled N ws) = Some (filled N ((a, map byte_of cs) # ws))"
    "a + n \<le> N \<Longrightarrow> memset a b n (filled N ws) = Some (filled N ((a, replicate n b) # ws))"
  using length_filled [OF assms] by (simp_all add: poke_eq memcpy_eq memset_eq)

lemma fadt_size: "size_of acpi_fadt_table = 72"
  by code_simp

definition rsdt_stores :: "(nat \<times> u8 list) list" where
  "rsdt_stores = [(196, le_bytes 4 0x2222), (192, le_bytes 4 0x1111), (132, le_bytes 4 72), (128, map byte_of ''FACP''),
     (128, replicate 72 0), (100, le_bytes 4 128), (68, le_bytes 4 40), (64, map byte_of ''RSDT''), (36, le_bytes 4 36),
     (32, le_bytes 4 64), (31, le_bytes 1 1), (16, map byte_of ''RSD PTR '')]"

lemma rsdt_memory_eq: "rsdt_memory = Some (filled 256 rsdt_stores)"
  unfolding rsdt_memory_def rsdt_stores_def filled.simps(1) [of 256, symmetric]
  by (simp add: fill_steps stores_fit_def acpi_layout fadt_size del: filled.simps poke.simps memcpy.simps list.map le_bytes.simps)

lemma rsdt_fits: "stores_fit 256 rsdt_stores"
  by (simp add: stores_fit_def rsdt_stores_def)

lemma rsdt_layout:
  "field_at 256 0 8 rsdt_stores = replicate 8 0"
  "field_at 256 16 8 rsdt_stores = map byte_of ''RSD PTR ''"
  "le (field_at 256 31 1 rsdt_stores) = 1" "le (field_at 256 32 4 rsdt_stores) = 64"
  "field_at 256 64 4 rsdt_stores = map byte_of ''RSDT''"
  "le (field_at 256 68 4 rsdt_stores) = 40" "le (field_at 256 100 4 rsdt_stores) = 128"
  "field_at 256 128 4 rsdt_stores = map byte_of ''FACP''"
  "le (field_at 256 192 4 rsdt_stores) = 0x1111" "le (field_at 256 196 4 rsdt_stores) = 0x2222"
  by (simp_all add: rsdt_stores_def overwrite_same length_filled stores_fit_def le_le_bytes
      del: filled.simps list.map le_bytes.simps One_nat_def)

lemma zeros_no_rsdp: "replicate 8 0 \<noteq> map byte_of ''RSD PTR ''"
  by code_simp

text \<open>The tests pass wherever \<open>test_mem\<close> lies, without a read outside it.\<close>

theorem acpi_test_passes:
  assumes "start + 256 \<le> 2 ^ 64" and "length (acpi_tables s) = 16"
  shows "acpi_test start s = Some 0"
proof -
  let ?m = "filled 256 rsdt_stores"
  note f = field_filled [OF rsdt_fits] length_filled [OF rsdt_fits] field_filled [OF rsdt_fits, of _ 0, unfolded drop_0]
  obtain t ts where t: "acpi_tables s = t # ts" using assms(2) by (cases "acpi_tables s") simp_all
  have run: "acpi_init_test (test_machine start ?m) start 256 s = Some (s\<lparr>acpi_table_count := 1,
    acpi_tables := (acpi_tables s)[0 := start + 128], fadt_table := True,
    fadt_data := \<lparr>pm1a_cnt_blk = of_nat 0x1111, pm1b_cnt_blk = of_nat 0x2222, slp_typa = 0, slp_typb = 0\<rparr>\<rparr>)"
    by (rule acpi_init_test_run [OF f(2) assms, where r = 64 and x = False])
      (simp_all add: f rsdt_layout zeros_no_rsdp entry_size_def del: One_nat_def list.map)
  have "acpi_get_table (test_machine start ?m) ''FACP'' u = Some (Some (start + 128))"
    if "acpi_table_count u = 1" "acpi_tables u = (start + 128) # ts" for u :: "'a acpi_scheme"
    by (rule get_table_test [OF that, where n = 4]) (simp_all add: f rsdt_layout del: list.map)
  then show ?thesis
    by (simp add: acpi_test_def rsdt_memory_eq run acpi_get_fadt_def t)
qed

definition xsdt_stores :: "(nat \<times> u8 list) list" where
  "xsdt_stores = [(260, le_bytes 4 0xBBBB), (256, le_bytes 4 0xAAAA), (196, le_bytes 4 72), (192, map byte_of ''FACP''),
     (192, replicate 72 0), (164, le_bytes 8 192), (132, le_bytes 4 44), (128, map byte_of ''XSDT''), (36, le_bytes 4 36),
     (40, le_bytes 8 128), (31, le_bytes 1 2), (16, map byte_of ''RSD PTR ''), (16, replicate 36 0)]"

lemma xsdt_memory_eq: "xsdt_memory = Some (filled 512 xsdt_stores)"
  unfolding xsdt_memory_def xsdt_stores_def filled.simps(1) [of 512, symmetric]
  by (simp add: fill_steps stores_fit_def acpi_layout fadt_size del: filled.simps poke.simps memcpy.simps list.map le_bytes.simps)

lemma xsdt_fits: "stores_fit 512 xsdt_stores"
  by (simp add: stores_fit_def xsdt_stores_def)

lemma xsdt_layout:
  "field_at 512 0 8 xsdt_stores = replicate 8 0"
  "field_at 512 16 8 xsdt_stores = map byte_of ''RSD PTR ''"
  "le (field_at 512 31 1 xsdt_stores) = 2" "le (field_at 512 40 8 xsdt_stores) = 128"
  "field_at 512 128 4 xsdt_stores = map byte_of ''XSDT''"
  "le (field_at 512 132 4 xsdt_stores) = 44" "le (field_at 512 164 8 xsdt_stores) = 192"
  "field_at 512 192 4 xsdt_stores = map byte_of ''FACP''"
  "le (field_at 512 256 4 xsdt_stores) = 0xAAAA" "le (field_at 512 260 4 xsdt_stores) = 0xBBBB"
  by (simp_all add: xsdt_stores_def overwrite_same length_filled stores_fit_def le_le_bytes
      del: filled.simps list.map le_bytes.simps One_nat_def)

theorem acpi_xsdt_test_passes:
  assumes "start + 512 \<le> 2 ^ 64" and "length (acpi_tables s) = 16"
  shows "acpi_xsdt_test start s = Some 0"
proof -
  let ?m = "filled 512 xsdt_stores"
  note f = field_filled [OF xsdt_fits] length_filled [OF xsdt_fits] field_filled [OF xsdt_fits, of _ 0, unfolded drop_0]
  obtain t ts where t: "acpi_tables s = t # ts" using assms(2) by (cases "acpi_tables s") simp_all
  have run: "acpi_init_test (test_machine start ?m) start 512 s = Some (s\<lparr>acpi_table_count := 1,
    acpi_tables := (acpi_tables s)[0 := start + 192], fadt_table := True,
    fadt_data := \<lparr>pm1a_cnt_blk = of_nat 0xAAAA, pm1b_cnt_blk = of_nat 0xBBBB, slp_typa = 0, slp_typb = 0\<rparr>\<rparr>)"
    by (rule acpi_init_test_run [OF f(2) assms, where r = 128 and x = True])
      (simp_all add: f xsdt_layout zeros_no_rsdp entry_size_def del: One_nat_def list.map)
  have "acpi_get_table (test_machine start ?m) ''FACP'' u = Some (Some (start + 192))"
    if "acpi_table_count u = 1" "acpi_tables u = (start + 192) # ts" for u :: "'a acpi_scheme"
    by (rule get_table_test [OF that, where n = 4]) (simp_all add: f xsdt_layout del: list.map)
  then show ?thesis
    by (simp add: acpi_xsdt_test_def xsdt_memory_eq run acpi_get_fadt_def t)
qed

end
